(* ===== verification/Prelude.thy ===== *)
theory Prelude
  imports Main "HOL-Library.Word" "HOL-Library.Signed_Division" "HOL-Library.State_Monad"
begin

unbundle bit_operations_syntax

text \<open>
  Shared vocabulary of the development: the machine types of \<^verbatim>\<open>defs.h\<close>, C
  arithmetic on 32-bit \<^verbatim>\<open>long\<close>s (the daemon is built with
  \<^verbatim>\<open>mipsel-linux-gcc\<close>, so \<^verbatim>\<open>int\<close>, \<^verbatim>\<open>long\<close> and
  \<^verbatim>\<open>time_t\<close> are 32 bits wide and words are stored little-endian), byte buffers,
  the network byte order, a small Hoare logic over the state monad of the library, and the
  loops of the code as recursive combinators.
\<close>

section \<open>Machine types\<close>

type_synonym u8 = "8 word"
type_synonym u16 = "16 word"
type_synonym u32 = "32 word"
type_synonym ptr = nat
type_synonym buffer = "u8 list"

named_theorems keeps_rule \<open>rules that push an invariant through a monadic program\<close>
named_theorems keeps_first \<open>rules tried before \<open>keeps_rule\<close>: statements whose value matters\<close>
named_theorems frame_rule \<open>which parts of the state a program leaves alone\<close>
named_theorems layout \<open>sizes and offsets of the message structs\<close>

text \<open>Two's-complement wrap-around of a 32-bit \<^verbatim>\<open>long\<close> or \<^verbatim>\<open>int\<close>.\<close>

definition wrap32 :: "int \<Rightarrow> int" where
  "wrap32 x = signed_take_bit 31 x"

lemma wrap32_id: "- (2 ^ 31) \<le> x \<Longrightarrow> x < 2 ^ 31 \<Longrightarrow> wrap32 x = x"
  by (simp add: wrap32_def signed_take_bit_int_eq_self)

lemma wrap32_range: "- (2 ^ 31) \<le> wrap32 x \<and> wrap32 x < 2 ^ 31"
  using signed_take_bit_int_greater_eq_minus_exp [of 31 x] signed_take_bit_int_less_exp [of 31 x]
  by (simp add: wrap32_def)

lemma wrap32_wrap32 [simp]: "wrap32 (wrap32 x) = wrap32 x"
  by (simp add: wrap32_def)

lemma wrap32_add_left: "wrap32 (wrap32 x + y) = wrap32 (x + y)"
  by (simp add: wrap32_def signed_take_bit_add [of 31 "signed_take_bit 31 x" y, symmetric]
      signed_take_bit_add [of 31 x y, symmetric])

text \<open>C division and remainder on signed integers truncate towards zero.\<close>

lemma sdiv_thousand_less_zero: "(x :: int) sdiv 1000 < 0 \<longleftrightarrow> x \<le> - 1000"
  by (simp add: signed_divide_int_def sgn_if) linarith

lemma sdiv_thousand_pos: "(x :: int) sdiv 1000 > 0 \<longleftrightarrow> 1000 \<le> x"
  by (simp add: signed_divide_int_def sgn_if) linarith

lemma unat8_less: "unat (c :: u8) < 256"
  using unsigned_less [where ?'a = nat and w = c] by simp

section \<open>Byte buffers and byte order\<close>

text \<open>\<open>poke i bs buf\<close> overwrites the elements from offset \<open>i\<close>; the callers check the bounds.\<close>

definition poke :: "nat \<Rightarrow> 'a list \<Rightarrow> 'a list \<Rightarrow> 'a list" where
  "poke i bs buf = take i buf @ bs @ drop (i + length bs) buf"

lemma length_poke [simp]: "i + length bs \<le> length buf \<Longrightarrow> length (poke i bs buf) = length buf"
  by (simp add: poke_def)

lemma nth_poke:
  assumes "i + length bs \<le> length buf" and "j < length buf"
  shows "poke i bs buf ! j = (if i \<le> j \<and> j < i + length bs then bs ! (j - i) else buf ! j)"
  using assms by (auto simp: poke_def nth_append min_def)

definition le32 :: "u32 \<Rightarrow> u8 list" where
  "le32 w = [ucast w, ucast (drop_bit 8 w), ucast (drop_bit 16 w), ucast (drop_bit 24 w)]"

lemma length_le32 [simp]: "length (le32 w) = 4"
  by (simp add: le32_def)

definition peek32 :: "nat \<Rightarrow> buffer \<Rightarrow> u32" where
  "peek32 i buf = ucast (buf ! i) OR push_bit 8 (ucast (buf ! (i + 1)))
     OR push_bit 16 (ucast (buf ! (i + 2))) OR push_bit 24 (ucast (buf ! (i + 3)))"

text \<open>\<^verbatim>\<open>htonl\<close> and \<^verbatim>\<open>ntohl\<close> on a little-endian machine reverse the four bytes.\<close>

definition htonl :: "u32 \<Rightarrow> u32" where
  "htonl w = push_bit 24 (take_bit 8 w) OR push_bit 16 (take_bit 8 (drop_bit 8 w))
     OR push_bit 8 (take_bit 8 (drop_bit 16 w)) OR take_bit 8 (drop_bit 24 w)"

definition ntohl :: "u32 \<Rightarrow> u32" where
  "ntohl w = htonl w"

lemma bit_htonl:
  "bit (htonl w) n \<longleftrightarrow> n < 32 \<and>
     (if n < 8 then bit w (n + 24) else if n < 16 then bit w (n + 8)
      else if n < 24 then bit w (n - 8) else bit w (n - 24))"
proof (cases "n < 32")
  case True
  then consider "n < 8" | "8 \<le> n" "n < 16" | "16 \<le> n" "n < 24" | "24 \<le> n" "n < 32" by linarith
  then show ?thesis
    by cases (simp_all add: htonl_def bit_or_iff bit_push_bit_iff bit_take_bit_iff
        bit_drop_bit_eq add.commute le_diff_conv2 less_diff_conv2)
next
  case False
  then show ?thesis using bit_imp_le_length [of "htonl w" n] by auto
qed

lemma ntohl_htonl [simp]: "ntohl (htonl w) = w"
proof (rule bit_word_eqI)
  fix n :: nat
  assume "n < LENGTH(32)"
  then consider "n < 8" | "8 \<le> n" "n < 16" | "16 \<le> n" "n < 24" | "24 \<le> n" "n < 32"
    by (simp, linarith)
  then show "bit (ntohl (htonl w)) n \<longleftrightarrow> bit w n"
    by cases (simp_all add: ntohl_def bit_htonl less_diff_conv2)
qed

lemma htonl_eq_zero_iff [simp]: "htonl w = 0 \<longleftrightarrow> w = 0"
proof
  assume "htonl w = 0"
  then have "ntohl (htonl w) = ntohl 0" by simp
  also have "ntohl 0 = 0" by (simp add: ntohl_def htonl_def)
  finally show "w = 0" by simp
qed (simp add: htonl_def)

lemma peek32_le32:
  assumes "i + 4 \<le> length buf"
  shows "peek32 i (poke i (le32 w) buf) = w"
proof -
  have "peek32 i (poke i (le32 w) buf) =
    ucast (ucast w :: u8) OR push_bit 8 (ucast (ucast (drop_bit 8 w) :: u8))
     OR push_bit 16 (ucast (ucast (drop_bit 16 w) :: u8))
     OR push_bit 24 (ucast (ucast (drop_bit 24 w) :: u8))"
    using assms by (simp add: peek32_def nth_poke le32_def)
  also have "\<dots> = w"
  proof (rule bit_word_eqI)
    fix n :: nat
    assume "n < LENGTH(32)"
    then consider "n < 8" | "8 \<le> n" "n < 16" | "16 \<le> n" "n < 24" | "24 \<le> n" "n < 32"
      by (simp, linarith)
    then show "bit (ucast (ucast w :: u8) OR push_bit 8 (ucast (ucast (drop_bit 8 w) :: u8))
       OR push_bit 16 (ucast (ucast (drop_bit 16 w) :: u8))
       OR push_bit 24 (ucast (ucast (drop_bit 24 w) :: u8)) :: u32) n \<longleftrightarrow> bit w n"
      by cases (simp_all add: bit_or_iff bit_push_bit_iff bit_ucast_iff bit_drop_bit_eq
          le_diff_conv2 less_diff_conv2)
  qed
  finally show ?thesis .
qed

lemma peek32_poke_other:
  assumes "i + length bs \<le> length buf" and "j + 4 \<le> length buf"
    and "j + 4 \<le> i \<or> i + length bs \<le> j"
  shows "peek32 j (poke i bs buf) = peek32 j buf"
  using assms by (auto simp: peek32_def nth_poke)

lemma peek8_poke_other:
  assumes "i + length bs \<le> length buf" and "j < length buf" and "j < i \<or> i + length bs \<le> j"
  shows "poke i bs buf ! j = buf ! j"
  using assms by (auto simp: nth_poke)

section \<open>Programs that keep an invariant\<close>

text \<open>\<open>stays P m\<close>: the program \<open>m\<close> keeps \<open>P\<close>, whatever its state.\<close>

definition stays :: "('s \<Rightarrow> bool) \<Rightarrow> ('s, 'a) state \<Rightarrow> bool" where
  "stays P m \<longleftrightarrow> (\<forall>s. P s \<longrightarrow> P (snd (run_state m s)))"

named_theorems stays_rule \<open>operations that keep an invariant\<close>

lemma stays_bind [stays_rule]: "stays P m \<Longrightarrow> (\<And>a. stays P (f a)) \<Longrightarrow> stays P (State_Monad.bind m f)"
  unfolding stays_def by (simp add: case_prod_beta)

lemma stays_return [stays_rule]: "stays P (State_Monad.return x)"
  by (simp add: stays_def)

lemma stays_cases [stays_rule]:
  "stays P m \<Longrightarrow> stays P m' \<Longrightarrow> stays P (if b then m else m')"
  "(\<And>x. stays P (g x)) \<Longrightarrow> stays P (Let v g)"
  "stays P m \<Longrightarrow> (\<And>x. stays P (g x)) \<Longrightarrow> stays P (case w of None \<Rightarrow> m | Some x \<Rightarrow> g x)"
  "(\<And>x y. stays P (k x y)) \<Longrightarrow> stays P (case z of (x, y) \<Rightarrow> k x y)"
  by (auto simp: stays_def split: option.split prod.split)

lemma stays_both: "stays P m \<Longrightarrow> stays Q m \<Longrightarrow> stays (\<lambda>s. P s \<and> Q s) m"
  by (simp add: stays_def)

end
