(* ===== verification/Link_List.thy ===== *)
theory Link_List
  imports Prelude
begin

text \<open>
  \<^verbatim>\<open>list.c\<close> and \<^verbatim>\<open>list.h\<close>: the circular, doubly linked, intrusive
  lists every table of the daemon is built from, at the level of the
  \<^verbatim>\<open>prev\<close> and \<^verbatim>\<open>next\<close> pointers. A heap maps the address of a
  \<^verbatim>\<open>list_t\<close> to its two pointers, with \<open>None\<close> for \<^verbatim>\<open>NULL\<close>.
  An operation is \<open>None\<close> where the C dereferences \<^verbatim>\<open>NULL\<close>. The relation
  \<open>is_list h head xs\<close> says that the ring at \<open>head\<close> holds the nodes \<open>xs\<close> in order; the
  lemmas show that each operation implements its HOL list counterpart, which is what the
  other theories use for the daemon's lists.
\<close>

section \<open>The heap and the operations\<close>

record links =
  prev :: "ptr \<Rightarrow> ptr option"
  nxt :: "ptr \<Rightarrow> ptr option"

definition list_init_head :: "links \<Rightarrow> ptr \<Rightarrow> links" where
  "list_init_head h head = h\<lparr>nxt := (nxt h)(head := Some head), prev := (prev h)(head := Some head)\<rparr>"

definition list_init_head_null :: "links \<Rightarrow> ptr \<Rightarrow> links" where
  "list_init_head_null h head = h\<lparr>nxt := (nxt h)(head := None), prev := (prev h)(head := None)\<rparr>"

definition list_is_empty :: "links \<Rightarrow> ptr \<Rightarrow> bool" where
  "list_is_empty h head \<longleftrightarrow> prev h head = Some head \<and> nxt h head = Some head"

definition list_unattached :: "links \<Rightarrow> ptr \<Rightarrow> bool" where
  "list_unattached h head \<longleftrightarrow> prev h head = None \<and> nxt h head = None"

definition list_insert :: "links \<Rightarrow> ptr \<Rightarrow> ptr \<Rightarrow> ptr \<Rightarrow> links" where
  "list_insert h node p n =
     (let h = h\<lparr>prev := (prev h)(n := Some node)\<rparr>;
          h = h\<lparr>nxt := (nxt h)(p := Some node)\<rparr>;
          h = h\<lparr>prev := (prev h)(node := Some p)\<rparr>
      in h\<lparr>nxt := (nxt h)(node := Some n)\<rparr>)"

definition list_add :: "links \<Rightarrow> ptr \<Rightarrow> ptr \<Rightarrow> links option" where
  "list_add h head node = map_option (list_insert h node head) (nxt h head)"

definition list_push_front :: "links \<Rightarrow> ptr \<Rightarrow> ptr \<Rightarrow> links option" where
  "list_push_front h head node = map_option (list_insert h node head) (nxt h head)"

definition list_push_back :: "links \<Rightarrow> ptr \<Rightarrow> ptr \<Rightarrow> links option" where
  "list_push_back h head node = map_option (\<lambda>p. list_insert h node p head) (prev h head)"

definition list_delete :: "links \<Rightarrow> ptr \<Rightarrow> ptr \<Rightarrow> links" where
  "list_delete h p n =
     (let h = h\<lparr>nxt := (nxt h)(p := Some n)\<rparr> in h\<lparr>prev := (prev h)(n := Some p)\<rparr>)"

definition list_remove :: "links \<Rightarrow> ptr \<Rightarrow> links option" where
  "list_remove h node =
     (case (prev h node, nxt h node) of
        (Some p, Some n) \<Rightarrow>
          (let h = list_delete h p n in
           Some (h\<lparr>nxt := (nxt h)(node := None), prev := (prev h)(node := None)\<rparr>))
      | _ \<Rightarrow> None)"

definition list_first :: "links \<Rightarrow> ptr \<Rightarrow> ptr option" where
  "list_first h head = nxt h head"

text \<open>
  The loop of \<^verbatim>\<open>list_for_each\<close>: the nodes its body sees from position
  \<open>pos\<close> on. Each step spends one unit of fuel; \<open>None\<close> is a \<^verbatim>\<open>NULL\<close> link or a
  loop that has not come back to the head yet.
\<close>

fun list_for_each :: "nat \<Rightarrow> links \<Rightarrow> ptr \<Rightarrow> ptr option \<Rightarrow> ptr list option" where
  "list_for_each fuel h head None = None"
| "list_for_each 0 h head (Some pos) = (if pos = head then Some [] else None)"
| "list_for_each (Suc fuel) h head (Some pos) =
     (if pos = head then Some []
      else map_option ((#) pos) (list_for_each fuel h head (nxt h pos)))"

section \<open>The ring as a list\<close>

fun chain :: "links \<Rightarrow> ptr \<Rightarrow> ptr list \<Rightarrow> ptr \<Rightarrow> bool" where
  "chain h a [] b \<longleftrightarrow> nxt h a = Some b \<and> prev h b = Some a"
| "chain h a (x # xs) b \<longleftrightarrow> nxt h a = Some x \<and> prev h x = Some a \<and> chain h x xs b"

definition is_list :: "links \<Rightarrow> ptr \<Rightarrow> ptr list \<Rightarrow> bool" where
  "is_list h head xs \<longleftrightarrow> distinct (head # xs) \<and> chain h head xs head"

lemma chain_append: "chain h a (xs @ x # ys) b \<longleftrightarrow> chain h a xs x \<and> chain h x ys b"
  by (induction xs arbitrary: a) auto

lemma chain_frame:
  assumes "\<And>z. z = a \<or> z \<in> set xs \<Longrightarrow> nxt h' z = nxt h z"
    and "\<And>z. z = b \<or> z \<in> set xs \<Longrightarrow> prev h' z = prev h z"
  shows "chain h' a xs b = chain h a xs b"
  using assms by (induction xs arbitrary: a) auto

lemma chain_first: "chain h a xs b \<Longrightarrow> nxt h a = Some (hd (xs @ [b]))"
  by (cases xs) auto

lemma chain_last: "chain h a xs b \<Longrightarrow> prev h b = Some (last (a # xs))"
  by (induction xs arbitrary: a) auto

lemma is_list_frame:
  assumes "\<And>z. z \<in> set (head # xs) \<Longrightarrow> nxt h' z = nxt h z \<and> prev h' z = prev h z"
  shows "is_list h' head xs = is_list h head xs"
  using chain_frame [of head xs h' h head] assms by (simp add: is_list_def)

lemma chain_unique: "chain h a xs b \<Longrightarrow> chain h a ys b \<Longrightarrow> b \<notin> set xs \<Longrightarrow> b \<notin> set ys \<Longrightarrow> xs = ys"
proof (induction xs arbitrary: a ys)
  case Nil
  then show ?case by (cases ys) auto
next
  case (Cons x xs)
  then show ?case by (cases ys) auto
qed

text \<open>One heap holds at most one list at a head.\<close>

lemma is_list_unique: "is_list h head xs \<Longrightarrow> is_list h head ys \<Longrightarrow> xs = ys"
  by (auto simp: is_list_def dest: chain_unique)

section \<open>Each operation implements its list counterpart\<close>

lemma is_list_init: "is_list (list_init_head h head) head []"
  by (simp add: is_list_def list_init_head_def)

lemma is_list_empty_iff: "is_list h head xs \<Longrightarrow> list_is_empty h head \<longleftrightarrow> xs = []"
  by (cases xs) (auto simp: is_list_def list_is_empty_def)

lemma list_first_eq: "is_list h head (x # xs) \<Longrightarrow> list_first h head = Some x"
  by (simp add: is_list_def list_first_def)

text \<open>
  Insertion between two neighbours. The left neighbour \<open>p\<close> is the last node of
  \<open>head # xs\<close> and the right one \<open>n\<close> the first node of \<open>ys @ [head]\<close>.
\<close>

lemma is_list_insert:
  assumes l: "is_list h head (xs @ ys)" and new: "node \<notin> set (head # xs @ ys)"
  shows "is_list (list_insert h node (last (head # xs)) (hd (ys @ [head]))) head (xs @ node # ys)"
proof -
  define p n where "p = last (head # xs)" and "n = hd (ys @ [head])"
  let ?h = "list_insert h node p n"
  have d: "distinct (head # xs @ node # ys)" using l new by (auto simp: is_list_def)
  have p: "p \<in> set (head # xs)" unfolding p_def by (rule last_in_set) simp
  have n: "n \<in> set (ys @ [head])" by (cases ys) (simp_all add: n_def)
  have np: "p \<noteq> node" "n \<noteq> node" using p n new by auto
  have left: "chain ?h head xs node"
  proof (cases xs rule: rev_exhaust)
    case Nil
    then show ?thesis using np by (simp add: list_insert_def Let_def p_def)
  next
    case (snoc us u)
    then have c: "chain h head us u" using l by (simp add: is_list_def chain_append)
    have u: "p = u" by (simp add: p_def snoc)
    have "n \<notin> set (us @ [u])" using n d snoc by auto
    then have "chain ?h head us u = chain h head us u"
      using d np snoc by (intro chain_frame) (auto simp: list_insert_def Let_def u)
    then show ?thesis using c np d snoc by (auto simp: chain_append list_insert_def Let_def u)
  qed
  have right: "chain ?h node ys head"
  proof (cases ys)
    case Nil
    then show ?thesis using np by (simp add: list_insert_def Let_def n_def)
  next
    case (Cons v vs)
    then have c: "chain h v vs head" using l by (simp add: is_list_def chain_append)
    have v: "n = v" by (simp add: n_def Cons)
    have "p \<notin> set (v # vs)" using p d Cons by auto
    then have "chain ?h v vs head = chain h v vs head"
      using d np Cons by (intro chain_frame) (auto simp: list_insert_def Let_def v)
    then show ?thesis using c np by (simp add: Cons list_insert_def Let_def v)
  qed
  show ?thesis using left right d by (simp add: is_list_def chain_append p_def n_def)
qed

lemma is_list_next: "is_list h head (xs @ ys) \<Longrightarrow> nxt h (last (head # xs)) = Some (hd (ys @ [head]))"
  by (cases xs rule: rev_exhaust) (auto simp: is_list_def chain_append dest: chain_first)

lemma is_list_prev: "is_list h head (xs @ ys) \<Longrightarrow> prev h (hd (ys @ [head])) = Some (last (head # xs))"
  by (cases ys) (auto simp: is_list_def chain_append dest: chain_last)

lemma list_add_ok:
  assumes "is_list h head xs" and "node \<notin> set (head # xs)"
  shows "\<exists>h'. list_add h head node = Some h' \<and> is_list h' head (node # xs)"
  using is_list_insert [of h head "[]" xs node] is_list_next [of h head "[]" xs] assms
  by (simp add: list_add_def)

lemma list_push_back_ok:
  assumes "is_list h head xs" and "node \<notin> set (head # xs)"
  shows "\<exists>h'. list_push_back h head node = Some h' \<and> is_list h' head (xs @ [node])"
  using is_list_insert [of h head xs "[]" node] is_list_prev [of h head xs "[]"] assms
  by (simp add: list_push_back_def del: last.simps)

text \<open>
  \<^verbatim>\<open>list_push_front(pos->prev, node)\<close>, the way \<^verbatim>\<open>timer_add\<close> inserts
  before position \<open>pos\<close>, which may be the head after a loop that ran to its end.
\<close>

lemma list_insert_before_ok:
  assumes l: "is_list h head (xs @ ys)" and new: "node \<notin> set (head # xs @ ys)"
    and pos: "pos = hd (ys @ [head])"
  shows "\<exists>h'. Option.bind (prev h pos) (\<lambda>p. list_push_front h p node) = Some h'
    \<and> is_list h' head (xs @ node # ys)"
  using is_list_insert [OF l new] is_list_prev [OF l] is_list_next [OF l] pos
  by (simp add: list_push_front_def del: last.simps)

lemma list_remove_ok:
  assumes l: "is_list h head (xs @ x # ys)"
  shows "\<exists>h'. list_remove h x = Some h' \<and> is_list h' head (xs @ ys) \<and> list_unattached h' x"
proof -
  define p n where "p = last (head # xs)" and "n = hd (ys @ [head])"
  have d: "distinct (head # xs @ x # ys)" using l by (simp add: is_list_def)
  have px: "prev h x = Some p" using is_list_prev [of h head xs "x # ys"] l by (simp add: p_def)
  have nx: "nxt h x = Some n" using is_list_next [of h head "xs @ [x]" ys] l by (simp add: n_def)
  have pin: "p \<in> set (head # xs)" unfolding p_def by (rule last_in_set) simp
  have nin: "n \<in> set (ys @ [head])" by (cases ys) (simp_all add: n_def)
  let ?h = "let h = list_delete h p n in h\<lparr>nxt := (nxt h)(x := None), prev := (prev h)(x := None)\<rparr>"
  have np: "p \<noteq> x" "n \<noteq> x" using pin nin d by auto
  have eq: "list_remove h x = Some ?h" by (simp add: list_remove_def px nx Let_def)
  have left: "chain h head xs x" and right: "chain h x ys head"
    using l by (auto simp: is_list_def chain_append)
  have "chain ?h head (xs @ ys) head"
  proof (cases ys)
    case Nil
    show ?thesis
    proof (cases xs rule: rev_exhaust)
      case Nil
      with \<open>ys = []\<close> show ?thesis using d by (auto simp: list_delete_def Let_def p_def n_def)
    next
      case (snoc us u)
      then have "chain ?h head us u = chain h head us u"
        using d np \<open>ys = []\<close> by (intro chain_frame) (auto simp: list_delete_def Let_def p_def n_def)
      then show ?thesis using left d snoc Nil
        by (auto simp: chain_append list_delete_def Let_def p_def n_def)
    qed
  next
    case (Cons v vs)
    have vs: "chain ?h v vs head = chain h v vs head"
      using d np pin Cons by (intro chain_frame) (auto simp: list_delete_def Let_def n_def)
    show ?thesis
    proof (cases xs rule: rev_exhaust)
      case Nil
      then show ?thesis using vs right d Cons by (auto simp: list_delete_def Let_def p_def n_def)
    next
      case (snoc us u)
      then have us: "chain ?h head us u = chain h head us u"
        using d np Cons by (intro chain_frame) (auto simp: list_delete_def Let_def p_def n_def)
      have link: "nxt ?h u = Some v" "prev ?h v = Some u"
        using d snoc Cons by (auto simp: list_delete_def Let_def p_def n_def)
      have "xs @ ys = us @ u # v # vs" using snoc Cons by simp
      then show ?thesis using us vs link left right snoc Cons
        by (simp only: chain_append chain.simps)
    qed
  qed
  moreover have "list_unattached ?h x" by (simp add: list_unattached_def Let_def)
  ultimately show ?thesis using eq d by (auto simp: is_list_def)
qed

lemma list_for_each_chain:
  "chain h a xs head \<Longrightarrow> head \<notin> set xs \<Longrightarrow> length xs \<le> fuel \<Longrightarrow>
   list_for_each fuel h head (nxt h a) = Some xs"
proof (induction xs arbitrary: a fuel)
  case Nil
  then show ?case by (cases fuel) auto
next
  case (Cons x xs)
  then obtain fuel' where f: "fuel = Suc fuel'" by (cases fuel) auto
  have "list_for_each fuel' h head (nxt h x) = Some xs"
    using Cons.IH [of x fuel'] Cons.prems f by simp
  then show ?case using Cons.prems f by simp
qed

lemma list_for_each_ok:
  "is_list h head xs \<Longrightarrow> length xs \<le> fuel \<Longrightarrow> list_for_each fuel h head (nxt h head) = Some xs"
  by (rule list_for_each_chain) (auto simp: is_list_def)

text \<open>Operations on one ring leave every disjoint ring as it is.\<close>

lemma list_remove_frame:
  assumes l: "is_list h head (xs @ x # ys)" and other: "is_list h g zs"
    and disj: "set (g # zs) \<inter> set (head # xs @ x # ys) = {}" and r: "list_remove h x = Some h'"
  shows "is_list h' g zs"
proof -
  have "prev h x = Some (last (head # xs))" using is_list_prev [of h head xs "x # ys"] l by simp
  moreover have "nxt h x = Some (hd (ys @ [head]))"
    using is_list_next [of h head "xs @ [x]" ys] l by simp
  moreover have "last (head # xs) \<in> set (head # xs)" by (rule last_in_set) simp
  moreover have "hd (ys @ [head]) \<in> set (ys @ [head])" by (cases ys) simp_all
  ultimately show ?thesis
    using disj other r by (subst is_list_frame [of g zs h' h])
      (auto simp: list_remove_def list_delete_def Let_def simp del: last.simps)
qed

lemma list_push_back_frame:
  assumes l: "is_list h head xs" and other: "is_list h g zs"
    and disj: "set (g # zs) \<inter> set (node # head # xs) = {}" and r: "list_push_back h head node = Some h'"
  shows "is_list h' g zs"
proof -
  have "prev h head = Some (last (head # xs))" using is_list_prev [of h head xs "[]"] l by simp
  moreover have "last (head # xs) \<in> set (head # xs)" by (rule last_in_set) simp
  ultimately show ?thesis
    using disj other r by (subst is_list_frame [of g zs h' h])
      (auto simp: list_push_back_def list_insert_def Let_def simp del: last.simps)
qed

section \<open>The interface the timer queue relies on\<close>

text \<open>
  Moving the node at the front of one list to the back of another, and draining a list
  from the front, are all that \<^verbatim>\<open>timer_timeout\<close> needs from its lists. The
  locale states the laws, and its lemmas are the two loops.
\<close>

fun drain :: "('h \<Rightarrow> ptr \<Rightarrow> ptr option) \<Rightarrow> ('h \<Rightarrow> ptr \<Rightarrow> 'h option) \<Rightarrow> nat \<Rightarrow> 'h \<Rightarrow> ptr
    \<Rightarrow> (ptr list \<times> 'h) option" where
  "drain first remove 0 h head = Some ([], h)"
| "drain first remove (Suc n) h head =
     Option.bind (first h head) (\<lambda>x. Option.bind (remove h x) (\<lambda>h'.
       map_option (\<lambda>(xs, h''). (x # xs, h'')) (drain first remove n h' head)))"

fun move_front :: "('h \<Rightarrow> ptr \<Rightarrow> ptr option) \<Rightarrow> ('h \<Rightarrow> ptr \<Rightarrow> 'h option)
    \<Rightarrow> ('h \<Rightarrow> ptr \<Rightarrow> ptr \<Rightarrow> 'h option) \<Rightarrow> nat \<Rightarrow> 'h \<Rightarrow> ptr \<Rightarrow> ptr \<Rightarrow> 'h option" where
  "move_front first remove push_back 0 h src dst = Some h"
| "move_front first remove push_back (Suc n) h src dst =
     Option.bind (first h src) (\<lambda>x. Option.bind (remove h x) (\<lambda>h1.
       Option.bind (push_back h1 dst x) (\<lambda>h2. move_front first remove push_back n h2 src dst)))"

locale list_queue =
  fixes rep :: "'h \<Rightarrow> ptr \<Rightarrow> ptr list \<Rightarrow> bool"
    and first :: "'h \<Rightarrow> ptr \<Rightarrow> ptr option"
    and remove :: "'h \<Rightarrow> ptr \<Rightarrow> 'h option"
    and push_back :: "'h \<Rightarrow> ptr \<Rightarrow> ptr \<Rightarrow> 'h option"
  assumes rep_distinct: "rep h head xs \<Longrightarrow> distinct (head # xs)"
    and first: "rep h head (x # xs) \<Longrightarrow> first h head = Some x"
    and remove: "rep h head (xs @ x # ys) \<Longrightarrow> \<exists>h'. remove h x = Some h' \<and> rep h' head (xs @ ys)"
    and remove_frame: "rep h head (xs @ x # ys) \<Longrightarrow> rep h g zs \<Longrightarrow>
      set (g # zs) \<inter> set (head # xs @ x # ys) = {} \<Longrightarrow> remove h x = Some h' \<Longrightarrow> rep h' g zs"
    and push_back: "rep h head xs \<Longrightarrow> node \<notin> set (head # xs) \<Longrightarrow>
      \<exists>h'. push_back h head node = Some h' \<and> rep h' head (xs @ [node])"
    and push_back_frame: "rep h head xs \<Longrightarrow> rep h g zs \<Longrightarrow>
      set (g # zs) \<inter> set (node # head # xs) = {} \<Longrightarrow> push_back h head node = Some h' \<Longrightarrow> rep h' g zs"
begin

lemma drain_all: "rep h head xs \<Longrightarrow> \<exists>h'. drain first remove (length xs) h head = Some (xs, h') \<and> rep h' head []"
proof (induction xs arbitrary: h)
  case Nil
  then show ?case by simp
next
  case (Cons x xs)
  obtain h1 where r: "remove h x = Some h1" and h1: "rep h1 head xs"
    using remove [of h head "[]" x xs] Cons.prems by auto
  from Cons.IH [OF h1] show ?case using first [OF Cons.prems] r by auto
qed

lemma move_prefix:
  assumes "rep h src (xs @ ys)" and "rep h dst zs"
    and "set (src # xs @ ys) \<inter> set (dst # zs) = {}"
  shows "\<exists>h'. move_front first remove push_back (length xs) h src dst = Some h'
    \<and> rep h' src ys \<and> rep h' dst (zs @ xs)"
  using assms
proof (induction xs arbitrary: h zs)
  case Nil
  then show ?case by simp
next
  case (Cons x xs)
  obtain h1 where r: "remove h x = Some h1" and h1: "rep h1 src (xs @ ys)"
    using remove [of h src "[]" x "xs @ ys"] Cons.prems(1) by auto
  have d1: "rep h1 dst zs"
    using remove_frame [of h src "[]" x "xs @ ys" dst zs h1] Cons.prems r by auto
  have dist: "distinct (src # x # xs @ ys)" using rep_distinct [OF Cons.prems(1)] by simp
  obtain h2 where p: "push_back h1 dst x = Some h2" and d2: "rep h2 dst (zs @ [x])"
    using push_back [OF d1, of x] Cons.prems(3) by auto
  have s2: "rep h2 src (xs @ ys)"
    using push_back_frame [OF d1 h1 _ p] Cons.prems(3) dist by auto
  obtain h' where "move_front first remove push_back (length xs) h2 src dst = Some h'"
    "rep h' src ys" "rep h' dst ((zs @ [x]) @ xs)"
    using Cons.IH [OF s2 d2] Cons.prems(3) dist by auto
  then show ?case using first [of h src x "xs @ ys"] Cons.prems(1) r p by auto
qed

end

interpretation ll: list_queue is_list list_first list_remove list_push_back
proof unfold_locales
  show "distinct (head # xs)" if "is_list h head xs" for h head xs
    using that by (simp add: is_list_def)
  show "\<exists>h'. list_remove h x = Some h' \<and> is_list h' head (xs @ ys)"
    if "is_list h head (xs @ x # ys)" for h head xs x ys
    using list_remove_ok [OF that] by blast
qed (rule list_first_eq list_remove_frame list_push_back_ok list_push_back_frame; assumption)+


definition two_timers :: links where
  "two_timers = (let h = list_init_head (list_init_head \<lparr>prev = \<lambda>_. None, nxt = \<lambda>_. None\<rparr> 0) 1
     in the (list_push_back (the (list_push_back h 0 2)) 0 3))"


end
