(* ===== verification/Node.thy ===== *)
theory Node
  imports Prelude
begin

text \<open>
  The data of the daemon: the constants of \<^verbatim>\<open>defs.h\<close>, \<^verbatim>\<open>parameters.h\<close>
  and \<^verbatim>\<open>routing_table.h\<close>, its structs as records, and one record \<open>node\<close> with
  every global variable. The heap is one map per struct type, from addresses to contents;
  reading or writing an address that is not allocated sets \<open>fault\<close>, the mark of undefined
  behaviour, and it is never cleared. Timers are embedded in their owners in the code:
  \<open>timer_id\<close> is the address of such a member. What the operating system returns
  (the clock readings, the results of \<^verbatim>\<open>setsockopt\<close> and \<^verbatim>\<open>sendmsg\<close>)
  are two streams indexed by the number of system calls made so far, and what is sent is
  recorded. Allocation is taken to succeed: the code calls \<^verbatim>\<open>exit\<close> where it does not.
\<close>

section \<open>Constants\<close>

abbreviation (input) AODV_HELLO :: u8 where "AODV_HELLO \<equiv> 0"
abbreviation (input) AODV_RREQ :: u8 where "AODV_RREQ \<equiv> 1"
abbreviation (input) AODV_RREP :: u8 where "AODV_RREP \<equiv> 2"
abbreviation (input) AODV_RERR :: u8 where "AODV_RERR \<equiv> 3"
abbreviation (input) AODV_RREP_ACK :: u8 where "AODV_RREP_ACK \<equiv> 4"
abbreviation (input) AODV_BROADCAST :: u32 where "AODV_BROADCAST \<equiv> 0xffffffff"
abbreviation (input) RREQ_RATELIMIT :: nat where "RREQ_RATELIMIT \<equiv> 10"
abbreviation (input) RERR_RATELIMIT :: nat where "RERR_RATELIMIT \<equiv> 10"
abbreviation (input) BUF_SIZE :: nat where "BUF_SIZE \<equiv> 1024"

abbreviation (input) INVALID :: u8 where "INVALID \<equiv> 0"
abbreviation (input) VALID :: u8 where "VALID \<equiv> 1"
abbreviation (input) RT_UNIDIR :: u8 where "RT_UNIDIR \<equiv> 1"
abbreviation (input) RT_REPAIR :: u8 where "RT_REPAIR \<equiv> 2"
abbreviation (input) RT_INV_SEQNO :: u8 where "RT_INV_SEQNO \<equiv> 4"
abbreviation (input) RT_INET_DEST :: u8 where "RT_INET_DEST \<equiv> 8"
abbreviation (input) RT_TABLESIZE :: nat where "RT_TABLESIZE \<equiv> 64"
abbreviation (input) RT_TABLEMASK :: u32 where "RT_TABLEMASK \<equiv> 63"

abbreviation (input) ALLOWED_HELLO_LOSS :: int where "ALLOWED_HELLO_LOSS \<equiv> 2"
abbreviation (input) HELLO_INTERVAL :: int where "HELLO_INTERVAL \<equiv> 1000"
abbreviation (input) ROUTE_TIMEOUT_SLACK :: int where "ROUTE_TIMEOUT_SLACK \<equiv> 100"
abbreviation (input) HELLO_DELAY :: int where "HELLO_DELAY \<equiv> 50"
abbreviation (input) LOCAL_ADD_TTL :: int where "LOCAL_ADD_TTL \<equiv> 2"
abbreviation (input) NET_DIAMETER :: int where "NET_DIAMETER \<equiv> 35"
abbreviation (input) NODE_TRAVERSAL_TIME :: int where "NODE_TRAVERSAL_TIME \<equiv> 40"
abbreviation (input) RREQ_RETRIES :: int where "RREQ_RETRIES \<equiv> 2"
abbreviation (input) TIMEOUT_BUFFER :: int where "TIMEOUT_BUFFER \<equiv> 2"
abbreviation (input) TTL_INCREMENT :: int where "TTL_INCREMENT \<equiv> 2"
abbreviation (input) TTL_THRESHOLD :: int where "TTL_THRESHOLD \<equiv> 7"
abbreviation (input) MAXTTL :: int where "MAXTTL \<equiv> 255"

text \<open>The compound macros, expanded the way the preprocessor expands them.\<close>

definition NET_TRAVERSAL_TIME :: int where
  "NET_TRAVERSAL_TIME = 2 * NODE_TRAVERSAL_TIME * NET_DIAMETER"

definition PATH_DISCOVERY_TIME :: int where
  "PATH_DISCOVERY_TIME = 2 * 2 * NODE_TRAVERSAL_TIME * NET_DIAMETER"

definition MAX_REPAIR_TTL :: int where
  "MAX_REPAIR_TTL = 3 * NET_DIAMETER div 10"

definition NEXT_HOP_WAIT :: int where
  "NEXT_HOP_WAIT = NODE_TRAVERSAL_TIME + 10"

definition RING_TRAVERSAL_TIME :: "int \<Rightarrow> int" where
  "RING_TRAVERSAL_TIME ttl_value = 2 * NODE_TRAVERSAL_TIME * (ttl_value + TIMEOUT_BUFFER)"

definition BLACKLIST_TIMEOUT :: "int \<Rightarrow> int" where
  "BLACKLIST_TIMEOUT ttl_start =
     RREQ_RETRIES * 2 * NODE_TRAVERSAL_TIME * NET_DIAMETER
     + (TTL_THRESHOLD - ttl_start) sdiv TTL_INCREMENT + 1 + RREQ_RETRIES"

text \<open>\<^verbatim>\<open>has flags f\<close> is the C test \<^verbatim>\<open>flags & f\<close>.\<close>

definition has :: "u8 \<Rightarrow> u8 \<Rightarrow> bool" where
  "has flags f \<longleftrightarrow> flags AND f \<noteq> 0"

definition seqno_incr :: "u32 \<Rightarrow> u32" where
  "seqno_incr s = (if s = 0 then 0 else if s = 0xffffffff then 1 else s + 1)"

text \<open>The casts \<^verbatim>\<open>(s32_t)a > (s32_t)b\<close> the handlers compare sequence numbers with.\<close>

definition seqno_gt :: "u32 \<Rightarrow> u32 \<Rightarrow> bool" where
  "seqno_gt a b \<longleftrightarrow> sint a > sint b"

section \<open>Time\<close>

record timeval =
  tv_sec :: int
  tv_usec :: int

definition timeval_diff :: "timeval \<Rightarrow> timeval \<Rightarrow> int" where
  "timeval_diff t1 t2 =
     wrap32 ((tv_sec t1 - tv_sec t2) * 1000000 + tv_usec t1 - tv_usec t2) sdiv 1000"

text \<open>
  \<^verbatim>\<open>msec\<close> is an \<^verbatim>\<open>unsigned long\<close>, so \<^verbatim>\<open>t->tv_usec + msec * 1000\<close>
  is computed modulo \<open>2 ^ 32\<close> before it is widened to \<^verbatim>\<open>unsigned long long\<close>.
\<close>

definition timeval_add_msec :: "timeval \<Rightarrow> u32 \<Rightarrow> timeval" where
  "timeval_add_msec t msec =
     (let add = take_bit 32 (tv_usec t + uint msec * 1000)
      in \<lparr>tv_sec = wrap32 (tv_sec t + add div 1000000), tv_usec = add mod 1000000\<rparr>)"

text \<open>Microseconds since the epoch, as a mathematical integer.\<close>

definition usecs :: "timeval \<Rightarrow> int" where
  "usecs t = tv_sec t * 1000000 + tv_usec t"

lemma timeval_diff_usecs: "timeval_diff t1 t2 = wrap32 (usecs t1 - usecs t2) sdiv 1000"
  by (simp add: timeval_diff_def usecs_def algebra_simps)

section \<open>Structs\<close>

datatype handler =
    Rreq_record_timeout | Rreq_blacklist_timeout | Route_discovery_timeout
  | Local_repair_timeout | Route_expire_timeout | Route_delete_timeout
  | Hello_timeout | Rrep_ack_timeout | Wait_on_reboot_timeout
  | Hello_send | Print_rt_table

datatype timer_id =
    Rt_timer ptr | Ack_timer ptr | Hello_timer ptr
  | Seek_timer ptr | Rec_timer ptr | Bl_timer ptr
  | Hello_send_timer | Worb_timer | Rt_log_timer

record timer =
  t_used :: bool
  t_timeout :: timeval
  t_handler :: "handler option"
  t_data :: "ptr option"

record rt_entry =
  dest_addr :: u32
  dest_seqno :: u32
  next_hop :: u32
  hopcnt :: u8
  rt_flags :: u8
  rt_state :: u8
  last_hello_time :: timeval
  hello_cnt :: u8
  rt_hash :: u32
  nprecursor :: u32
  precursors :: "u32 list"

record seek_entry =
  sk_dest_addr :: u32
  sk_dest_seqno :: u32
  sk_flags :: u8
  rreq_cnt :: int
  sk_ttl :: int

record rreq_rec =
  rec_orig_addr :: u32
  rec_rreq_id :: u32

text \<open>What leaves the node: a datagram, with the destination and TTL it is sent with.\<close>

record packet =
  pk_dest :: u32
  pk_ttl :: int
  pk_data :: "u8 list"

text \<open>
  A netlink message: the header and a body. The body is the module's
  \<^verbatim>\<open>struct kaodv_rt_msg\<close> or \<^verbatim>\<open>struct kaodv_conf_msg\<close>, or a request to
  the kernel's own routing table with the attributes written into its buffer (offset from the
  start of the message, type, payload).
\<close>

record kaodv_rt_msg =
  m_type :: u8
  m_src :: u32
  m_dest :: u32
  m_nhop :: u32
  m_flags :: u8
  m_ifindex :: int
  m_time :: int

abbreviation (input) KAODVM_ADDROUTE :: int where "KAODVM_ADDROUTE \<equiv> 101"
abbreviation (input) KAODVM_DELROUTE :: int where "KAODVM_DELROUTE \<equiv> 102"
abbreviation (input) KAODVM_TIMEOUT :: int where "KAODVM_TIMEOUT \<equiv> 103"
abbreviation (input) KAODVM_ROUTE_REQ :: int where "KAODVM_ROUTE_REQ \<equiv> 104"
abbreviation (input) KAODVM_REPAIR :: int where "KAODVM_REPAIR \<equiv> 105"
abbreviation (input) KAODVM_NOROUTE_FOUND :: int where "KAODVM_NOROUTE_FOUND \<equiv> 106"
abbreviation (input) KAODVM_ROUTE_UPDATE :: int where "KAODVM_ROUTE_UPDATE \<equiv> 107"
abbreviation (input) KAODVM_SEND_RERR :: int where "KAODVM_SEND_RERR \<equiv> 108"
abbreviation (input) KAODVM_CONFIG :: int where "KAODVM_CONFIG \<equiv> 109"
abbreviation (input) KAODVM_DEBUG :: int where "KAODVM_DEBUG \<equiv> 110"
abbreviation (input) KAODV_RT_GW_ENCAP :: "'a :: len word" where "KAODV_RT_GW_ENCAP \<equiv> 1"
abbreviation (input) KAODV_RT_REPAIR :: "'a :: len word" where "KAODV_RT_REPAIR \<equiv> 2"

definition blank_rt_msg :: kaodv_rt_msg where
  "blank_rt_msg = \<lparr>m_type = 0, m_src = 0, m_dest = 0, m_nhop = 0, m_flags = 0, m_ifindex = 0, m_time = 0\<rparr>"

record rtm_req =
  rtm_dst_len :: int
  rtm_scope :: int
  rta_list :: "(int \<times> int \<times> u32) list"

datatype nl_body = Rt_msg kaodv_rt_msg | Conf_msg int | Rtm_msg rtm_req

record nlmsg =
  nlmsg_len :: int
  nlmsg_type :: int
  nlmsg_flags :: int
  nlmsg_seq :: int
  nlmsg_pid :: int
  nl_body :: nl_body

section \<open>The state of the daemon\<close>

record node =
  env_time :: "nat \<Rightarrow> timeval"
  env_ret :: "nat \<Rightarrow> int"
  tick :: nat
  fault :: bool
  brk :: ptr
  \<comment> \<open>\<^verbatim>\<open>this_host\<close>\<close>
  host_seqno :: u32
  host_rreq_id :: u32
  last_forward_time :: timeval
  last_broadcast_time :: timeval
  dev_enabled :: bool
  dev_ifindex :: int
  dev_ipaddr :: u32
  dev_broadcast :: u32
  \<comment> \<open>settings of \<^verbatim>\<open>main.c\<close>\<close>
  wait_on_reboot :: bool
  ratelimit :: bool
  expanding_ring_search :: bool
  receive_n_hellos :: int
  local_repair :: bool
  active_route_timeout :: int
  ttl_start :: int
  delete_period :: int
  rt_log_interval :: int
  \<comment> \<open>\<^verbatim>\<open>rt_tbl\<close> and the entries\<close>
  num_entries :: u32
  num_active :: u32
  tbl :: "nat \<Rightarrow> ptr list"
  rts :: "ptr \<Rightarrow> rt_entry option"
  \<comment> \<open>timers and their lists\<close>
  timers :: "timer_id \<Rightarrow> timer"
  tq :: "timer_id list"
  exptq :: "timer_id list"
  \<comment> \<open>seek list, RREQ records, blacklist\<close>
  sl :: "ptr list"
  seeks :: "ptr \<Rightarrow> seek_entry option"
  rreq_records :: "ptr list"
  recs :: "ptr \<Rightarrow> rreq_rec option"
  rreq_blacklists :: "ptr list"
  bls :: "ptr \<Rightarrow> u32 option"
  \<comment> \<open>\<^verbatim>\<open>aodv_socket.c\<close>\<close>
  send_buf :: buffer
  recv_buf :: buffer
  num_rreq :: nat
  num_rerr :: nat
  rreq_ratelimit :: "timeval list"
  rerr_ratelimit :: "timeval list"
  sent :: "packet list"
  \<comment> \<open>\<^verbatim>\<open>nl.c\<close>\<close>
  nl_pid :: int
  aodvnl_seqno :: int
  rtnl_seqno :: int
  nl_out :: "nlmsg list"

type_synonym 'a daemon = "(node, 'a) state"

section \<open>Properties\<close>

text \<open>
  \<^verbatim>\<open>seqno_incr\<close> never turns a sequence number that is set (not 0) into 0: it adds
  one and skips 0 when it wraps. A number that is 0 stays 0.
\<close>

theorem seqno_incr_skips_zero:
  "seqno_incr 0 = 0 \<and> (s \<noteq> 0 \<longrightarrow> seqno_incr s \<noteq> 0 \<and>
     unat (seqno_incr s) = (if s = 0xffffffff then 1 else unat s + 1))"
proof -
  have "unat (s + 1) = unat s + 1" if "s \<noteq> 0xffffffff"
  proof -
    have "s + 1 \<noteq> 0"
    proof
      assume "s + 1 = 0"
      then have "s = - 1" by (simp add: add_eq_0_iff2)
      then show False using that by simp
    qed
    then show ?thesis by (simp add: unatSuc add.commute)
  qed
  then show ?thesis by (auto simp: seqno_incr_def unat_eq_0)
qed

theorem seqno_incr_skips_zero_witness: "seqno_incr 0xffffffff = 1 \<and> unat (seqno_incr 7) = 8"
  using seqno_incr_skips_zero [of "0xffffffff"] seqno_incr_skips_zero [of 7]
  by (simp add: seqno_incr_def)

text \<open>
  \<^verbatim>\<open>timeval_diff\<close> is the difference in milliseconds, rounded towards zero, as long
  as the two times are less than \<open>2 ^ 31\<close> microseconds apart. Its comment says that overflows
  are avoided, but beyond that distance (here 36 minutes) the sign is wrong.
\<close>

theorem timeval_diff_exact_when_near:
  "(\<bar>usecs t1 - usecs t2\<bar> < 2 ^ 31 \<longrightarrow> timeval_diff t1 t2 = (usecs t1 - usecs t2) sdiv 1000)
   \<and> timeval_diff \<lparr>tv_sec = 2160, tv_usec = 0\<rparr> \<lparr>tv_sec = 0, tv_usec = 0\<rparr> < 0"
proof
  show "\<bar>usecs t1 - usecs t2\<bar> < 2 ^ 31 \<longrightarrow> timeval_diff t1 t2 = (usecs t1 - usecs t2) sdiv 1000"
    by (simp add: timeval_diff_usecs wrap32_id abs_less_iff)
  have "wrap32 2160000000 = - 2134967296"
    by (simp add: wrap32_def signed_take_bit_eq_take_bit_shift take_bit_eq_mod)
  then show "timeval_diff \<lparr>tv_sec = 2160, tv_usec = 0\<rparr> \<lparr>tv_sec = 0, tv_usec = 0\<rparr> < 0"
    by (simp add: timeval_diff_def sdiv_thousand_less_zero)
qed

theorem timeval_diff_exact_when_near_witness:
  "timeval_diff \<lparr>tv_sec = 5, tv_usec = 1999\<rparr> \<lparr>tv_sec = 3, tv_usec = 500\<rparr> = 2001499 sdiv 1000"
  using timeval_diff_exact_when_near [of "\<lparr>tv_sec = 5, tv_usec = 1999\<rparr>" "\<lparr>tv_sec = 3, tv_usec = 500\<rparr>"]
  by (simp add: usecs_def)

end
