(* ===== verification/Daemon_Monad.thy ===== *)
theory Daemon_Monad
  imports Node
begin

text \<open>
  The state monad the daemon's functions are written in, and a Hoare logic for it. A C
  function is a program of type \<open>'a daemon\<close>; a sequence of statements is a
  \<^verbatim>\<open>do\<close> block, an early \<^verbatim>\<open>return\<close> closes a branch, a
  \<^verbatim>\<open>list_for_each\<close> loop whose body does not change the list it walks is
  \<open>for_each\<close> over the nodes. Rules in \<open>keeps_rule\<close> push an invariant through a program.
\<close>

section \<open>Primitives\<close>

abbreviation return :: "'a \<Rightarrow> 'a daemon" where
  "return \<equiv> State_Monad.return"

definition reads :: "(node \<Rightarrow> 'a) \<Rightarrow> 'a daemon" where
  "reads f = State (\<lambda>s. (f s, s))"

definition modify :: "(node \<Rightarrow> node) \<Rightarrow> unit daemon" where
  "modify f = State (\<lambda>s. ((), f s))"

lemma run_reads [simp]: "run_state (reads f) s = (f s, s)"
  by (simp add: reads_def)

lemma run_modify [simp]: "run_state (modify f) s = ((), f s)"
  by (simp add: modify_def)

text \<open>Undefined behaviour: the mark is set and stays.\<close>

definition crash :: "unit daemon" where
  "crash = modify (\<lambda>s. s\<lparr>fault := True\<rparr>)"

definition demand :: "bool \<Rightarrow> unit daemon" where
  "demand b = (if b then return () else crash)"

lemma run_crash [simp]: "run_state crash s = ((), s\<lparr>fault := True\<rparr>)"
  by (simp add: crash_def)

lemma run_demand [simp]: "run_state (demand b) s = ((), if b then s else s\<lparr>fault := True\<rparr>)"
  by (simp add: demand_def)

primrec for_each :: "('a \<Rightarrow> unit daemon) \<Rightarrow> 'a list \<Rightarrow> unit daemon" where
  "for_each f [] = return ()"
| "for_each f (x # xs) = do { f x; for_each f xs }"

primrec fold_each :: "('a \<Rightarrow> 'b \<Rightarrow> 'b daemon) \<Rightarrow> 'a list \<Rightarrow> 'b \<Rightarrow> 'b daemon" where
  "fold_each f [] b = return b"
| "fold_each f (x # xs) b = do { b' \<leftarrow> f x b; fold_each f xs b' }"

text \<open>\<open>only_if\<close> is an \<^verbatim>\<open>if\<close> without an \<^verbatim>\<open>else\<close>.\<close>

definition only_if :: "bool \<Rightarrow> unit daemon \<Rightarrow> unit daemon" where
  "only_if b m = (if b then m else return ())"

lemma run_only_if [simp]: "run_state (only_if b m) s = (if b then run_state m s else ((), s))"
  by (simp add: only_if_def)

section \<open>System calls and the heap\<close>

definition gettimeofday :: "timeval daemon" where
  "gettimeofday = State (\<lambda>s. (env_time s (tick s), s\<lparr>tick := Suc (tick s)\<rparr>))"

definition syscall :: "int daemon" where
  "syscall = State (\<lambda>s. (env_ret s (tick s), s\<lparr>tick := Suc (tick s)\<rparr>))"

lemma run_gettimeofday [simp]:
  "run_state gettimeofday s = (env_time s (tick s), s\<lparr>tick := Suc (tick s)\<rparr>)"
  by (simp add: gettimeofday_def)

lemma run_syscall [simp]:
  "run_state syscall s = (env_ret s (tick s), s\<lparr>tick := Suc (tick s)\<rparr>)"
  by (simp add: syscall_def)

text \<open>\<^verbatim>\<open>malloc\<close> returns an address that was never handed out before.\<close>

definition malloc :: "ptr daemon" where
  "malloc = State (\<lambda>s. (brk s, s\<lparr>brk := Suc (brk s)\<rparr>))"

lemma run_malloc [simp]: "run_state malloc s = (brk s, s\<lparr>brk := Suc (brk s)\<rparr>)"
  by (simp add: malloc_def)

definition zero_time :: timeval where
  "zero_time = \<lparr>tv_sec = 0, tv_usec = 0\<rparr>"

definition blank_rt :: rt_entry where
  "blank_rt = \<lparr>dest_addr = 0, dest_seqno = 0, next_hop = 0, hopcnt = 0, rt_flags = 0, rt_state = 0,
     last_hello_time = zero_time, hello_cnt = 0, rt_hash = 0, nprecursor = 0, precursors = []\<rparr>"

definition blank_seek :: seek_entry where
  "blank_seek = \<lparr>sk_dest_addr = 0, sk_dest_seqno = 0, sk_flags = 0, rreq_cnt = 0, sk_ttl = 0\<rparr>"

text \<open>The static initial values; the environment of the run is a parameter.\<close>

definition globals :: "(nat \<Rightarrow> timeval) \<Rightarrow> (nat \<Rightarrow> int) \<Rightarrow> int \<Rightarrow> node" where
  "globals time ret pid = \<lparr>env_time = time, env_ret = ret, tick = 0, fault = False, brk = 0,
     host_seqno = 0, host_rreq_id = 0, last_forward_time = zero_time, last_broadcast_time = zero_time,
     dev_enabled = False, dev_ifindex = 0, dev_ipaddr = 0, dev_broadcast = 0,
     wait_on_reboot = True, ratelimit = True, expanding_ring_search = True, receive_n_hellos = 0,
     local_repair = False, active_route_timeout = 3000, ttl_start = 2,
     delete_period = 5 * max 3000 (ALLOWED_HELLO_LOSS * HELLO_INTERVAL), rt_log_interval = 10000,
     num_entries = 0, num_active = 0, tbl = (\<lambda>_. []), rts = Map.empty,
     timers = (\<lambda>_. \<lparr>t_used = False, t_timeout = zero_time, t_handler = None, t_data = None\<rparr>),
     tq = [], exptq = [], sl = [], seeks = Map.empty, rreq_records = [], recs = Map.empty,
     rreq_blacklists = [], bls = Map.empty,
     send_buf = replicate BUF_SIZE 0, recv_buf = replicate BUF_SIZE 0,
     num_rreq = 0, num_rerr = 0, rreq_ratelimit = replicate RREQ_RATELIMIT zero_time,
     rerr_ratelimit = replicate RERR_RATELIMIT zero_time, sent = [],
     nl_pid = pid, aodvnl_seqno = 0, rtnl_seqno = 0, nl_out = []\<rparr>"

text \<open>The state the witnesses start from: the clock stands still and every system call succeeds.\<close>

definition node0 :: node where
  "node0 = globals (\<lambda>_. zero_time) (\<lambda>_. 0) 1"

definition rt_at :: "ptr \<Rightarrow> rt_entry daemon" where
  "rt_at p = State (\<lambda>s. case rts s p of Some e \<Rightarrow> (e, s) | None \<Rightarrow> (blank_rt, s\<lparr>fault := True\<rparr>))"

definition rt_upd :: "ptr \<Rightarrow> (rt_entry \<Rightarrow> rt_entry) \<Rightarrow> unit daemon" where
  "rt_upd p f = modify (\<lambda>s. case rts s p of
     Some e \<Rightarrow> s\<lparr>rts := (rts s)(p \<mapsto> f e)\<rparr> | None \<Rightarrow> s\<lparr>fault := True\<rparr>)"

definition seek_at :: "ptr \<Rightarrow> seek_entry daemon" where
  "seek_at p = State (\<lambda>s. case seeks s p of Some e \<Rightarrow> (e, s) | None \<Rightarrow> (blank_seek, s\<lparr>fault := True\<rparr>))"

definition seek_upd :: "ptr \<Rightarrow> (seek_entry \<Rightarrow> seek_entry) \<Rightarrow> unit daemon" where
  "seek_upd p f = modify (\<lambda>s. case seeks s p of
     Some e \<Rightarrow> s\<lparr>seeks := (seeks s)(p \<mapsto> f e)\<rparr> | None \<Rightarrow> s\<lparr>fault := True\<rparr>)"

lemma run_rt_at [simp]: "rts s p = Some e \<Longrightarrow> run_state (rt_at p) s = (e, s)"
  by (simp add: rt_at_def)

lemma run_rt_upd [simp]: "rts s p = Some e \<Longrightarrow> run_state (rt_upd p f) s = ((), s\<lparr>rts := (rts s)(p \<mapsto> f e)\<rparr>)"
  by (simp add: rt_upd_def)

lemma run_seek_at [simp]: "seeks s p = Some e \<Longrightarrow> run_state (seek_at p) s = (e, s)"
  by (simp add: seek_at_def)

lemma run_seek_upd [simp]:
  "seeks s p = Some e \<Longrightarrow> run_state (seek_upd p f) s = ((), s\<lparr>seeks := (seeks s)(p \<mapsto> f e)\<rparr>)"
  by (simp add: seek_upd_def)

text \<open>
  A \<^verbatim>\<open>list_for_each\<close> that returns the first element satisfying a test. \<open>h\<close> is
  the heap the elements live in; following a pointer to a freed element is undefined behaviour.
\<close>

fun scan :: "(node \<Rightarrow> ptr \<Rightarrow> 'e option) \<Rightarrow> ('e \<Rightarrow> bool) \<Rightarrow> ptr list \<Rightarrow> ptr option daemon" where
  "scan h test [] = return None"
| "scan h test (p # ps) = do {
     x \<leftarrow> reads (\<lambda>s. h s p);
     case x of
       None \<Rightarrow> do { crash; return None }
     | Some e \<Rightarrow> if test e then return (Some p) else scan h test ps }"

lemma run_scan:
  "set ps \<subseteq> dom (h s) \<Longrightarrow> run_state (scan h test ps) s = (find (\<lambda>p. test (the (h s p))) ps, s)"
  by (induction ps) auto

section \<open>Triples\<close>

definition spec :: "(node \<Rightarrow> bool) \<Rightarrow> 'a daemon \<Rightarrow> ('a \<Rightarrow> node \<Rightarrow> bool) \<Rightarrow> bool" where
  "spec P m Q \<longleftrightarrow> (\<forall>s a s'. P s \<longrightarrow> run_state m s = (a, s') \<longrightarrow> Q a s')"

lemma specI: "(\<And>s a s'. P s \<Longrightarrow> run_state m s = (a, s') \<Longrightarrow> Q a s') \<Longrightarrow> spec P m Q"
  by (simp add: spec_def)

lemma specD: "spec P m Q \<Longrightarrow> P s \<Longrightarrow> run_state m s = (a, s') \<Longrightarrow> Q a s'"
  by (simp add: spec_def)

lemma spec_snd: "spec P m (\<lambda>_. Q) \<Longrightarrow> P s \<Longrightarrow> Q (snd (run_state m s))"
  by (cases "run_state m s") (simp add: spec_def)

lemma spec_weaken: "spec P m Q \<Longrightarrow> (\<And>s. P' s \<Longrightarrow> P s) \<Longrightarrow> (\<And>a s. Q a s \<Longrightarrow> Q' a s) \<Longrightarrow> spec P' m Q'"
  by (fastforce simp: spec_def)

lemma spec_pre: "spec P m Q \<Longrightarrow> (\<And>s. P' s \<Longrightarrow> P s) \<Longrightarrow> spec P' m Q"
  unfolding spec_def by blast

lemma spec_post: "spec P m Q \<Longrightarrow> (\<And>a s. Q a s \<Longrightarrow> Q' a s) \<Longrightarrow> spec P m Q'"
  unfolding spec_def by blast

lemma spec_bind:
  "spec P m R \<Longrightarrow> (\<And>a. spec (R a) (f a) Q) \<Longrightarrow> spec P (State_Monad.bind m f) Q"
  unfolding spec_def by (fastforce split: prod.splits)

lemma spec_bind_pair:
  assumes "spec P m (\<lambda>(x, y). R x y)" and "\<And>x y. spec (R x y) (f (x, y)) Q"
  shows "spec P (State_Monad.bind m f) Q"
  by (rule spec_bind [OF assms(1)]) (use assms(2) in auto)

text \<open>The form for invariants: the first statement keeps the precondition.\<close>

lemma keeps_bind [keeps_rule]:
  "spec P m (\<lambda>_. P) \<Longrightarrow> (\<And>a. spec P (f a) Q) \<Longrightarrow> spec P (State_Monad.bind m f) Q"
  by (rule spec_bind)

lemma spec_return: "(\<And>s. P s \<Longrightarrow> Q x s) \<Longrightarrow> spec P (return x) Q"
  by (simp add: spec_def)

lemma spec_return_keep [keeps_rule]: "spec P (return x) (\<lambda>_. P)"
  by (simp add: spec_def)

lemma spec_return_value: "spec P (return x) (\<lambda>a s. a = x \<and> P s)"
  by (simp add: spec_def)

lemma spec_reads [keeps_rule]: "spec P (reads f) (\<lambda>_. P)"
  by (simp add: spec_def)

lemma spec_reads_value: "spec P (reads f) (\<lambda>a s. a = f s \<and> P s)"
  by (simp add: spec_def)

lemma spec_modify: "(\<And>s. P s \<Longrightarrow> Q () (f s)) \<Longrightarrow> spec P (modify f) Q"
  by (simp add: spec_def)

lemma spec_if [keeps_rule]:
  "(b \<Longrightarrow> spec P m Q) \<Longrightarrow> (\<not> b \<Longrightarrow> spec P n Q) \<Longrightarrow> spec P (if b then m else n) Q"
  by simp

lemma spec_only_if [keeps_rule]: "(b \<Longrightarrow> spec P m (\<lambda>_. P)) \<Longrightarrow> spec P (only_if b m) (\<lambda>_. P)"
  by (simp add: only_if_def spec_return_keep)

lemma spec_let [keeps_rule]: "spec P (f x) Q \<Longrightarrow> spec P (Let x f) Q"
  by simp

lemma spec_case_option [keeps_rule]:
  "(v = None \<Longrightarrow> spec P m Q) \<Longrightarrow> (\<And>x. v = Some x \<Longrightarrow> spec P (f x) Q)
   \<Longrightarrow> spec P (case v of None \<Rightarrow> m | Some x \<Rightarrow> f x) Q"
  by (cases v) auto

lemma spec_case_list [keeps_rule]:
  "(v = [] \<Longrightarrow> spec P m Q) \<Longrightarrow> (\<And>x xs. v = x # xs \<Longrightarrow> spec P (f x xs) Q)
   \<Longrightarrow> spec P (case v of [] \<Rightarrow> m | x # xs \<Rightarrow> f x xs) Q"
  by (cases v) auto

lemma spec_case_prod [keeps_rule]:
  "(\<And>x y. v = (x, y) \<Longrightarrow> spec P (f x y) Q) \<Longrightarrow> spec P (case v of (x, y) \<Rightarrow> f x y) Q"
  by (cases v) auto

text \<open>A branch as the first statement of a sequence: the rest is proved once per branch.\<close>

lemma bind_assoc: "spec P (State_Monad.bind m (\<lambda>x. State_Monad.bind (f x) g)) Q \<Longrightarrow>
  spec P (State_Monad.bind (State_Monad.bind m f) g) Q"
  by simp

lemma bind_return: "spec P (g x) Q \<Longrightarrow> spec P (State_Monad.bind (return x) g) Q"
  by simp

lemma bind_if: "(b \<Longrightarrow> spec P (State_Monad.bind m g) Q) \<Longrightarrow> (\<not> b \<Longrightarrow> spec P (State_Monad.bind m' g) Q) \<Longrightarrow>
  spec P (State_Monad.bind (if b then m else m') g) Q"
  by simp

lemma bind_case_option: "(v = None \<Longrightarrow> spec P (State_Monad.bind m g) Q) \<Longrightarrow>
  (\<And>x. v = Some x \<Longrightarrow> spec P (State_Monad.bind (f x) g) Q) \<Longrightarrow>
  spec P (State_Monad.bind (case v of None \<Rightarrow> m | Some x \<Rightarrow> f x) g) Q"
  by (cases v) auto

text \<open>Branches that are already decided.\<close>

lemma known_case [keeps_first]:
  "spec P m Q \<Longrightarrow> spec P (case None of None \<Rightarrow> m | Some x \<Rightarrow> f x) Q"
  "spec P (f x) Q \<Longrightarrow> spec P (case Some x of None \<Rightarrow> m | Some x \<Rightarrow> f x) Q"
  "spec P (g x y) Q \<Longrightarrow> spec P (case (x, y) of (x, y) \<Rightarrow> g x y) Q"
  by simp_all

lemma bind_known_case [keeps_first]:
  "spec P (State_Monad.bind m h) Q \<Longrightarrow> spec P (State_Monad.bind (case None of None \<Rightarrow> m | Some x \<Rightarrow> f x) h) Q"
  "spec P (State_Monad.bind (f x) h) Q \<Longrightarrow>
   spec P (State_Monad.bind (case Some x of None \<Rightarrow> m | Some x \<Rightarrow> f x) h) Q"
  by simp_all

lemmas split_binds = bind_assoc bind_return bind_if bind_case_option

lemma spec_fact: "(b \<Longrightarrow> spec P m Q) \<Longrightarrow> spec (\<lambda>s. b \<and> P s) m Q"
  unfolding spec_def by blast

lemma spec_for_each [keeps_rule]:
  "(\<And>x. x \<in> set xs \<Longrightarrow> spec P (f x) (\<lambda>_. P)) \<Longrightarrow> spec P (for_each f xs) (\<lambda>_. P)"
proof (induction xs)
  case Nil
  then show ?case by (simp add: spec_return_keep)
next
  case (Cons x xs)
  then show ?case by (auto intro!: spec_bind [where R = "\<lambda>_. P"])
qed

lemma spec_fold_each:
  "(\<And>x b. x \<in> set xs \<Longrightarrow> spec (P b) (f x b) P) \<Longrightarrow> spec (P b) (fold_each f xs b) P"
proof (induction xs arbitrary: b)
  case Nil
  then show ?case by (simp add: spec_def)
next
  case (Cons x xs)
  then show ?case by (auto intro!: spec_bind [where R = P])
qed

lemma spec_conj: "spec P m Q \<Longrightarrow> spec P' m Q' \<Longrightarrow> spec (\<lambda>s. P s \<and> P' s) m (\<lambda>a s. Q a s \<and> Q' a s)"
  unfolding spec_def by blast

section \<open>Frames\<close>

text \<open>\<open>frame f m\<close>: running \<open>m\<close> leaves the part \<open>f\<close> of the state as it is.\<close>

definition frame :: "(node \<Rightarrow> 'b) \<Rightarrow> 'a daemon \<Rightarrow> bool" where
  "frame f m \<longleftrightarrow> (\<forall>s. f (snd (run_state m s)) = f s)"

lemma frameD: "frame f m \<Longrightarrow> f (snd (run_state m s)) = f s"
  by (simp add: frame_def)

lemma frame_bind [frame_rule]:
  "frame f m \<Longrightarrow> (\<And>a. frame f (g a)) \<Longrightarrow> frame f (State_Monad.bind m g)"
  unfolding frame_def by (simp add: case_prod_beta)

lemma frame_return [frame_rule]: "frame f (return x)"
  by (simp add: frame_def)

lemma frame_reads [frame_rule]: "frame f (reads g)"
  by (simp add: frame_def)

lemma frame_modify [frame_rule]: "(\<And>s. f (g s) = f s) \<Longrightarrow> frame f (modify g)"
  by (simp add: frame_def)

lemma frame_if [frame_rule]: "frame f m \<Longrightarrow> frame f m' \<Longrightarrow> frame f (if b then m else m')"
  by simp

lemma frame_only_if [frame_rule]: "frame f m \<Longrightarrow> frame f (only_if b m)"
  by (simp add: frame_def)

lemma frame_let [frame_rule]: "(\<And>x. frame f (g x)) \<Longrightarrow> frame f (Let v g)"
  by simp

lemma frame_case_option [frame_rule]:
  "frame f m \<Longrightarrow> (\<And>x. frame f (g x)) \<Longrightarrow> frame f (case v of None \<Rightarrow> m | Some x \<Rightarrow> g x)"
  by (cases v) auto

lemma frame_case_prod [frame_rule]:
  "(\<And>x y. frame f (g x y)) \<Longrightarrow> frame f (case v of (x, y) \<Rightarrow> g x y)"
  by (cases v) auto

lemma frame_for_each [frame_rule]: "(\<And>x. frame f (g x)) \<Longrightarrow> frame f (for_each g xs)"
  by (induction xs) (auto intro: frame_bind frame_return)

lemma frame_steps [frame_rule]:
  "(\<And>s. f (s\<lparr>fault := True\<rparr>) = f s) \<Longrightarrow> frame f (demand b)"
  "(\<And>s n. f (s\<lparr>tick := n\<rparr>) = f s) \<Longrightarrow> frame f gettimeofday"
  "(\<And>s n. f (s\<lparr>tick := n\<rparr>) = f s) \<Longrightarrow> frame f syscall"
  by (auto simp: frame_def)

lemma frame_heap [frame_rule]:
  "(\<And>s. f (s\<lparr>fault := True\<rparr>) = f s) \<Longrightarrow> frame f (rt_at p)"
  "(\<And>s. f (s\<lparr>fault := True\<rparr>) = f s) \<Longrightarrow> (\<And>s h. f (s\<lparr>rts := h\<rparr>) = f s) \<Longrightarrow> frame f (rt_upd p u)"
  by (auto simp: frame_def rt_at_def rt_upd_def split: option.splits)

lemma frame_case_list [frame_rule]:
  "frame f m \<Longrightarrow> (\<And>x xs. frame f (g x xs)) \<Longrightarrow> frame f (case v of [] \<Rightarrow> m | x # xs \<Rightarrow> g x xs)"
  by (cases v) auto

lemma frame_fold_each [frame_rule]: "(\<And>x b. frame f (g x b)) \<Longrightarrow> frame f (fold_each g xs b)"
  by (induction xs arbitrary: b) (auto intro: frame_bind frame_return)

lemma frame_scan [frame_rule]: "(\<And>s. f (s\<lparr>fault := True\<rparr>) = f s) \<Longrightarrow> frame f (scan h test ps)"
proof (induction ps)
  case (Cons p ps)
  then show ?case
    by (auto intro!: frame_bind frame_reads frame_return frame_case_option frame_if frame_modify simp: crash_def)
qed (simp add: frame_return)

lemma frame_spec: "frame f m \<Longrightarrow> spec (\<lambda>s. Q (f s)) m (\<lambda>_ s. Q (f s))"
  unfolding spec_def frame_def by (metis snd_conv)

lemma keeps_frame:
  "spec P m (\<lambda>_. P) \<Longrightarrow> frame f m \<Longrightarrow> spec (\<lambda>s. P s \<and> Q (f s)) m (\<lambda>_ s. P s \<and> Q (f s))"
  unfolding spec_def frame_def by (metis snd_conv)

end
