(* ===== verification/Timer_Queue.thy ===== *)
theory Timer_Queue
  imports Daemon_Monad
begin

text \<open>
  \<^verbatim>\<open>timer_queue.c\<close>: the queue \<open>tq\<close> of armed timers, ordered by timeout, and
  the list \<open>exptq\<close> that \<^verbatim>\<open>timer_timeout\<close> moves expired timers to. The latter is
  a local variable of the code, but \<^verbatim>\<open>timer_remove\<close> reaches it through the links of
  the timers, so it is part of the state. A timer is attached if it is on one of the two
  lists. Inserting or initialising an attached timer would corrupt the lists and is
  undefined behaviour here. The functions take the address of an existing timer, as at every
  call, so their tests for \<^verbatim>\<open>NULL\<close> never succeed.
\<close>

section \<open>Operations\<close>

definition attached :: "node \<Rightarrow> timer_id \<Rightarrow> bool" where
  "attached s t \<longleftrightarrow> t \<in> set (tq s) \<or> t \<in> set (exptq s)"

definition upd_timer :: "timer_id \<Rightarrow> (timer \<Rightarrow> timer) \<Rightarrow> unit daemon" where
  "upd_timer t f = modify (\<lambda>s. s\<lparr>timers := (timers s)(t := f (timers s t))\<rparr>)"

lemma run_upd_timer [simp]:
  "run_state (upd_timer t f) s = ((), s\<lparr>timers := (timers s)(t := f (timers s t))\<rparr>)"
  by (simp add: upd_timer_def)

definition timer_init :: "timer_id \<Rightarrow> handler \<Rightarrow> ptr option \<Rightarrow> int daemon" where
  "timer_init t f d = do {
     a \<leftarrow> reads (\<lambda>s. attached s t);
     demand (\<not> a);
     upd_timer t (\<lambda>_. \<lparr>t_used = False, t_timeout = zero_time, t_handler = Some f, t_data = d\<rparr>);
     return 0 }"

definition timer_remove :: "timer_id \<Rightarrow> int daemon" where
  "timer_remove t = do {
     a \<leftarrow> reads (\<lambda>s. attached s t);
     only_if a (modify (\<lambda>s. s\<lparr>tq := remove1 t (tq s), exptq := remove1 t (exptq s)\<rparr>));
     upd_timer t (\<lambda>x. x\<lparr>t_used := False\<rparr>);
     return (if a then 1 else 0) }"

text \<open>The loop of \<^verbatim>\<open>timer_add\<close>: behind every timer that is not later by a millisecond.\<close>

fun tq_insert :: "(timer_id \<Rightarrow> timer) \<Rightarrow> timer_id \<Rightarrow> timer_id list \<Rightarrow> timer_id list" where
  "tq_insert tm t [] = [t]"
| "tq_insert tm t (cur # q) =
     (if timeval_diff (t_timeout (tm t)) (t_timeout (tm cur)) < 0 then t # cur # q
      else cur # tq_insert tm t q)"

definition timer_add :: "timer_id \<Rightarrow> unit daemon" where
  "timer_add t = do {
     x \<leftarrow> reads (\<lambda>s. timers s t);
     if t_handler x = None then return ()
     else if t_used x then return ()
     else do {
       a \<leftarrow> reads (\<lambda>s. attached s t);
       demand (\<not> a);
       upd_timer t (\<lambda>x. x\<lparr>t_used := True\<rparr>);
       modify (\<lambda>s. s\<lparr>tq := tq_insert (timers s) t (tq s)\<rparr>) } }"

text \<open>
  \<^verbatim>\<open>msec\<close> is a \<^verbatim>\<open>long\<close>: the arithmetic on \<^verbatim>\<open>tv_usec\<close> and
  \<^verbatim>\<open>tv_sec\<close> wraps at 32 bits, and \<^verbatim>\<open>/\<close> and \<^verbatim>\<open>%\<close> truncate.
\<close>

definition add_msec :: "timeval \<Rightarrow> int \<Rightarrow> timeval" where
  "add_msec now msec =
     (let usec = wrap32 (tv_usec now + wrap32 (msec * 1000))
      in \<lparr>tv_sec = wrap32 (tv_sec now + usec sdiv 1000000), tv_usec = usec smod 1000000\<rparr>)"

definition timer_set_timeout :: "timer_id \<Rightarrow> int \<Rightarrow> unit daemon" where
  "timer_set_timeout t msec = do {
     x \<leftarrow> reads (\<lambda>s. timers s t);
     only_if (t_used x) (do { timer_remove t; return () });
     now \<leftarrow> gettimeofday;
     upd_timer t (\<lambda>x. x\<lparr>t_timeout := now\<rparr>);
     if msec < 0 then return ()
     else do {
       upd_timer t (\<lambda>x. x\<lparr>t_timeout := add_msec (t_timeout x) msec\<rparr>);
       timer_add t } }"

section \<open>Expiry\<close>

text \<open>
  \<^verbatim>\<open>timer_timeout\<close> first moves the timers at the front of the queue that are due, then
  calls their handlers. What a handler does is a parameter here; the daemon's handlers are
  put in by \<^verbatim>\<open>Dispatch\<close>. Every turn of the second loop takes a timer off
  \<open>exptq\<close> and no handler puts one on, so the length of \<open>exptq\<close> is enough fuel.
\<close>

definition due :: "timeval \<Rightarrow> timer \<Rightarrow> bool" where
  "due now x \<longleftrightarrow> \<not> timeval_diff (t_timeout x) now > 0"

definition move_expired :: "timeval \<Rightarrow> unit daemon" where
  "move_expired now = modify (\<lambda>s.
     s\<lparr>exptq := takeWhile (\<lambda>t. due now (timers s t)) (tq s),
       tq := dropWhile (\<lambda>t. due now (timers s t)) (tq s)\<rparr>)"

definition expire_timer :: "(handler \<Rightarrow> ptr option \<Rightarrow> unit daemon) \<Rightarrow> timer_id \<Rightarrow> unit daemon" where
  "expire_timer call t = do {
     modify (\<lambda>s. s\<lparr>exptq := remove1 t (exptq s)\<rparr>);
     upd_timer t (\<lambda>x. x\<lparr>t_used := False\<rparr>);
     x \<leftarrow> reads (\<lambda>s. timers s t);
     case t_handler x of None \<Rightarrow> return () | Some f \<Rightarrow> call f (t_data x) }"

fun run_expired :: "(handler \<Rightarrow> ptr option \<Rightarrow> unit daemon) \<Rightarrow> nat \<Rightarrow> unit daemon" where
  "run_expired call 0 = return ()"
| "run_expired call (Suc fuel) = do {
     q \<leftarrow> reads exptq;
     case q of
       [] \<Rightarrow> return ()
     | t # _ \<Rightarrow> do { expire_timer call t; run_expired call fuel } }"

definition timer_timeout :: "(handler \<Rightarrow> ptr option \<Rightarrow> unit daemon) \<Rightarrow> timeval \<Rightarrow> unit daemon" where
  "timer_timeout call now = do {
     move_expired now;
     n \<leftarrow> reads (\<lambda>s. length (exptq s));
     run_expired call n }"

text \<open>The time \<^verbatim>\<open>select\<close> may wait, or \<open>None\<close> for \<^verbatim>\<open>NULL\<close>: no timer is armed.\<close>

definition remaining_time :: "timeval \<Rightarrow> timeval \<Rightarrow> timeval" where
  "remaining_time timeout now =
     (let usec = tv_usec timeout - tv_usec now; sec = tv_sec timeout - tv_sec now
      in if usec < 0 then \<lparr>tv_sec = wrap32 (sec - 1), tv_usec = usec + 1000000\<rparr>
         else \<lparr>tv_sec = wrap32 sec, tv_usec = usec\<rparr>)"

definition timer_age_queue :: "(handler \<Rightarrow> ptr option \<Rightarrow> unit daemon) \<Rightarrow> timeval option daemon" where
  "timer_age_queue call = do {
     now \<leftarrow> gettimeofday;
     q \<leftarrow> reads tq;
     if q = [] then return None
     else do {
       timer_timeout call now;
       q \<leftarrow> reads tq;
       tm \<leftarrow> reads timers;
       case q of
         [] \<Rightarrow> return None
       | t # _ \<Rightarrow> return (Some (remaining_time (t_timeout (tm t)) now)) } }"

text \<open>
  The contract between the queue and its client, the handlers: \<open>I k\<close> is an invariant of the
  client that includes that at most \<open>k\<close> timers are waiting for their handlers, and calling the
  handler of one of them leaves one fewer. Then the second loop of \<^verbatim>\<open>timer_timeout\<close>
  ends, having emptied the list: the fuel is enough.
\<close>

locale expiry =
  fixes call :: "handler \<Rightarrow> ptr option \<Rightarrow> unit daemon" and I :: "nat \<Rightarrow> node \<Rightarrow> bool"
  assumes waiting: "I k s \<Longrightarrow> length (exptq s) \<le> k"
    and moved: "I 0 s \<Longrightarrow> exptq s = [] \<Longrightarrow>
      I (length (takeWhile (\<lambda>t. due now (timers s t)) (tq s))) (snd (run_state (move_expired now) s))"
    and step: "I (Suc k) s \<Longrightarrow> exptq s = t # q \<Longrightarrow> I k (snd (run_state (expire_timer call t) s))"
    and mono: "I k s \<Longrightarrow> length (exptq s) \<le> k' \<Longrightarrow> I k' s"
begin

lemma expired_empty: "I 0 s \<Longrightarrow> exptq s = []"
  using waiting [of 0 s] by simp

lemma run_expired_empties:
  "I k s \<Longrightarrow> length (exptq s) \<le> fuel \<Longrightarrow> I 0 (snd (run_state (run_expired call fuel) s))"
proof (induction fuel arbitrary: k s)
  case 0
  then show ?case using mono [of k s 0] by simp
next
  case (Suc fuel)
  show ?case
  proof (cases "exptq s")
    case Nil
    then show ?thesis using mono [OF Suc.prems(1), of 0] by simp
  next
    case (Cons t q)
    obtain k' where k: "I (Suc k') s" "length (exptq s) = Suc k'"
      using mono [OF Suc.prems(1), of "length (exptq s)"] Cons by (cases "length (exptq s)") auto
    let ?s1 = "snd (run_state (expire_timer call t) s)"
    have "I k' ?s1" by (rule step [OF k(1) Cons])
    moreover have "length (exptq ?s1) \<le> fuel" using waiting [OF \<open>I k' ?s1\<close>] k(2) Suc.prems(2) by simp
    ultimately show ?thesis using Suc.IH [of k' ?s1] Cons by (simp add: case_prod_beta)
  qed
qed

theorem timer_timeout_empties: "I 0 s \<Longrightarrow> I 0 (snd (run_state (timer_timeout call now) s))"
proof -
  assume i: "I 0 s"
  let ?s1 = "snd (run_state (move_expired now) s)"
  have m: "I (length (takeWhile (\<lambda>t. due now (timers s t)) (tq s))) ?s1"
    by (rule moved [OF i expired_empty [OF i]])
  then have "I 0 (snd (run_state (run_expired call (length (exptq ?s1))) ?s1))"
    by (rule run_expired_empties) simp
  then show ?thesis by (simp add: timer_timeout_def case_prod_beta)
qed

end

section \<open>The order of the queue\<close>

text \<open>
  Timeouts are compared in whole milliseconds, truncated, so timers less than a millisecond
  apart count as equal and the queue is not sorted. What it keeps is that no timer is a
  millisecond or more later than one behind it. The comparison itself is only meaningful
  while the timeouts lie within \<open>2 ^ 31\<close> microseconds of each other (\<open>near\<close>).
\<close>

definition near :: "timeval \<Rightarrow> timeval \<Rightarrow> bool" where
  "near t1 t2 \<longleftrightarrow> \<bar>usecs t1 - usecs t2\<bar> < 2 ^ 31"

lemma near_sym: "near t1 t2 \<Longrightarrow> near t2 t1"
  by (simp add: near_def abs_minus_commute)

lemma timeval_diff_neg: "near t1 t2 \<Longrightarrow> timeval_diff t1 t2 < 0 \<longleftrightarrow> usecs t1 + 1000 \<le> usecs t2"
  by (auto simp: timeval_diff_usecs near_def wrap32_id sdiv_thousand_less_zero)

lemma timeval_diff_pos: "near t1 t2 \<Longrightarrow> timeval_diff t1 t2 > 0 \<longleftrightarrow> usecs t2 + 1000 \<le> usecs t1"
  by (auto simp: timeval_diff_usecs near_def wrap32_id sdiv_thousand_pos)

abbreviation due_at :: "(timer_id \<Rightarrow> timer) \<Rightarrow> timer_id \<Rightarrow> int" where
  "due_at tm t \<equiv> usecs (t_timeout (tm t))"

definition tq_ordered :: "(timer_id \<Rightarrow> timer) \<Rightarrow> timer_id list \<Rightarrow> bool" where
  "tq_ordered tm q \<longleftrightarrow> sorted_wrt (\<lambda>a b. due_at tm a < due_at tm b + 1000) q"

definition tq_near :: "(timer_id \<Rightarrow> timer) \<Rightarrow> timer_id list \<Rightarrow> timeval \<Rightarrow> bool" where
  "tq_near tm q now \<longleftrightarrow> (\<forall>t \<in> set q. near (t_timeout (tm t)) now)"

lemma set_tq_insert [simp]: "set (tq_insert tm t q) = insert t (set q)"
  by (induction q) auto

lemma distinct_tq_insert [simp]: "distinct (tq_insert tm t q) \<longleftrightarrow> distinct (t # q)"
  by (induction q) auto

lemma tq_insert_split:
  "\<exists>xs ys. q = xs @ ys \<and> tq_insert tm t q = xs @ t # ys"
proof (induction q)
  case (Cons c q)
  then obtain xs ys where "q = xs @ ys" "tq_insert tm t q = xs @ t # ys" by blast
  then show ?case by (cases "timeval_diff (t_timeout (tm t)) (t_timeout (tm c)) < 0")
      (auto intro: exI [of _ "[]"] exI [of _ "c # xs"])
qed simp

lemma tq_insert_ordered:
  "tq_ordered tm q \<Longrightarrow> (\<And>c. c \<in> set q \<Longrightarrow> near (t_timeout (tm t)) (t_timeout (tm c))) \<Longrightarrow>
   tq_ordered tm (tq_insert tm t q)"
proof (induction q)
  case Nil
  then show ?case by (simp add: tq_ordered_def)
next
  case (Cons c q)
  have c: "near (t_timeout (tm t)) (t_timeout (tm c))" using Cons.prems by simp
  show ?case
  proof (cases "timeval_diff (t_timeout (tm t)) (t_timeout (tm c)) < 0")
    case True
    then have "due_at tm t + 1000 \<le> due_at tm c" using timeval_diff_neg [OF c] by simp
    then show ?thesis using True Cons.prems(1) by (auto simp: tq_ordered_def)
  next
    case False
    then have "due_at tm c < due_at tm t + 1000" using timeval_diff_neg [OF c] by simp
    moreover have "tq_ordered tm (tq_insert tm t q)"
      using Cons by (auto simp: tq_ordered_def)
    ultimately show ?thesis using False Cons.prems(1) by (auto simp: tq_ordered_def)
  qed
qed

text \<open>
  The split that \<^verbatim>\<open>move_expired\<close> makes: whatever it leaves behind is not due yet,
  whatever it takes is due within less than a millisecond.
\<close>

lemma take_due:
  assumes "tq_near tm q now" and "t \<in> set (takeWhile (\<lambda>t. due now (tm t)) q)"
  shows "due_at tm t < usecs now + 1000"
proof -
  have "t \<in> set q" and "due now (tm t)" using set_takeWhileD [OF assms(2)] by auto
  then show ?thesis using assms(1) timeval_diff_pos by (auto simp: tq_near_def due_def)
qed

lemma drop_not_due:
  "tq_ordered tm q \<Longrightarrow> tq_near tm q now \<Longrightarrow> t \<in> set (dropWhile (\<lambda>t. due now (tm t)) q) \<Longrightarrow>
   usecs now < due_at tm t"
proof (induction q)
  case (Cons c q)
  show ?case
  proof (cases "due now (tm c)")
    case True
    then show ?thesis using Cons by (simp add: tq_ordered_def tq_near_def)
  next
    case False
    have "near (t_timeout (tm c)) now" using Cons.prems(2) by (simp add: tq_near_def)
    then have "usecs now + 1000 \<le> due_at tm c"
      using False timeval_diff_pos by (simp add: due_def)
    then show ?thesis using False Cons.prems by (auto simp: tq_ordered_def)
  qed
qed simp

section \<open>Properties\<close>


definition armed :: "timer_id \<Rightarrow> int \<Rightarrow> int \<Rightarrow> node \<Rightarrow> node" where
  "armed t sec usec s = s\<lparr>tq := tq s @ [t], timers := (timers s)(t := \<lparr>t_used = True,
     t_timeout = \<lparr>tv_sec = sec, tv_usec = usec\<rparr>, t_handler = Some Hello_send, t_data = None\<rparr>)\<rparr>"

definition two_armed :: node where
  "two_armed = armed Rt_log_timer 9 500 (armed Hello_send_timer 5 0
     (node0\<lparr>timers := (timers node0)(Rt_timer 7 := \<lparr>t_used = False,
       t_timeout = \<lparr>tv_sec = 6, tv_usec = 0\<rparr>, t_handler = Some Route_expire_timeout, t_data = Some 7\<rparr>)\<rparr>))"


text \<open>
  C24: what \<^verbatim>\<open>timer_timeout\<close> takes off the queue. It splits the queue in two without
  changing the order; every timer it leaves is in the future, so no due timer is missed; every
  timer it takes is due within less than a millisecond.
\<close>

theorem move_expired_splits:
  assumes "tq_ordered (timers s) (tq s)" and "tq_near (timers s) (tq s) now"
  shows "let s' = snd (run_state (move_expired now) s) in
    exptq s' @ tq s' = tq s \<and> timers s' = timers s
    \<and> (\<forall>t \<in> set (tq s'). usecs now < usecs (t_timeout (timers s t)))
    \<and> (\<forall>t \<in> set (exptq s'). usecs (t_timeout (timers s t)) < usecs now + 1000)"
  using drop_not_due [OF assms] take_due [OF assms(2)] by (simp add: move_expired_def Let_def)

theorem move_expired_splits_witness:
  "let s' = snd (run_state (move_expired \<lparr>tv_sec = 7, tv_usec = 0\<rparr>) two_armed) in
    exptq s' @ tq s' = [Hello_send_timer, Rt_log_timer] \<and> timers s' = timers two_armed"
  using move_expired_splits [of two_armed "\<lparr>tv_sec = 7, tv_usec = 0\<rparr>"]
  by (simp add: two_armed_def armed_def node0_def globals_def tq_ordered_def tq_near_def usecs_def
      near_def Let_def)

end
