(* ===== verification/Wellformed.thy ===== *)
theory Wellformed
  imports Timer_Queue
begin

text \<open>
  What the daemon's globals keep true between them, one predicate per component over the
  fields it concerns, so that a step of another component leaves it as it is syntactically.
  \<open>INV L n\<close> is the form the proofs carry through a function: the state is well-formed, what
  the function relies on is so (\<open>L\<close>: the objects it holds pointers to are allocated, and
  \<open>Waiting k\<close>: at most \<open>k\<close> expired timers wait for their handlers), and the routing table has
  at most \<open>n\<close> entries.
\<close>

section \<open>The invariant\<close>

definition all_rts :: "(nat \<Rightarrow> ptr list) \<Rightarrow> ptr list" where
  "all_rts tb = concat (map tb [0..<RT_TABLESIZE])"

definition hash_index :: "u32 \<Rightarrow> nat" where
  "hash_index addr = unat (addr AND RT_TABLEMASK)"

lemma hash_index_less [simp]: "hash_index a < 64"
proof -
  have "a AND 63 \<le> 63" by (rule word_and_le1)
  then show ?thesis by (simp add: hash_index_def word_le_nat_alt)
qed

lemma set_all_rts: "set (all_rts tb) = (\<Union>i<64. set (tb i))"
  by (auto simp: all_rts_def)

definition entry_ok :: "rt_entry \<Rightarrow> bool" where
  "entry_ok e \<longleftrightarrow> rt_hash e = dest_addr e \<and> distinct (precursors e)
     \<and> nprecursor e = of_nat (length (precursors e))"

lemma entry_ok_upd [simp]:
  "entry_ok (e\<lparr>dest_seqno := v\<rparr>) = entry_ok e" "entry_ok (e\<lparr>next_hop := v\<rparr>) = entry_ok e"
  "entry_ok (e\<lparr>hopcnt := h\<rparr>) = entry_ok e" "entry_ok (e\<lparr>rt_flags := h\<rparr>) = entry_ok e"
  "entry_ok (e\<lparr>rt_state := h\<rparr>) = entry_ok e" "entry_ok (e\<lparr>hello_cnt := h\<rparr>) = entry_ok e"
  "entry_ok (e\<lparr>last_hello_time := t\<rparr>) = entry_ok e"
  by (simp_all add: entry_ok_def)

definition wf_table :: "(nat \<Rightarrow> ptr list) \<Rightarrow> (ptr \<Rightarrow> rt_entry option) \<Rightarrow> u32 \<Rightarrow> bool" where
  "wf_table tb rs num \<longleftrightarrow> distinct (all_rts tb) \<and> set (all_rts tb) = dom rs
     \<and> (\<forall>i<64. \<forall>p \<in> set (tb i). \<forall>e. rs p = Some e \<longrightarrow> hash_index (dest_addr e) = i)
     \<and> (\<forall>p q e e'. rs p = Some e \<longrightarrow> rs q = Some e' \<longrightarrow> dest_addr e = dest_addr e' \<longrightarrow> p = q)
     \<and> (\<forall>p e. rs p = Some e \<longrightarrow> entry_ok e)
     \<and> num = of_nat (length (all_rts tb))"

fun live_timer :: "(ptr \<Rightarrow> rt_entry option) \<Rightarrow> (ptr \<Rightarrow> seek_entry option) \<Rightarrow> (ptr \<Rightarrow> rreq_rec option)
    \<Rightarrow> (ptr \<Rightarrow> u32 option) \<Rightarrow> timer_id \<Rightarrow> bool" where
  "live_timer rs sk rc bl (Rt_timer p) \<longleftrightarrow> p \<in> dom rs"
| "live_timer rs sk rc bl (Ack_timer p) \<longleftrightarrow> p \<in> dom rs"
| "live_timer rs sk rc bl (Hello_timer p) \<longleftrightarrow> p \<in> dom rs"
| "live_timer rs sk rc bl (Seek_timer p) \<longleftrightarrow> p \<in> dom sk"
| "live_timer rs sk rc bl (Rec_timer p) \<longleftrightarrow> p \<in> dom rc"
| "live_timer rs sk rc bl (Bl_timer p) \<longleftrightarrow> p \<in> dom bl"
| "live_timer rs sk rc bl _ \<longleftrightarrow> True"

text \<open>
  The handlers a timer may carry. \<^verbatim>\<open>worb_timer\<close> is never initialised by the code,
  so its handler stays \<^verbatim>\<open>NULL\<close>.
\<close>

fun handler_ok :: "timer_id \<Rightarrow> handler option \<Rightarrow> ptr option \<Rightarrow> bool" where
  "handler_ok (Rt_timer p) h d \<longleftrightarrow> d = Some p \<and>
     (h = Some Route_expire_timeout \<or> h = Some Route_delete_timeout \<or> h = Some Local_repair_timeout)"
| "handler_ok (Ack_timer p) h d \<longleftrightarrow> d = Some p \<and> h = Some Rrep_ack_timeout"
| "handler_ok (Hello_timer p) h d \<longleftrightarrow> d = Some p \<and> h = Some Hello_timeout"
| "handler_ok (Seek_timer p) h d \<longleftrightarrow> d = Some p \<and> h = Some Route_discovery_timeout"
| "handler_ok (Rec_timer p) h d \<longleftrightarrow> d = Some p \<and> h = Some Rreq_record_timeout"
| "handler_ok (Bl_timer p) h d \<longleftrightarrow> d = Some p \<and> h = Some Rreq_blacklist_timeout"
| "handler_ok Hello_send_timer h d \<longleftrightarrow> h = None \<or> h = Some Hello_send"
| "handler_ok Worb_timer h d \<longleftrightarrow> h = None"
| "handler_ok Rt_log_timer h d \<longleftrightarrow> h = None \<or> h = Some Print_rt_table"

definition wf_timers :: "timer_id list \<Rightarrow> timer_id list \<Rightarrow> (timer_id \<Rightarrow> timer) \<Rightarrow> (timer_id \<Rightarrow> bool) \<Rightarrow> bool" where
  "wf_timers q eq tm lv \<longleftrightarrow> distinct (q @ eq) \<and> (\<forall>t \<in> set (q @ eq). lv t)
     \<and> (\<forall>t. t_used (tm t) \<longleftrightarrow> t \<in> set q \<or> t \<in> set eq)
     \<and> (\<forall>t. lv t \<longrightarrow> handler_ok t (t_handler (tm t)) (t_data (tm t)))"

text \<open>The three keyed lists: every element allocated, no key twice.\<close>

definition wf_keyed :: "('e \<Rightarrow> 'k) \<Rightarrow> ptr list \<Rightarrow> (ptr \<Rightarrow> 'e option) \<Rightarrow> bool" where
  "wf_keyed key ps h \<longleftrightarrow> distinct ps \<and> set ps = dom h
     \<and> (\<forall>p q e e'. h p = Some e \<longrightarrow> h q = Some e' \<longrightarrow> key e = key e' \<longrightarrow> p = q)"

definition rec_key :: "rreq_rec \<Rightarrow> u32 \<times> u32" where
  "rec_key r = (rec_orig_addr r, rec_rreq_id r)"

definition wf_socket :: "buffer \<Rightarrow> buffer \<Rightarrow> nat \<Rightarrow> timeval list \<Rightarrow> nat \<Rightarrow> timeval list \<Rightarrow> bool" where
  "wf_socket sb rb nq rq ne re \<longleftrightarrow> length sb = BUF_SIZE \<and> length rb = BUF_SIZE
     \<and> nq \<le> RREQ_RATELIMIT \<and> length rq = RREQ_RATELIMIT
     \<and> ne \<le> RERR_RATELIMIT \<and> length re = RERR_RATELIMIT"

text \<open>
  \<^verbatim>\<open>wait_on_reboot\<close> is set initially and only the handler of \<^verbatim>\<open>worb_timer\<close>
  would clear it, so it stays set; and while it is set no RREP is sent.
\<close>

definition wf_silent :: "bool \<Rightarrow> packet list \<Rightarrow> bool" where
  "wf_silent wor pks \<longleftrightarrow> wor \<and> (\<forall>pk \<in> set pks. take 1 (pk_data pk) \<noteq> [AODV_RREP])"

definition wf_brk :: "ptr \<Rightarrow> ptr set \<Rightarrow> bool" where
  "wf_brk b ps \<longleftrightarrow> (\<forall>p \<in> ps. p < b)"

definition live_in :: "node \<Rightarrow> timer_id \<Rightarrow> bool" where
  "live_in s = live_timer (rts s) (seeks s) (recs s) (bls s)"

definition wf :: "node \<Rightarrow> bool" where
  "wf s \<longleftrightarrow> \<not> fault s
     \<and> wf_table (tbl s) (rts s) (num_entries s)
     \<and> wf_timers (tq s) (exptq s) (timers s) (live_timer (rts s) (seeks s) (recs s) (bls s))
     \<and> wf_keyed sk_dest_addr (sl s) (seeks s)
     \<and> wf_keyed rec_key (rreq_records s) (recs s)
     \<and> wf_keyed id (rreq_blacklists s) (bls s)
     \<and> wf_socket (send_buf s) (recv_buf s) (num_rreq s) (rreq_ratelimit s) (num_rerr s) (rerr_ratelimit s)
     \<and> wf_silent (wait_on_reboot s) (sent s)
     \<and> wf_brk (brk s) (dom (rts s) \<union> dom (seeks s) \<union> dom (recs s) \<union> dom (bls s))"

datatype obj = Rt ptr | Seek ptr | Rec ptr | Bl ptr | Waiting nat

definition objs :: "(ptr \<Rightarrow> rt_entry option) \<Rightarrow> (ptr \<Rightarrow> seek_entry option) \<Rightarrow> (ptr \<Rightarrow> rreq_rec option)
    \<Rightarrow> (ptr \<Rightarrow> u32 option) \<Rightarrow> obj set" where
  "objs rs sk rc bl = Rt ` dom rs \<union> Seek ` dom sk \<union> Rec ` dom rc \<union> Bl ` dom bl \<union> range Waiting"

lemma objs_free:
  "objs (rs(p := None)) sk rc bl = objs rs sk rc bl - {Rt p}"
  "objs rs (sk(p := None)) rc bl = objs rs sk rc bl - {Seek p}"
  "objs rs sk (rc(p := None)) bl = objs rs sk rc bl - {Rec p}"
  "objs rs sk rc (bl(p := None)) = objs rs sk rc bl - {Bl p}"
  by (auto simp: objs_def)

definition waiting_ok :: "obj set \<Rightarrow> timer_id list \<Rightarrow> bool" where
  "waiting_ok L eq \<longleftrightarrow> (\<forall>k. Waiting k \<in> L \<longrightarrow> length eq \<le> k)"

lemma waiting_ok_mono: "waiting_ok L eq \<Longrightarrow> L' \<subseteq> L \<Longrightarrow> length eq' \<le> length eq \<Longrightarrow> waiting_ok L' eq'"
  by (auto simp: waiting_ok_def)

lemma waiting_ok_objs [simp]:
  "waiting_ok {} eq" "waiting_ok (insert (Rt p) L) eq = waiting_ok L eq"
  "waiting_ok (insert (Seek p) L) eq = waiting_ok L eq" "waiting_ok (insert (Rec p) L) eq = waiting_ok L eq"
  "waiting_ok (insert (Bl p) L) eq = waiting_ok L eq" "waiting_ok (Rt ` ps \<union> L) eq = waiting_ok L eq"
  "waiting_ok (Rt ` ps) eq"
  "waiting_ok L eq \<Longrightarrow> waiting_ok (L - X) eq"
  by (auto simp: waiting_ok_def)

definition INV :: "obj set \<Rightarrow> nat \<Rightarrow> node \<Rightarrow> bool" where
  "INV L n s \<longleftrightarrow> wf s \<and> L \<subseteq> objs (rts s) (seeks s) (recs s) (bls s) \<and> waiting_ok L (exptq s) \<and> length (all_rts (tbl s)) \<le> n"

fun owned :: "obj set \<Rightarrow> timer_id \<Rightarrow> bool" where
  "owned L (Rt_timer p) \<longleftrightarrow> Rt p \<in> L"
| "owned L (Ack_timer p) \<longleftrightarrow> Rt p \<in> L"
| "owned L (Hello_timer p) \<longleftrightarrow> Rt p \<in> L"
| "owned L (Seek_timer p) \<longleftrightarrow> Seek p \<in> L"
| "owned L (Rec_timer p) \<longleftrightarrow> Rec p \<in> L"
| "owned L (Bl_timer p) \<longleftrightarrow> Bl p \<in> L"
| "owned L _ \<longleftrightarrow> True"

lemma owned_live: "INV L n s \<Longrightarrow> owned L t \<Longrightarrow> live_timer (rts s) (seeks s) (recs s) (bls s) t"
  by (cases t) (auto simp: INV_def objs_def)

lemma INV_mono: "INV L n s \<Longrightarrow> L' \<subseteq> L \<Longrightarrow> n \<le> n' \<Longrightarrow> INV L' n' s"
  by (auto simp: INV_def elim: waiting_ok_mono)

lemma INV_wf: "INV L n s \<Longrightarrow> wf s"
  by (simp add: INV_def)

lemma INV_rt: "INV L n s \<Longrightarrow> Rt p \<in> L \<Longrightarrow> \<exists>e. rts s p = Some e \<and> entry_ok e"
proof -
  assume i: "INV L n s" and p: "Rt p \<in> L"
  then obtain e where e: "rts s p = Some e" by (auto simp: INV_def objs_def)
  then have "entry_ok e" using i unfolding INV_def wf_def wf_table_def by blast
  with e show ?thesis by blast
qed

lemma INV_seek: "INV L n s \<Longrightarrow> Seek p \<in> L \<Longrightarrow> \<exists>e. seeks s p = Some e"
  by (fastforce simp: INV_def objs_def)

section \<open>What the primitives keep\<close>

text \<open>Forgetting the pointers that were taken last; tried where no other rule applies.\<close>

lemma keeps_forget:
  "spec (INV (insert x L) n) m (\<lambda>_. INV (insert x L) n) \<Longrightarrow>
   spec (INV (insert x L) n) m (\<lambda>_. INV L n)"
  "spec (INV (insert y (insert x L)) n) m (\<lambda>_. INV (insert y (insert x L)) n) \<Longrightarrow>
   spec (INV (insert y (insert x L)) n) m (\<lambda>_. INV L n)"
  "spec (INV (insert z (insert y (insert x L))) n) m (\<lambda>_. INV (insert z (insert y (insert x L))) n) \<Longrightarrow>
   spec (INV (insert z (insert y (insert x L))) n) m (\<lambda>_. INV L n)"
  "spec (INV L n) m (\<lambda>_. INV L n) \<Longrightarrow> spec (INV L n) m (\<lambda>_. INV L (Suc n))"
  "spec (INV L n) m (\<lambda>_. INV L n) \<Longrightarrow> spec (INV L n) m (\<lambda>_. INV L (Suc (Suc n)))"
  "spec (INV (insert x L) n) m (\<lambda>_. INV (insert x L) n) \<Longrightarrow>
   spec (INV (insert x L) n) m (\<lambda>_. INV L (Suc n))"
  "spec (INV (insert x L) n) m (\<lambda>_. INV (insert x L) n) \<Longrightarrow>
   spec (INV (insert x L) n) m (\<lambda>_. INV L (Suc (Suc n)))"
  "spec (INV (insert y (insert x L)) n) m (\<lambda>_. INV (insert y (insert x L)) n) \<Longrightarrow>
   spec (INV (insert y (insert x L)) n) m (\<lambda>_. INV L (Suc n))"
  by (erule spec_post; erule INV_mono; auto)+

text \<open>A step that changes none of the fields the invariant speaks of.\<close>

lemma INV_tick [simp]: "INV L n (s\<lparr>tick := x\<rparr>) = INV L n s"
  by (simp add: INV_def wf_def)

lemma INV_outputs [simp]:
  "INV L n (s\<lparr>nl_out := a\<rparr>) = INV L n s" "INV L n (s\<lparr>aodvnl_seqno := i\<rparr>) = INV L n s"
  "INV L n (s\<lparr>rtnl_seqno := i\<rparr>) = INV L n s"
  "INV L n (s\<lparr>last_broadcast_time := t\<rparr>) = INV L n s" "INV L n (s\<lparr>last_forward_time := t\<rparr>) = INV L n s"
  "INV L n (s\<lparr>host_seqno := w\<rparr>) = INV L n s" "INV L n (s\<lparr>host_rreq_id := w\<rparr>) = INV L n s"
  "INV L n (s\<lparr>num_active := w\<rparr>) = INV L n s"
  by (simp_all add: INV_def wf_def)

lemma keeps_gettimeofday [keeps_rule]: "spec (INV L n) gettimeofday (\<lambda>_. INV L n)"
  by (rule specI) (auto simp: gettimeofday_def)

lemma keeps_syscall [keeps_rule]: "spec (INV L n) syscall (\<lambda>_. INV L n)"
  by (rule specI) (auto simp: syscall_def)

lemma keeps_demand [keeps_rule]: "b \<Longrightarrow> spec P (demand b) (\<lambda>_. P)"
  by (rule specI) auto

lemma keeps_rt_at:
  assumes "Rt p \<in> L" shows "spec (INV L n) (rt_at p) (\<lambda>e s. entry_ok e \<and> INV L n s)"
proof (rule specI)
  fix s a s' assume "INV L n s" "run_state (rt_at p) s = (a, s')"
  then show "entry_ok a \<and> INV L n s'" using INV_rt [of L n s p] assms by auto
qed

lemma keeps_bind_rt_at [keeps_first]:
  "Rt p \<in> L \<Longrightarrow> (\<And>e. entry_ok e \<Longrightarrow> spec (INV L n) (f e) Q) \<Longrightarrow>
   spec (INV L n) (State_Monad.bind (rt_at p) f) Q"
  by (rule spec_bind [OF keeps_rt_at]) (auto intro: spec_fact)

lemma keeps_seek_at [keeps_rule]:
  assumes "Seek p \<in> L" shows "spec (INV L n) (seek_at p) (\<lambda>_. INV L n)"
proof (rule specI)
  fix s a s' assume "INV L n s" "run_state (seek_at p) s = (a, s')"
  then show "INV L n s'" using INV_seek [of L n s p] assms by auto
qed

lemma wf_table_upd:
  assumes "wf_table tb rs num" and "rs p = Some e" and "dest_addr e' = dest_addr e" and "entry_ok e'"
  shows "wf_table tb (rs(p \<mapsto> e')) num"
  using assms unfolding wf_table_def by (auto split: if_splits; blast)

lemma live_timer_upd_rt:
  "rs p = Some e \<Longrightarrow> live_timer (rs(p \<mapsto> e')) sk rc bl = live_timer rs sk rc bl"
  by (rule ext, rename_tac t, case_tac t) auto

lemma live_timer_upd_seek:
  "sk p = Some e \<Longrightarrow> live_timer rs (sk(p \<mapsto> e')) rc bl = live_timer rs sk rc bl"
  by (rule ext, rename_tac t, case_tac t) auto

lemma INV_set_rt:
  assumes inv: "INV L n s" and e: "rts s p = Some e" and e': "entry_ok e'" "dest_addr e' = dest_addr e"
  shows "INV L n (s\<lparr>rts := (rts s)(p \<mapsto> e')\<rparr>)"
proof -
  have d: "dom ((rts s)(p \<mapsto> e')) = dom (rts s)" using e by auto
  show ?thesis using inv e e' d unfolding INV_def wf_def objs_def
    by (auto simp: live_timer_upd_rt wf_table_upd simp del: fun_upd_apply dom_fun_upd)
qed

text \<open>
  Writing a field of a routing table entry: the destination address and the bookkeeping of
  the precursor list must survive.
\<close>

lemma keeps_rt_upd [keeps_rule]:
  assumes p: "Rt p \<in> L"
    and f: "\<And>e. entry_ok e \<Longrightarrow> entry_ok (f e) \<and> dest_addr (f e) = dest_addr e"
  shows "spec (INV L n) (rt_upd p f) (\<lambda>_. INV L n)"
proof (rule specI)
  fix s a s' assume inv: "INV L n s" and r: "run_state (rt_upd p f) s = (a, s')"
  obtain e where e: "rts s p = Some e" "entry_ok e" using INV_rt [OF inv p] by blast
  then have s': "s' = s\<lparr>rts := (rts s)(p \<mapsto> f e)\<rparr>" using r by simp
  show "INV L n s'" unfolding s' using f [OF e(2)] by (intro INV_set_rt [OF inv e(1)]) auto
qed

lemma keeps_seek_upd [keeps_rule]:
  assumes p: "Seek p \<in> L" and f: "\<And>e. sk_dest_addr (f e) = sk_dest_addr e"
  shows "spec (INV L n) (seek_upd p f) (\<lambda>_. INV L n)"
proof (rule specI)
  fix s a s' assume inv: "INV L n s" and r: "run_state (seek_upd p f) s = (a, s')"
  obtain e where e: "seeks s p = Some e" using INV_seek [OF inv p] by blast
  then have d: "dom ((seeks s)(p \<mapsto> f e)) = dom (seeks s)" by auto
  have k: "wf_keyed sk_dest_addr (sl s) ((seeks s)(p \<mapsto> f e))"
    using inv e f d unfolding INV_def wf_def wf_keyed_def by (auto split: if_splits)
  from e r have s': "s' = s\<lparr>seeks := (seeks s)(p \<mapsto> f e)\<rparr>" by simp
  show "INV L n s'"
    using inv e d k unfolding s' INV_def wf_def objs_def
    by (auto simp: live_timer_upd_seek simp del: fun_upd_apply dom_fun_upd)
qed

section \<open>What the timer operations keep\<close>

lemma INV_timersI:
  assumes "INV L n s" and "wf_timers q eq tm (live_timer (rts s) (seeks s) (recs s) (bls s))"
    and "length eq \<le> length (exptq s)"
  shows "INV L n (s\<lparr>tq := q, exptq := eq, timers := tm\<rparr>)"
  using assms by (auto simp: INV_def wf_def elim: waiting_ok_mono)

lemma INV_timers: "INV L n s \<Longrightarrow> wf_timers (tq s) (exptq s) (timers s) (live_timer (rts s) (seeks s) (recs s) (bls s))"
  by (simp add: INV_def wf_def)

lemma wf_timers_handler:
  "wf_timers q eq tm lv \<Longrightarrow> t_used x = t_used (tm t) \<Longrightarrow> (lv t \<Longrightarrow> handler_ok t (t_handler x) (t_data x)) \<Longrightarrow>
   wf_timers q eq (tm(t := x)) lv"
  by (simp add: wf_timers_def)

lemma wf_timers_remove:
  "wf_timers q eq tm lv \<Longrightarrow>
   wf_timers (remove1 t q) (remove1 t eq) (tm(t := (tm t)\<lparr>t_used := False\<rparr>)) lv"
  unfolding wf_timers_def by (auto dest: in_set_remove1 [THEN iffD1] notin_set_remove1)

lemma wf_timers_insert:
  "wf_timers q eq tm lv \<Longrightarrow> lv t \<Longrightarrow> \<not> t_used (tm t) \<Longrightarrow>
   wf_timers (tq_insert tm' t q) eq (tm(t := (tm t)\<lparr>t_used := True\<rparr>)) lv"
  unfolding wf_timers_def by auto

lemma keeps_timer_remove [keeps_rule]: "spec (INV L n) (timer_remove t) (\<lambda>_. INV L n)"
proof (rule specI)
  fix s a s' assume inv: "INV L n s" and r: "run_state (timer_remove t) s = (a, s')"
  have s': "s' = s\<lparr>tq := remove1 t (tq s), exptq := remove1 t (exptq s),
      timers := (timers s)(t := (timers s t)\<lparr>t_used := False\<rparr>)\<rparr>"
    using r by (auto simp: timer_remove_def attached_def remove1_idem split: if_splits)
  show "INV L n s'" unfolding s' using inv by (intro INV_timersI wf_timers_remove INV_timers) (simp_all add: length_remove1)
qed

lemma keeps_upd_timer [keeps_rule]:
  assumes "\<And>x. t_used (f x) = t_used x"
    and "\<And>x. handler_ok t (t_handler x) (t_data x) \<Longrightarrow> handler_ok t (t_handler (f x)) (t_data (f x))"
  shows "spec (INV L n) (upd_timer t f) (\<lambda>_. INV L n)"
proof (rule specI)
  fix s a s' assume inv: "INV L n s" and r: "run_state (upd_timer t f) s = (a, s')"
  have "wf_timers (tq s) (exptq s) ((timers s)(t := f (timers s t)))
      (live_timer (rts s) (seeks s) (recs s) (bls s))"
    using INV_timers [OF inv] by (rule wf_timers_handler) (use assms INV_timers [OF inv] in \<open>auto simp: wf_timers_def\<close>)
  with inv r show "INV L n s'" by (auto simp: INV_def wf_def)
qed

lemma keeps_timer_add [keeps_rule]:
  assumes t: "owned L t" shows "spec (INV L n) (timer_add t) (\<lambda>_. INV L n)"
proof (rule specI)
  fix s a s' assume inv: "INV L n s" and r: "run_state (timer_add t) s = (a, s')"
  note w = INV_timers [OF inv]
  show "INV L n s'"
  proof (cases "t_handler (timers s t) = None \<or> t_used (timers s t)")
    case True
    then show ?thesis using r inv by (auto simp: timer_add_def split: if_splits)
  next
    case False
    then have na: "\<not> attached s t" using w by (auto simp: attached_def wf_timers_def)
    let ?tm = "(timers s)(t := (timers s t)\<lparr>t_used := True\<rparr>)"
    have s': "s' = s\<lparr>tq := tq_insert ?tm t (tq s), exptq := exptq s, timers := ?tm\<rparr>"
      using r na False by (auto simp: timer_add_def)
    show ?thesis unfolding s' using inv False t w
      by (intro INV_timersI wf_timers_insert) (auto dest: owned_live)
  qed
qed

lemma keeps_timer_set_timeout [keeps_rule]:
  "owned L t \<Longrightarrow> spec (INV L n) (timer_set_timeout t msec) (\<lambda>_. INV L n)"
  unfolding timer_set_timeout_def
  by (rule keeps_first | rule keeps_rule | simp)+

section \<open>The initial state\<close>

lemma no_owner: "live_timer Map.empty Map.empty Map.empty Map.empty t \<Longrightarrow> handler_ok t None None"
  by (cases t) auto

lemma all_rts_empty [simp]: "all_rts (\<lambda>_. []) = []"
  by (simp add: all_rts_def)

lemma globals_wf: "INV {Waiting 0} 0 (globals time ret pid)"
  by (auto simp: INV_def wf_def globals_def wf_table_def wf_timers_def wf_keyed_def wf_socket_def
      wf_silent_def wf_brk_def waiting_ok_def objs_def no_owner)

section \<open>Properties\<close>

lemma usecs_add_msec:
  assumes "0 \<le> tv_usec now" "tv_usec now < 1000000" "0 \<le> msec" "msec < 2147483 - 1000"
    and "0 \<le> tv_sec now" "tv_sec now < 2 ^ 31 - 2148"
  shows "usecs (add_msec now msec) = usecs now + 1000 * msec" "0 \<le> tv_usec (add_msec now msec)"
    "tv_usec (add_msec now msec) < 1000000"
proof -
  let ?u = "tv_usec now + msec * 1000"
  have u: "wrap32 (tv_usec now + wrap32 (msec * 1000)) = ?u" using assms by (simp add: wrap32_id)
  have d: "?u sdiv 1000000 = ?u div 1000000" "?u smod 1000000 = ?u mod 1000000"
    using assms by (simp_all add: signed_divide_int_def signed_modulo_int_def sgn_if)
  have "?u div 1000000 < 2148" using assms by linarith
  moreover have "0 \<le> ?u div 1000000" using assms by simp
  ultimately have s: "wrap32 (tv_sec now + ?u div 1000000) = tv_sec now + ?u div 1000000"
    using assms by (intro wrap32_id) linarith+
  have "1000000 * (?u div 1000000) + ?u mod 1000000 = ?u" by simp
  then show "usecs (add_msec now msec) = usecs now + 1000 * msec" "0 \<le> tv_usec (add_msec now msec)"
    "tv_usec (add_msec now msec) < 1000000"
    by (simp_all add: add_msec_def Let_def u d s usecs_def)
qed

lemma set_timeout_idle:
  assumes w: "wf_timers (tq s) (exptq s) (timers s) (live_in s)"
  shows "\<exists>s1. run_state (do { x \<leftarrow> reads (\<lambda>s. timers s t); only_if (t_used x) (do { timer_remove t; return () }) }) s = ((), s1)
    \<and> \<not> attached s1 t \<and> timers s1 t = (timers s t)\<lparr>t_used := False\<rparr> \<and> tick s1 = tick s \<and> env_time s1 = env_time s
    \<and> fault s1 = fault s"
proof (cases "t_used (timers s t)")
  case True
  then show ?thesis using w by (auto simp: timer_remove_def attached_def wf_timers_def)
next
  case False
  then have "\<not> attached s t" using w by (auto simp: attached_def wf_timers_def)
  then show ?thesis using False by simp
qed

text \<open>
  C39: \<^verbatim>\<open>timer_set_timeout\<close> on a timer with a handler. For a timeout in milliseconds
  that is not negative the timer is armed, once, for exactly that much later than now, whether
  or not it was armed before; for a negative one it ends up not armed. (The bounds keep
  the 32-bit arithmetic from wrapping.)
\<close>

theorem timer_set_timeout_arms:
  assumes "wf s" and "t_handler (timers s t) \<noteq> None" and "now = env_time s (tick s)"
    and "0 \<le> tv_usec now \<and> tv_usec now < 1000000" and "0 \<le> tv_sec now \<and> tv_sec now < 2 ^ 31 - 2148"
    and "msec < 2147483 - 1000"
  shows "let s' = snd (run_state (timer_set_timeout t msec) s) in fault s' = fault s
    \<and> (if msec < 0 then \<not> attached s' t \<and> \<not> t_used (timers s' t)
       else attached s' t \<and> t_used (timers s' t) \<and> usecs (t_timeout (timers s' t)) = usecs now + 1000 * msec)"
proof -
  have "wf_timers (tq s) (exptq s) (timers s) (live_in s)" using assms(1) by (simp add: wf_def live_in_def)
  then obtain s1 where
    r: "run_state (do { x \<leftarrow> reads (\<lambda>s. timers s t); only_if (t_used x) (do { timer_remove t; return () }) }) s = ((), s1)"
    and s1: "\<not> attached s1 t" "timers s1 t = (timers s t)\<lparr>t_used := False\<rparr>" "tick s1 = tick s"
      "env_time s1 = env_time s" "fault s1 = fault s"
    using set_timeout_idle by blast
  have q: "\<And>tm. t \<in> set (tq_insert tm t (tq s1))" by (simp add: set_tq_insert)
  have "run_state (timer_set_timeout t msec) s =
    run_state (do { x \<leftarrow> reads (\<lambda>s. timers s t); only_if (t_used x) (do { timer_remove t; return () });
      now \<leftarrow> gettimeofday; upd_timer t (\<lambda>x. x\<lparr>t_timeout := now\<rparr>);
      if msec < 0 then return ()
      else do { upd_timer t (\<lambda>x. x\<lparr>t_timeout := add_msec (t_timeout x) msec\<rparr>); timer_add t } }) s"
    by (simp add: timer_set_timeout_def)
  also have "\<dots> = run_state (do { now \<leftarrow> gettimeofday; upd_timer t (\<lambda>x. x\<lparr>t_timeout := now\<rparr>);
      if msec < 0 then return ()
      else do { upd_timer t (\<lambda>x. x\<lparr>t_timeout := add_msec (t_timeout x) msec\<rparr>); timer_add t } }) s1"
    using r by (auto simp: case_prod_beta)
  finally show ?thesis
    using s1 assms usecs_add_msec(1) [of now msec] q by (auto simp: timer_add_def attached_def Let_def)
qed

theorem timer_set_timeout_arms_witness:
  "let s' = snd (run_state (timer_set_timeout Rt_log_timer 10000)
      (node0\<lparr>timers := (timers node0)(Rt_log_timer := \<lparr>t_used = False, t_timeout = zero_time,
        t_handler = Some Print_rt_table, t_data = None\<rparr>)\<rparr>)) in
    attached s' Rt_log_timer \<and> usecs (t_timeout (timers s' Rt_log_timer)) = 10000000"
proof -
  let ?s = "node0\<lparr>timers := (timers node0)(Rt_log_timer := \<lparr>t_used = False, t_timeout = zero_time,
        t_handler = Some Print_rt_table, t_data = None\<rparr>)\<rparr>"
  have "wf ?s" using globals_wf [of "\<lambda>_. zero_time" "\<lambda>_. 0" 1]
    by (auto simp: INV_def wf_def node0_def globals_def wf_timers_def)
  then show ?thesis using timer_set_timeout_arms [of ?s Rt_log_timer zero_time 10000]
    by (simp add: node0_def globals_def zero_time_def usecs_def Let_def)
qed

end
