(* ===== verification/Nl.thy ===== *)
theory Nl
  imports Wellformed
begin

text \<open>
  The sending half of \<^verbatim>\<open>nl.c\<close>: the messages by which the daemon tells the kernel
  module and the kernel's routing table about its routes. \<^verbatim>\<open>sendmsg\<close> is a system
  call whose result comes from the environment; a message it accepts is appended to
  \<open>nl_out\<close>. The receiving half, which calls the protocol, is in \<^verbatim>\<open>Dispatch\<close>.
\<close>

section \<open>Constants\<close>

abbreviation (input) NLM_F_REQUEST :: int where "NLM_F_REQUEST \<equiv> 1"
abbreviation (input) NLM_F_ACK :: int where "NLM_F_ACK \<equiv> 4"
abbreviation (input) NLM_F_CREATE :: int where "NLM_F_CREATE \<equiv> 1024"
abbreviation (input) RTM_NEWROUTE :: int where "RTM_NEWROUTE \<equiv> 24"
abbreviation (input) RTM_DELROUTE :: int where "RTM_DELROUTE \<equiv> 25"
abbreviation (input) RTA_DST :: int where "RTA_DST \<equiv> 1"
abbreviation (input) RTA_OIF :: int where "RTA_OIF \<equiv> 4"
abbreviation (input) RTA_GATEWAY :: int where "RTA_GATEWAY \<equiv> 5"
abbreviation (input) RTA_PRIORITY :: int where "RTA_PRIORITY \<equiv> 6"
abbreviation (input) RT_SCOPE_LINK :: int where "RT_SCOPE_LINK \<equiv> 253"
abbreviation (input) RT_SCOPE_UNIVERSE :: int where "RT_SCOPE_UNIVERSE \<equiv> 0"

text \<open>Sizes of the structs on the 32-bit target, and the macros of the netlink headers.\<close>

abbreviation (input) sizeof_nlmsghdr :: int where "sizeof_nlmsghdr \<equiv> 16"
abbreviation (input) sizeof_kaodv_rt_msg :: int where "sizeof_kaodv_rt_msg \<equiv> 28"
abbreviation (input) sizeof_kaodv_conf_msg :: int where "sizeof_kaodv_conf_msg \<equiv> 4"
abbreviation (input) sizeof_rtmsg :: int where "sizeof_rtmsg \<equiv> 12"

definition NLMSG_ALIGN :: "int \<Rightarrow> int" where
  "NLMSG_ALIGN len = (len + 3) div 4 * 4"

definition NLMSG_LENGTH :: "int \<Rightarrow> int" where
  "NLMSG_LENGTH len = len + NLMSG_ALIGN sizeof_nlmsghdr"

definition RTA_LENGTH :: "int \<Rightarrow> int" where
  "RTA_LENGTH len = 4 + len"

section \<open>Operations\<close>

datatype nlsock = Aodvnl | Rtnl

definition nl_send :: "nlsock \<Rightarrow> nlmsg \<Rightarrow> int daemon" where
  "nl_send nl n = do {
     (case nl of
        Aodvnl \<Rightarrow> modify (\<lambda>s. s\<lparr>aodvnl_seqno := wrap32 (aodvnl_seqno s + 1)\<rparr>)
      | Rtnl \<Rightarrow> modify (\<lambda>s. s\<lparr>rtnl_seqno := wrap32 (rtnl_seqno s + 1)\<rparr>));
     s \<leftarrow> reads id;
     res \<leftarrow> syscall;
     if res < 0 then return (- 1)
     else do {
       modify (\<lambda>s. s\<lparr>nl_out := nl_out s @ [n\<lparr>
         nlmsg_seq := (case nl of Aodvnl \<Rightarrow> aodvnl_seqno s | Rtnl \<Rightarrow> rtnl_seqno s),
         nlmsg_pid := nl_pid s, nlmsg_flags := nlmsg_flags n OR NLM_F_ACK\<rparr>]\<rparr>);
       return 0 } }"

text \<open>
  \<^verbatim>\<open>addattr\<close> writes the attribute at \<^verbatim>\<open>NLMSG_LENGTH(n->nlmsg_len)\<close>. The body
  is changed for a route request only, the one use.
\<close>

definition addattr :: "int \<Rightarrow> u32 \<Rightarrow> int \<times> (int \<times> int \<times> u32) list \<Rightarrow> int \<times> (int \<times> int \<times> u32) list" where
  "addattr ty dat = (\<lambda>(len, attrs).
     (NLMSG_ALIGN len + RTA_LENGTH 4, attrs @ [(NLMSG_LENGTH len, ty, dat)]))"

definition low_zeros :: "u32 \<Rightarrow> nat" where
  "low_zeros w = card {n. n < 32 \<and> (\<forall>m\<le>n. \<not> bit w m)}"

lemma low_zeros_less:
  assumes "w \<noteq> 0"
  shows "low_zeros w < low_zeros (push_bit 1 w :: u32)"
proof -
  let ?A = "{n. n < 32 \<and> (\<forall>m\<le>n. \<not> bit w m)}"
  let ?B = "{n. n < 32 \<and> (\<forall>m\<le>n. \<not> bit (push_bit 1 w :: u32) m)}"
  obtain k where k: "bit w k" using assms bit_word_eqI [of w 0] by auto
  then have k32: "k < 32" using bit_imp_le_length [of w k] by simp
  have "insert 0 (Suc ` ?A) \<subseteq> ?B"
  proof
    fix n assume "n \<in> insert 0 (Suc ` ?A)"
    then show "n \<in> ?B"
    proof
      assume "n = 0"
      moreover have "\<not> bit (push_bit 1 w) 0" by (simp only: bit_push_bit_iff) simp
      ultimately show ?thesis by auto
    next
      assume "n \<in> Suc ` ?A"
      then obtain j where j: "n = Suc j" "j < 32" "\<forall>m\<le>j. \<not> bit w m" by auto
      have "j < k" using j k by (meson not_le_imp_less)
      then have "Suc j < 32" using k32 by simp
      moreover have "\<not> bit (push_bit 1 w) m" if "m \<le> Suc j" for m
        using that j(3) by (simp only: bit_push_bit_iff) auto
      ultimately show ?thesis using j(1) by blast
    qed
  qed
  then have "card (insert 0 (Suc ` ?A)) \<le> card ?B" by (intro card_mono) auto
  then show ?thesis by (simp add: low_zeros_def card_image)
qed

lemma low_zeros_le: "low_zeros w \<le> 32"
proof -
  have "low_zeros w \<le> card {..<32 :: nat}" unfolding low_zeros_def by (intro card_mono) auto
  then show ?thesis by simp
qed

function prefix_length :: "u32 \<Rightarrow> nat" where
  "prefix_length tmp = (if tmp = 0 then 0 else Suc (prefix_length (push_bit 1 tmp)))"
  by pat_completeness auto

termination
proof (relation "measure (\<lambda>w. 32 - low_zeros w)")
  show "(push_bit 1 tmp, tmp) \<in> measure (\<lambda>w. 32 - low_zeros w)" if "tmp \<noteq> 0" for tmp :: u32
    using low_zeros_less [OF that] low_zeros_le [of "push_bit 1 tmp"]
    by (simp only: in_measure)
qed simp

definition nl_kernel_route :: "int \<Rightarrow> int \<Rightarrow> int \<Rightarrow> u32 \<Rightarrow> u32 \<Rightarrow> u32 option \<Rightarrow> u32 \<Rightarrow> int daemon" where
  "nl_kernel_route action flags index dest gw nm metric =
     (let len = NLMSG_LENGTH sizeof_rtmsg;
          dst_len = (case nm of None \<Rightarrow> 4 * 8 | Some m \<Rightarrow> int (prefix_length m));
          (len, attrs) = addattr RTA_DST dest (len, []);
          scope = (if dest \<noteq> gw then RT_SCOPE_UNIVERSE else RT_SCOPE_LINK);
          (len, attrs) = (if dest \<noteq> gw then addattr RTA_GATEWAY gw (len, attrs) else (len, attrs));
          (len, attrs) = (if index > 0 then addattr RTA_OIF (of_int index) (len, attrs) else (len, attrs));
          (len, attrs) = addattr RTA_PRIORITY metric (len, attrs)
      in nl_send Rtnl \<lparr>nlmsg_len = len, nlmsg_type = action, nlmsg_flags = NLM_F_REQUEST OR flags,
           nlmsg_seq = 0, nlmsg_pid = 0,
           nl_body = Rtm_msg \<lparr>rtm_dst_len = dst_len, rtm_scope = scope, rta_list = attrs\<rparr>\<rparr>)"

definition aodv_msg_of :: "int \<Rightarrow> nl_body \<Rightarrow> nlmsg" where
  "aodv_msg_of ty body = \<lparr>nlmsg_len = NLMSG_LENGTH sizeof_kaodv_rt_msg, nlmsg_type = ty,
     nlmsg_flags = NLM_F_REQUEST, nlmsg_seq = 0, nlmsg_pid = 0, nl_body = body\<rparr>"

definition nl_send_add_route_msg :: "u32 \<Rightarrow> u32 \<Rightarrow> u32 \<Rightarrow> u32 \<Rightarrow> u8 \<Rightarrow> int \<Rightarrow> int daemon" where
  "nl_send_add_route_msg dest nh metric lifetime flags ifindex = do {
     let m = blank_rt_msg\<lparr>m_dest := dest, m_nhop := nh, m_time := sint lifetime, m_ifindex := ifindex\<rparr>;
     let m = (if has flags RT_INET_DEST then m\<lparr>m_flags := m_flags m OR KAODV_RT_GW_ENCAP\<rparr> else m);
     let m = (if has flags RT_REPAIR then m\<lparr>m_flags := m_flags m OR KAODV_RT_REPAIR\<rparr> else m);
     r \<leftarrow> nl_send Aodvnl (aodv_msg_of KAODVM_ADDROUTE (Rt_msg m));
     if r < 0 then return (- 1)
     else nl_kernel_route RTM_NEWROUTE NLM_F_CREATE ifindex dest nh None metric }"

definition nl_send_no_route_found_msg :: "u32 \<Rightarrow> int daemon" where
  "nl_send_no_route_found_msg dest =
     nl_send Aodvnl (aodv_msg_of KAODVM_NOROUTE_FOUND (Rt_msg (blank_rt_msg\<lparr>m_dest := dest\<rparr>)))"

definition nl_send_del_route_msg :: "u32 \<Rightarrow> u32 \<Rightarrow> u32 \<Rightarrow> int daemon" where
  "nl_send_del_route_msg dest nh metric = do {
     let m = blank_rt_msg\<lparr>m_dest := dest, m_nhop := nh, m_time := 0, m_flags := 0\<rparr>;
     r \<leftarrow> nl_send Aodvnl (aodv_msg_of KAODVM_DELROUTE (Rt_msg m));
     if r < 0 then return (- 1)
     else nl_kernel_route RTM_DELROUTE 0 (- 1) dest nh None metric }"

text \<open>The length is that of the larger \<^verbatim>\<open>struct kaodv_rt_msg\<close>, as in the code.\<close>

definition nl_send_conf_msg :: "int daemon" where
  "nl_send_conf_msg = do {
     art \<leftarrow> reads active_route_timeout;
     nl_send Aodvnl (aodv_msg_of KAODVM_CONFIG (Conf_msg art)) }"

section \<open>Frame\<close>

lemma keeps_nl_send [keeps_rule]: "spec (INV L n) (nl_send nl m) (\<lambda>_. INV L n)"
  unfolding nl_send_def
  by (rule specI) (auto split: nlsock.splits if_splits)

lemma keeps_nl_kernel_route [keeps_rule]:
  "spec (INV L n) (nl_kernel_route a f i d g nm m) (\<lambda>_. INV L n)"
  unfolding nl_kernel_route_def Let_def by (simp add: keeps_nl_send split: prod.splits)

lemma keeps_nl_add [keeps_rule]:
  "spec (INV L n) (nl_send_add_route_msg d nh m l f i) (\<lambda>_. INV L n)"
  unfolding nl_send_add_route_msg_def by (rule keeps_rule | simp)+

lemma keeps_nl_del [keeps_rule]:
  "spec (INV L n) (nl_send_del_route_msg d nh m) (\<lambda>_. INV L n)"
  unfolding nl_send_del_route_msg_def by (rule keeps_rule | simp)+

lemma keeps_nl_noroute [keeps_rule]:
  "spec (INV L n) (nl_send_no_route_found_msg d) (\<lambda>_. INV L n)"
  unfolding nl_send_no_route_found_msg_def by (rule keeps_rule)

lemma keeps_nl_conf [keeps_rule]: "spec (INV L n) nl_send_conf_msg (\<lambda>_. INV L n)"
  unfolding nl_send_conf_msg_def by (rule keeps_rule)+

section \<open>Properties\<close>

lemma prefix_length_lowest:
  "bit w k \<Longrightarrow> \<forall>j<k. \<not> bit w j \<Longrightarrow> prefix_length w = 32 - k"
proof (induction w arbitrary: k rule: prefix_length.induct)
  case (1 w)
  have k: "k < 32" using bit_imp_le_length [OF "1.prems"(1)] by simp
  have nz: "w \<noteq> 0" using "1.prems"(1) by auto
  have up: "bit (push_bit 1 w) n \<longleftrightarrow> 1 \<le> n \<and> n < 32 \<and> bit w (n - 1)" for n
    by (simp only: bit_push_bit_iff) auto
  have low: "\<forall>j < Suc k. \<not> bit (push_bit 1 w) j"
  proof (intro allI impI)
    fix j assume "j < Suc k"
    then show "\<not> bit (push_bit 1 w) j" using "1.prems"(2) up [of j] by (cases j) simp_all
  qed
  show ?case
  proof (cases "k = 31")
    case True
    have "push_bit 1 w = 0"
    proof (rule bit_word_eqI)
      fix n :: nat assume "n < LENGTH(32)"
      then show "bit (push_bit 1 w) n \<longleftrightarrow> bit (0 :: u32) n" using low True by simp
    qed
    then have "prefix_length (push_bit 1 w) = 0" by (subst prefix_length.simps) simp
    then show ?thesis using nz True by (subst prefix_length.simps) simp
  next
    case False
    then have "bit (push_bit 1 w) (Suc k)" using k "1.prems"(1) up [of "Suc k"] by simp
    then have "prefix_length (push_bit 1 w) = 32 - Suc k" using "1.IH" [OF nz _ low] by blast
    then show ?thesis using nz k by (subst prefix_length.simps) simp
  qed
qed

text \<open>
  \<^verbatim>\<open>prefix_length\<close> ends and counts the bits from the lowest set bit of the word
  to the top. That is the length of a prefix only if the word holds the netmask in host order:
  255.255.255.0 in network order is the word 0x00ffffff here, and its result is 32, not 24.
\<close>

theorem prefix_length_value:
  "prefix_length 0 = 0 \<and> (bit w k \<and> (\<forall>j<k. \<not> bit w j) \<longrightarrow> prefix_length w = 32 - k)"
  using prefix_length_lowest [of w k] by (subst prefix_length.simps) simp

theorem prefix_length_value_witness: "prefix_length 0xffffff00 = 24 \<and> prefix_length 0x00ffffff = 32"
proof -
  have "\<forall>j<8. \<not> bit (0xffffff00 :: u32) j"
    by (simp add: numeral_eq_Suc All_less_Suc)
  then show ?thesis
    using prefix_length_value [of "0xffffff00" 8] prefix_length_value [of "0x00ffffff" 0] by simp
qed

text \<open>
  What \<^verbatim>\<open>nl_send_add_route_msg\<close> tells the kernel when no system call fails: the
  route with its next hop, lifetime and flags to the AODV module, then a request to the routing
  table with destination, gateway (unless the next hop is the destination itself), interface and
  metric. \<^verbatim>\<open>addattr\<close> however writes every attribute 16 bytes behind the end of the
  message so far, where the kernel does not look; for a route with a gateway the last one lies
  outside the message altogether.
\<close>

theorem nl_add_route_sends:
  assumes "\<forall>n. 0 \<le> env_ret s n" and "0 < ifindex"
  shows "let (r, s') = run_state (nl_send_add_route_msg dest nh metric lifetime flags ifindex) s in
    r = 0 \<and> rts s' = rts s \<and> timers s' = timers s \<and> fault s' = fault s \<and>
    (\<exists>m q req. nl_out s' = nl_out s @ [m, q] \<and> nlmsg_type m = KAODVM_ADDROUTE \<and> nlmsg_type q = RTM_NEWROUTE
      \<and> nl_body m = Rt_msg \<lparr>m_type = 0, m_src = 0, m_dest = dest, m_nhop = nh,
          m_flags = (if has flags RT_INET_DEST then KAODV_RT_GW_ENCAP else 0) OR
            (if has flags RT_REPAIR then KAODV_RT_REPAIR else 0), m_ifindex = ifindex, m_time = sint lifetime\<rparr>
      \<and> nl_body q = Rtm_msg req \<and> rtm_dst_len req = 32
      \<and> (if dest = nh
         then nlmsg_len q = 52 \<and> rta_list req = [(44, RTA_DST, dest), (52, RTA_OIF, of_int ifindex), (60, RTA_PRIORITY, metric)]
         else nlmsg_len q = 60 \<and> rta_list req = [(44, RTA_DST, dest), (52, RTA_GATEWAY, nh),
           (60, RTA_OIF, of_int ifindex), (68, RTA_PRIORITY, metric)]))"
proof -
  have env: "\<not> env_ret s n < 0" for n using assms(1) by (simp add: not_less)
  show ?thesis
    using assms(2) env
    by (simp add: nl_send_add_route_msg_def nl_kernel_route_def nl_send_def addattr_def aodv_msg_of_def
        blank_rt_msg_def Let_def NLMSG_ALIGN_def NLMSG_LENGTH_def RTA_LENGTH_def case_prod_beta)
qed

theorem nl_add_route_sends_witness:
  "length (nl_out (snd (run_state (nl_send_add_route_msg 10 20 2 3000 0 1) node0))) = 2"
  using nl_add_route_sends [of node0 1 10 20 2 3000 0] by (auto simp: node0_def globals_def case_prod_beta Let_def)

end
