(* ===== verification/Aodv_Socket.thy ===== *)
theory Aodv_Socket
  imports Nl
begin

text \<open>
  The sending half of \<^verbatim>\<open>aodv_socket.c\<close>: the one message buffer
  \<^verbatim>\<open>send_buf\<close> every outgoing message is built in, the rate limits and the
  datagrams that leave. Every caller passes a message that starts at \<^verbatim>\<open>send_buf\<close>,
  and \<^verbatim>\<open>sendto\<close> sends \<^verbatim>\<open>send_buf\<close> whatever it is given, so the type that
  \<^verbatim>\<open>aodv_socket_send\<close> looks at is the first byte of \<open>send_buf\<close>.
\<close>

section \<open>The rate limit\<close>

text \<open>
  The two cases of the \<^verbatim>\<open>switch\<close> are the same code on \<^verbatim>\<open>num_rreq\<close>,
  \<^verbatim>\<open>rreq_ratelimit\<close> and on \<^verbatim>\<open>num_rerr\<close>, \<^verbatim>\<open>rerr_ratelimit\<close>: the
  result is \<open>None\<close> where the message is dropped, else the new counter and array.
\<close>

definition rate_step :: "nat \<Rightarrow> timeval \<Rightarrow> nat \<Rightarrow> timeval list \<Rightarrow> (nat \<times> timeval list) option" where
  "rate_step limit now num arr =
     (if num = limit then
        (if timeval_diff now (arr ! 0) < 1000 then None
         else Some (num, (take (num - 1) (drop 1 arr) @ drop (num - 1) arr)[num - 1 := now]))
      else Some (Suc num, arr[num := now]))"

section \<open>Sending\<close>

definition aodv_socket_new_msg :: "unit daemon" where
  "aodv_socket_new_msg = modify (\<lambda>s. s\<lparr>send_buf := replicate BUF_SIZE 0\<rparr>)"

text \<open>A store into the message under construction, with its bounds.\<close>

definition put_msg :: "nat \<Rightarrow> u8 list \<Rightarrow> unit daemon" where
  "put_msg i bs = do {
     n \<leftarrow> reads (\<lambda>s. length (send_buf s));
     demand (i + length bs \<le> n);
     modify (\<lambda>s. s\<lparr>send_buf := poke i bs (send_buf s)\<rparr>) }"

definition aodv_socket_queue_msg :: "nat \<Rightarrow> unit daemon" where
  "aodv_socket_queue_msg len = do {
     b \<leftarrow> reads recv_buf;
     demand (len \<le> length b);
     put_msg 0 (take len b) }"

definition rate_check :: "u8 \<Rightarrow> timeval \<Rightarrow> bool daemon" where
  "rate_check ty now = do {
     s \<leftarrow> reads id;
     if ty = AODV_RREQ then
       (case rate_step RREQ_RATELIMIT now (num_rreq s) (rreq_ratelimit s) of
          None \<Rightarrow> return False
        | Some (n, a) \<Rightarrow> do { modify (\<lambda>s. s\<lparr>num_rreq := n, rreq_ratelimit := a\<rparr>); return True })
     else if ty = AODV_RERR then
       (case rate_step RERR_RATELIMIT now (num_rerr s) (rerr_ratelimit s) of
          None \<Rightarrow> return False
        | Some (n, a) \<Rightarrow> do { modify (\<lambda>s. s\<lparr>num_rerr := n, rerr_ratelimit := a\<rparr>); return True })
     else return True }"

definition aodv_socket_send :: "u32 \<Rightarrow> nat \<Rightarrow> int \<Rightarrow> unit daemon" where
  "aodv_socket_send dest len ttl = do {
     wor \<leftarrow> reads wait_on_reboot;
     ty \<leftarrow> reads (\<lambda>s. send_buf s ! 0);
     if wor \<and> ty = AODV_RREP then return ()
     else do {
       r \<leftarrow> syscall;
       if r < 0 then return ()
       else do {
         rl \<leftarrow> reads ratelimit;
         pass \<leftarrow> (if rl then do { now \<leftarrow> gettimeofday; rate_check ty now } else return True);
         if \<not> pass then return ()
         else do {
           only_if (dest = AODV_BROADCAST)
             (do { now \<leftarrow> gettimeofday; modify (\<lambda>s. s\<lparr>last_broadcast_time := now\<rparr>) });
           b \<leftarrow> reads send_buf;
           demand (len \<le> length b);
           res \<leftarrow> syscall;
           if res < 0 then return ()
           else modify (\<lambda>s. s\<lparr>sent := sent s @ [\<lparr>pk_dest = dest, pk_ttl = ttl, pk_data = take len b\<rparr>]\<rparr>)
         } } } }"

section \<open>What sending keeps\<close>

lemma INV_buffers: "INV L n s \<Longrightarrow> length (send_buf s) = BUF_SIZE \<and> length (recv_buf s) = BUF_SIZE"
  by (simp add: INV_def wf_def wf_socket_def)

lemma keeps_new_msg [keeps_rule]: "spec (INV L n) aodv_socket_new_msg (\<lambda>_. INV L n)"
  unfolding aodv_socket_new_msg_def
  by (rule spec_modify) (simp add: INV_def wf_def wf_socket_def)

lemma keeps_put_msg [keeps_rule]:
  assumes "i + length bs \<le> BUF_SIZE" shows "spec (INV L n) (put_msg i bs) (\<lambda>_. INV L n)"
proof (rule specI)
  fix s a s' assume inv: "INV L n s" and r: "run_state (put_msg i bs) s = (a, s')"
  have "length (send_buf s) = BUF_SIZE" using INV_buffers [OF inv] by simp
  then show "INV L n s'" using inv r assms by (auto simp: put_msg_def INV_def wf_def wf_socket_def)
qed

lemma keeps_queue_msg [keeps_rule]:
  assumes "len \<le> BUF_SIZE" shows "spec (INV L n) (aodv_socket_queue_msg len) (\<lambda>_. INV L n)"
proof (rule specI)
  fix s a s' assume inv: "INV L n s" and r: "run_state (aodv_socket_queue_msg len) s = (a, s')"
  then show "INV L n s'" using INV_buffers [OF inv] assms
    by (auto simp: aodv_socket_queue_msg_def put_msg_def INV_def wf_def wf_socket_def)
qed

lemma rate_step_length: "rate_step limit now num arr = Some (n, a) \<Longrightarrow> num \<le> length arr \<Longrightarrow> length a = length arr"
  by (auto simp: rate_step_def split: if_splits)

lemma rate_step_bound: "rate_step limit now num arr = Some (n, a) \<Longrightarrow> num \<le> limit \<Longrightarrow> n \<le> limit"
  by (auto simp: rate_step_def split: if_splits)

lemma keeps_rate_check [keeps_rule]: "spec (INV L n) (rate_check ty now) (\<lambda>_. INV L n)"
proof (rule specI)
  fix s a s' assume inv: "INV L n s" and r: "run_state (rate_check ty now) s = (a, s')"
  have upd: "INV L n (s\<lparr>num_rreq := m, rreq_ratelimit := ts\<rparr>)"
    if "rate_step RREQ_RATELIMIT now (num_rreq s) (rreq_ratelimit s) = Some (m, ts)" for m ts
    using inv rate_step_length [OF that] rate_step_bound [OF that]
    by (simp add: INV_def wf_def wf_socket_def)
  have upd': "INV L n (s\<lparr>num_rerr := m, rerr_ratelimit := ts\<rparr>)"
    if "rate_step RERR_RATELIMIT now (num_rerr s) (rerr_ratelimit s) = Some (m, ts)" for m ts
    using inv rate_step_length [OF that] rate_step_bound [OF that]
    by (simp add: INV_def wf_def wf_socket_def)
  show "INV L n s'" using r inv upd upd'
    by (auto simp: rate_check_def split: option.splits if_splits)
qed

lemma keeps_last_broadcast [keeps_rule]:
  "spec (INV L n) (modify (\<lambda>s. s\<lparr>last_broadcast_time := t\<rparr>)) (\<lambda>_. INV L n)"
  by (rule spec_modify) simp

lemma keeps_bind_read_buf [keeps_first]:
  "(\<And>b. length b = BUF_SIZE \<Longrightarrow> spec (INV L n) (f b) Q) \<Longrightarrow>
   spec (INV L n) (State_Monad.bind (reads send_buf) f) Q"
  "(\<And>b. length b = BUF_SIZE \<Longrightarrow> spec (INV L n) (f b) Q) \<Longrightarrow>
   spec (INV L n) (State_Monad.bind (reads recv_buf) f) Q"
  using INV_buffers by (fastforce simp: spec_def)+

lemma frame_rate_check [frame_rule]: "frame send_buf (rate_check ty now)"
  unfolding rate_check_def
  by (auto intro!: frame_rule split: option.splits)

text \<open>The first byte of the message is checked early and the message sent late, unchanged.\<close>

definition not_rrep :: "buffer \<Rightarrow> bool" where
  "not_rrep b \<longleftrightarrow> length b = BUF_SIZE \<and> b ! 0 \<noteq> AODV_RREP"

lemma keeps_not_rrep:
  "spec (INV L n) m (\<lambda>_. INV L n) \<Longrightarrow> frame send_buf m \<Longrightarrow>
   spec (\<lambda>s. INV L n s \<and> not_rrep (send_buf s)) m (\<lambda>_ s. INV L n s \<and> not_rrep (send_buf s))"
  using keeps_frame [of "INV L n" m send_buf not_rrep] .

lemma not_rrep_take: "not_rrep b \<Longrightarrow> take 1 (take len b) \<noteq> [AODV_RREP]"
  by (cases b; cases len) (auto simp: not_rrep_def)

lemma send_not_rrep:
  "len \<le> BUF_SIZE \<Longrightarrow> spec (\<lambda>s. INV L n s \<and> not_rrep (send_buf s)) (do {
     b \<leftarrow> reads send_buf;
     demand (len \<le> length b);
     res \<leftarrow> syscall;
     if res < 0 then return ()
     else modify (\<lambda>s. s\<lparr>sent := sent s @ [\<lparr>pk_dest = dest, pk_ttl = ttl, pk_data = take len b\<rparr>]\<rparr>) })
   (\<lambda>_. INV L n)"
  by (rule specI) (auto simp: INV_def wf_def wf_silent_def not_rrep_take not_rrep_take [simplified]
      split: if_splits, simp_all add: not_rrep_def)

lemma keeps_socket_send [keeps_rule]:
  assumes "len \<le> BUF_SIZE" shows "spec (INV L n) (aodv_socket_send dest len ttl) (\<lambda>_. INV L n)"
proof (rule specI)
  fix s a s' assume inv: "INV L n s" and r: "run_state (aodv_socket_send dest len ttl) s = (a, s')"
  show "INV L n s'"
  proof (cases "send_buf s ! 0 = AODV_RREP")
    case True
    then show ?thesis using r inv by (simp add: aodv_socket_send_def INV_def wf_def wf_silent_def)
  next
    case False
    have "spec (\<lambda>s. INV L n s \<and> not_rrep (send_buf s)) (aodv_socket_send dest len ttl) (\<lambda>_. INV L n)"
      unfolding aodv_socket_send_def
      by (rule send_not_rrep [OF assms] | rule keeps_bind | rule spec_if | rule keeps_not_rrep
          | rule spec_return | rule keeps_rule | rule frame_rule | simp)+
    then show ?thesis using specD inv r False INV_buffers [OF inv] by (fastforce simp: not_rrep_def)
  qed
qed

section \<open>The rate limit is a sliding window\<close>

text \<open>
  The contract of a rate limiter of \<open>limit\<close> messages: while fewer have passed it fills an
  array, then it compares with the oldest and shifts. Its clients rely on the consequence
  proved in the locale: of the messages that passed, any two that are \<open>limit\<close> apart are at
  least a second apart.
\<close>

fun rate_run :: "(timeval \<Rightarrow> nat \<Rightarrow> timeval list \<Rightarrow> (nat \<times> timeval list) option) \<Rightarrow> nat \<Rightarrow> timeval list
    \<Rightarrow> timeval list \<Rightarrow> timeval list" where
  "rate_run stp num arr [] = []"
| "rate_run stp num arr (now # ts) =
     (case stp now num arr of
        None \<Rightarrow> rate_run stp num arr ts
      | Some (n, a) \<Rightarrow> now # rate_run stp n a ts)"

locale rate_window =
  fixes limit :: nat
    and stp :: "timeval \<Rightarrow> nat \<Rightarrow> timeval list \<Rightarrow> (nat \<times> timeval list) option"
  assumes limit_pos: "0 < limit"
    and filling: "num < limit \<Longrightarrow> stp now num arr = Some (Suc num, arr[num := now])"
    and full: "length arr = limit \<Longrightarrow> stp now limit arr =
      (if timeval_diff now (arr ! 0) < 1000 then None else Some (limit, tl arr @ [now]))"
begin

text \<open>The window holds the messages that passed last: \<open>past\<close> is everything that has passed.\<close>

definition window :: "timeval list \<Rightarrow> nat \<Rightarrow> timeval list \<Rightarrow> bool" where
  "window past num arr \<longleftrightarrow> length arr = limit \<and>
     (if length past < limit then num = length past \<and> take num arr = past
      else num = limit \<and> arr = drop (length past - limit) past)"

lemma window_step:
  assumes w: "window past num arr" and s: "stp now num arr = Some (n, a)"
  shows "window (past @ [now]) n a"
proof (cases "length past < limit")
  case True
  then have n: "num = length past" "take num arr = past" "length arr = limit"
    using w by (auto simp: window_def)
  then have a: "n = Suc num" "a = arr[num := now]" using filling [of num now arr] s True by auto
  have "take (Suc num) (arr[num := now]) = past @ [now]"
    using n True by (simp add: take_Suc_conv_app_nth)
  then show ?thesis using True n a by (auto simp: window_def)
next
  case False
  then have n: "num = limit" "arr = drop (length past - limit) past" "length arr = limit"
    using w by (auto simp: window_def)
  then have a: "n = limit" "a = tl arr @ [now]"
    using full [of arr now] s by (auto split: if_splits)
  show ?thesis using False n a limit_pos by (simp add: window_def tl_drop drop_Suc Suc_diff_le)
qed

lemma window_gap:
  assumes w: "window past num arr" and s: "stp now num arr = Some (n, a)" and "limit \<le> length past"
  shows "1000 \<le> timeval_diff now (past ! (length past - limit))"
proof -
  have n: "num = limit" "arr = drop (length past - limit) past" "length arr = limit"
    using w assms(3) by (auto simp: window_def)
  then have "\<not> timeval_diff now (arr ! 0) < 1000" using full [of arr now] s by (auto split: if_splits)
  then show ?thesis using n assms(3) limit_pos by simp
qed

lemma spaced_run:
  assumes "window past num arr"
    and "\<forall>i. i + limit < length past \<longrightarrow> 1000 \<le> timeval_diff (past ! (i + limit)) (past ! i)"
    and "i + limit < length (past @ rate_run stp num arr ts)"
  shows "1000 \<le> timeval_diff ((past @ rate_run stp num arr ts) ! (i + limit))
    ((past @ rate_run stp num arr ts) ! i)"
  using assms
proof (induction ts arbitrary: past num arr)
  case Nil
  then show ?case by simp
next
  case (Cons now ts)
  show ?case
  proof (cases "stp now num arr")
    case None
    then show ?thesis using Cons by simp
  next
    case (Some r)
    then obtain m a where r: "stp now num arr = Some (m, a)" by (cases r) auto
    have gap: "\<forall>i. i + limit < length (past @ [now]) \<longrightarrow>
      1000 \<le> timeval_diff ((past @ [now]) ! (i + limit)) ((past @ [now]) ! i)"
    proof (intro allI impI)
      fix i assume i: "i + limit < length (past @ [now])"
      show "1000 \<le> timeval_diff ((past @ [now]) ! (i + limit)) ((past @ [now]) ! i)"
      proof (cases "i + limit < length past")
        case True
        then show ?thesis using Cons.prems(2) by (auto simp: nth_append)
      next
        case False
        then have "i + limit = length past" using i by simp
        then show ?thesis using window_gap [OF Cons.prems(1) r] limit_pos
          by (simp add: nth_append flip: \<open>i + limit = length past\<close>)
      qed
    qed
    show ?thesis
      using Cons.IH [OF window_step [OF Cons.prems(1) r] gap] Cons.prems(3) r by simp
  qed
qed

lemma spaced:
  assumes "length arr = limit" and "i + limit < length (rate_run stp 0 arr ts)"
  shows "1000 \<le> timeval_diff (rate_run stp 0 arr ts ! (i + limit)) (rate_run stp 0 arr ts ! i)"
  using spaced_run [of "[]" 0 arr i ts] assms limit_pos by (simp add: window_def)

end

lemma shift_array:
  assumes "length arr = Suc k"
  shows "(take k (drop 1 arr) @ drop k arr)[k := now] = tl arr @ [now]"
proof -
  have "drop k arr = [arr ! k]" using assms by (simp add: Cons_nth_drop_Suc [symmetric])
  moreover have "length (tl arr) = k" and "take k (drop 1 arr) = tl arr"
    using assms by (simp_all add: drop_Suc)
  ultimately show ?thesis by (simp add: list_update_append)
qed

lemma rate_step_window: "0 < limit \<Longrightarrow> rate_window limit (rate_step limit)"
proof unfold_locales
  fix now :: timeval and arr :: "timeval list"
  assume "0 < limit" "length arr = limit"
  then show "rate_step limit now limit arr =
      (if timeval_diff now (arr ! 0) < 1000 then None else Some (limit, tl arr @ [now]))"
    using shift_array [of arr "limit - 1" now] by (simp add: rate_step_def)
qed (simp_all add: rate_step_def)

interpretation rreq_rate: rate_window RREQ_RATELIMIT "rate_step RREQ_RATELIMIT"
  by (rule rate_step_window) simp

interpretation rerr_rate: rate_window RERR_RATELIMIT "rate_step RERR_RATELIMIT"
  by (rule rate_step_window) simp

section \<open>Properties\<close>



text \<open>
  The rate limit. Of the RREQs that pass it, started with an empty window, any two that are
  ten messages apart are at least a second apart: no more than ten pass in any second. The same
  holds for RERRs, since both go through \<^verbatim>\<open>rate_step\<close> with the limit 10.
\<close>

theorem rate_limit_spaced:
  assumes "length arr = RREQ_RATELIMIT"
    and "i + RREQ_RATELIMIT < length (rate_run (rate_step RREQ_RATELIMIT) 0 arr ts)"
  shows "1000 \<le> timeval_diff (rate_run (rate_step RREQ_RATELIMIT) 0 arr ts ! (i + RREQ_RATELIMIT))
    (rate_run (rate_step RREQ_RATELIMIT) 0 arr ts ! i)"
  by (rule rreq_rate.spaced [OF assms])

text \<open>Twelve messages half a second apart, of which one a second gets through after the first ten.\<close>

definition burst :: "timeval list" where
  "burst = map (\<lambda>k. \<lparr>tv_sec = k div 8, tv_usec = k mod 8 * 125000\<rparr>) [0,1,2,3,4,5,6,7,8,9,10]"

theorem rate_limit_spaced_witness:
  "1000 \<le> timeval_diff (rate_run (rate_step 10) 0 (replicate 10 zero_time) burst ! 10)
    (rate_run (rate_step 10) 0 (replicate 10 zero_time) burst ! 0)"
proof -
  have "rate_run (rate_step 10) 0 (replicate 10 zero_time) burst = burst"
    by (simp add: burst_def rate_step_def timeval_diff_def wrap32_id numeral_eq_Suc)
  then have "0 + RREQ_RATELIMIT < length (rate_run (rate_step RREQ_RATELIMIT) 0 (replicate 10 zero_time) burst)"
    by (simp add: burst_def)
  then show ?thesis using rate_limit_spaced [of "replicate 10 zero_time" 0 burst] by simp
qed

end
