(* ===== verification/Seek_List.thy ===== *)
theory Seek_List
  imports Wellformed
begin

text \<open>
  The three lists keyed by address that the protocol remembers things in:
  \<^verbatim>\<open>seek_list.c\<close> (the route discoveries under way), and of \<^verbatim>\<open>aodv_rreq.c\<close>
  the RREQs seen (\<^verbatim>\<open>rreq_records\<close>) and the blacklisted neighbours. They share a
  contract, stated as the locale \<open>keyed_list\<close>: a well-formed list has each key at most once
  and its \<^verbatim>\<open>check\<close> returns the element with the key, or nothing if there is none.
\<close>

section \<open>The contract\<close>

locale keyed_list =
  fixes ps :: "node \<Rightarrow> ptr list" and h :: "node \<Rightarrow> ptr \<Rightarrow> 'e option"
    and key :: "'e \<Rightarrow> 'k" and check :: "'k \<Rightarrow> ptr option daemon"
  assumes keyed: "wf s \<Longrightarrow> wf_keyed key (ps s) (h s)"
    and check: "check k = do { xs \<leftarrow> reads ps; scan h (\<lambda>e. key e = k) xs }"
begin

lemma run_check:
  "wf s \<Longrightarrow> run_state (check k) s = (find (\<lambda>p. key (the (h s p)) = k) (ps s), s)"
  using keyed [of s] by (simp add: check run_scan wf_keyed_def)

lemma check_Some_iff:
  assumes "wf s"
  shows "fst (run_state (check k) s) = Some p \<longleftrightarrow> (\<exists>e. h s p = Some e \<and> key e = k)"
proof
  assume "fst (run_state (check k) s) = Some p"
  then have "find (\<lambda>p. key (the (h s p)) = k) (ps s) = Some p" using run_check [OF assms] by simp
  then have "p \<in> set (ps s)" "key (the (h s p)) = k" by (auto simp: find_Some_iff)
  then show "\<exists>e. h s p = Some e \<and> key e = k" using keyed [OF assms] by (auto simp: wf_keyed_def)
next
  assume "\<exists>e. h s p = Some e \<and> key e = k"
  then obtain e where e: "h s p = Some e" "key e = k" by blast
  then have p: "p \<in> set (ps s)" using keyed [OF assms] by (auto simp: wf_keyed_def)
  then obtain q where q: "find (\<lambda>p. key (the (h s p)) = k) (ps s) = Some q"
    using e by (cases "find (\<lambda>p. key (the (h s p)) = k) (ps s)") (auto simp: find_None_iff)
  then have "q \<in> set (ps s)" "key (the (h s q)) = k" by (auto simp: find_Some_iff)
  then have "q = p" using e keyed [OF assms] unfolding wf_keyed_def by fastforce
  then show "fst (run_state (check k) s) = Some p" using q run_check [OF assms] by simp
qed

lemma check_None_iff:
  "wf s \<Longrightarrow> fst (run_state (check k) s) = None \<longleftrightarrow> (\<forall>p e. h s p = Some e \<longrightarrow> key e \<noteq> k)"
  using check_Some_iff [of s k] by (metis not_None_eq)

lemma check_state: "wf s \<Longrightarrow> snd (run_state (check k) s) = s"
  by (simp add: run_check)

lemma keeps_check: "spec (INV L n) (check k) (\<lambda>_. INV L n)"
  by (rule specI) (metis INV_wf check_state snd_conv)

lemma bind_check:
  assumes none: "spec (\<lambda>s. INV L n s \<and> (\<forall>p e. h s p = Some e \<longrightarrow> key e \<noteq> k)) (f None) Q"
    and some: "\<And>p. spec (\<lambda>s. INV L n s \<and> p \<in> dom (h s)) (f (Some p)) Q"
  shows "spec (INV L n) (State_Monad.bind (check k) f) Q"
proof (rule specI)
  fix s a s' assume inv: "INV L n s" and r: "run_state (State_Monad.bind (check k) f) s = (a, s')"
  note w = INV_wf [OF inv]
  show "Q a s'"
  proof (cases "fst (run_state (check k) s)")
    case None
    then have "run_state (f None) s = (a, s')" using r run_check [OF w] by simp
    then show ?thesis using specD [OF none] inv check_None_iff [OF w] None by blast
  next
    case (Some p)
    then have "run_state (f (Some p)) s = (a, s')" using r run_check [OF w] by simp
    then show ?thesis using specD [OF some] inv check_Some_iff [OF w] Some by blast
  qed
qed

end

section \<open>The seek list\<close>

definition seek_list_insert :: "u32 \<Rightarrow> u32 \<Rightarrow> int \<Rightarrow> u8 \<Rightarrow> ptr daemon" where
  "seek_list_insert daddr seqno ttl flags = do {
     entry \<leftarrow> malloc;
     modify (\<lambda>s. s\<lparr>seeks := (seeks s)(entry \<mapsto> \<lparr>sk_dest_addr = daddr, sk_dest_seqno = seqno,
       sk_flags = flags, rreq_cnt = 1, sk_ttl = ttl\<rparr>)\<rparr>);
     timer_init (Seek_timer entry) Route_discovery_timeout (Some entry);
     modify (\<lambda>s. s\<lparr>sl := entry # sl s\<rparr>);
     return entry }"

definition seek_list_remove :: "ptr option \<Rightarrow> int daemon" where
  "seek_list_remove e = (case e of
       None \<Rightarrow> return (- 1)
     | Some p \<Rightarrow> do {
         modify (\<lambda>s. s\<lparr>sl := remove1 p (sl s)\<rparr>);
         timer_remove (Seek_timer p);
         modify (\<lambda>s. s\<lparr>seeks := (seeks s)(p := None)\<rparr>);
         return 0 })"

definition seek_list_check :: "u32 \<Rightarrow> ptr option daemon" where
  "seek_list_check daddr = do {
     ps \<leftarrow> reads sl;
     scan seeks (\<lambda>e. sk_dest_addr e = daddr) ps }"

interpretation sk: keyed_list sl seeks sk_dest_addr seek_list_check
  by unfold_locales (auto simp: wf_def seek_list_check_def)

section \<open>RREQ records and the blacklist\<close>

definition rreq_record_check :: "u32 \<Rightarrow> u32 \<Rightarrow> ptr option daemon" where
  "rreq_record_check orig rreq_id = do {
     ps \<leftarrow> reads rreq_records;
     scan recs (\<lambda>e. rec_orig_addr e = orig \<and> rec_rreq_id e = rreq_id) ps }"

definition rreq_record_insert :: "u32 \<Rightarrow> u32 \<Rightarrow> ptr daemon" where
  "rreq_record_insert orig rreq_id = do {
     r \<leftarrow> rreq_record_check orig rreq_id;
     case r of
       Some p \<Rightarrow> return p
     | None \<Rightarrow> do {
         p \<leftarrow> malloc;
         modify (\<lambda>s. s\<lparr>recs := (recs s)(p \<mapsto> \<lparr>rec_orig_addr = orig, rec_rreq_id = rreq_id\<rparr>)\<rparr>);
         timer_init (Rec_timer p) Rreq_record_timeout (Some p);
         modify (\<lambda>s. s\<lparr>rreq_records := p # rreq_records s\<rparr>);
         timer_set_timeout (Rec_timer p) PATH_DISCOVERY_TIME;
         return p } }"

definition rreq_blacklist_check :: "u32 \<Rightarrow> ptr option daemon" where
  "rreq_blacklist_check daddr = do {
     ps \<leftarrow> reads rreq_blacklists;
     scan bls (\<lambda>e. e = daddr) ps }"

definition rreq_blacklist_insert :: "u32 \<Rightarrow> ptr daemon" where
  "rreq_blacklist_insert daddr = do {
     b \<leftarrow> rreq_blacklist_check daddr;
     case b of
       Some p \<Rightarrow> return p
     | None \<Rightarrow> do {
         p \<leftarrow> malloc;
         modify (\<lambda>s. s\<lparr>bls := (bls s)(p \<mapsto> daddr)\<rparr>);
         timer_init (Bl_timer p) Rreq_blacklist_timeout (Some p);
         modify (\<lambda>s. s\<lparr>rreq_blacklists := p # rreq_blacklists s\<rparr>);
         ts \<leftarrow> reads ttl_start;
         timer_set_timeout (Bl_timer p) (BLACKLIST_TIMEOUT ts);
         return p } }"

text \<open>The handlers of the two timers.\<close>

definition rreq_record_timeout :: "ptr \<Rightarrow> unit daemon" where
  "rreq_record_timeout p = do {
     x \<leftarrow> reads (\<lambda>s. recs s p);
     demand (x \<noteq> None);
     modify (\<lambda>s. s\<lparr>rreq_records := remove1 p (rreq_records s)\<rparr>);
     modify (\<lambda>s. s\<lparr>recs := (recs s)(p := None)\<rparr>) }"

definition rreq_blacklist_timeout :: "ptr \<Rightarrow> unit daemon" where
  "rreq_blacklist_timeout p = do {
     x \<leftarrow> reads (\<lambda>s. bls s p);
     demand (x \<noteq> None);
     modify (\<lambda>s. s\<lparr>rreq_blacklists := remove1 p (rreq_blacklists s)\<rparr>);
     modify (\<lambda>s. s\<lparr>bls := (bls s)(p := None)\<rparr>) }"

interpretation rc: keyed_list rreq_records recs rec_key "\<lambda>(orig, rid). rreq_record_check orig rid"
  by unfold_locales (auto simp: wf_def rreq_record_check_def rec_key_def split: prod.splits)

interpretation bk: keyed_list rreq_blacklists bls id rreq_blacklist_check
  by unfold_locales (auto simp: wf_def rreq_blacklist_check_def)

section \<open>What they keep\<close>

lemma wf_keyed_insert:
  assumes w: "wf_keyed key ps h" and p: "p \<notin> dom h"
    and no: "\<forall>q e. h q = Some e \<longrightarrow> key e \<noteq> key x"
  shows "wf_keyed key (p # ps) (h(p \<mapsto> x))"
proof -
  have "q = r" if "(h(p \<mapsto> x)) q = Some e" "(h(p \<mapsto> x)) r = Some e'" "key e = key e'" for q r e e'
  proof -
    have "h a = Some b \<Longrightarrow> key b \<noteq> key x" for a b using no by blast
    moreover have "h a = Some b \<Longrightarrow> h c = Some d \<Longrightarrow> key b = key d \<Longrightarrow> a = c" for a b c d
      using w unfolding wf_keyed_def by blast
    ultimately show ?thesis using that
      by (cases "q = p"; cases "r = p") (simp, metis fun_upd_apply option.sel, metis fun_upd_apply option.sel, simp)
  qed
  moreover have "p \<notin> set ps" "distinct ps" "set ps = dom h" using w p by (auto simp: wf_keyed_def)
  ultimately show ?thesis unfolding wf_keyed_def by (intro conjI) (simp, simp, blast)
qed

lemma wf_keyed_remove: "wf_keyed key ps h \<Longrightarrow> wf_keyed key (remove1 p ps) (h(p := None))"
  unfolding wf_keyed_def by (auto split: if_splits)

lemma wf_timers_new:
  assumes w: "wf_timers q eq tm lv" and lv: "\<And>t. lv' t \<longleftrightarrow> lv t \<or> t \<in> T"
    and T: "\<And>t. t \<in> T \<Longrightarrow> \<not> lv t"
    and old: "\<And>t. t \<notin> T \<Longrightarrow> tm' t = tm t"
    and new: "\<And>t. t \<in> T \<Longrightarrow> \<not> t_used (tm' t) \<and> handler_ok t (t_handler (tm' t)) (t_data (tm' t))"
  shows "wf_timers q eq tm' lv'"
proof -
  have on: "lv t" if "t \<in> set q \<or> t \<in> set eq" for t using w that by (auto simp: wf_timers_def)
  have "t_used (tm' t) \<longleftrightarrow> t \<in> set q \<or> t \<in> set eq" for t
  proof (cases "t \<in> T")
    case True
    then show ?thesis using new T on by blast
  next
    case False
    then show ?thesis using old w by (simp add: wf_timers_def)
  qed
  moreover have "handler_ok t (t_handler (tm' t)) (t_data (tm' t))" if "lv' t" for t
    using that lv new old w unfolding wf_timers_def by metis
  ultimately show ?thesis using w on lv unfolding wf_timers_def by (metis Un_iff set_append)
qed

lemma wf_timers_free:
  assumes w: "wf_timers q eq tm lv" and lv: "\<And>t. lv' t \<longleftrightarrow> lv t \<and> t \<notin> T"
    and T: "\<And>t. t \<in> T \<Longrightarrow> t \<notin> set q \<and> t \<notin> set eq"
  shows "wf_timers q eq tm lv'"
proof -
  have "lv' t" if "t \<in> set (q @ eq)" for t using w lv T that by (auto simp: wf_timers_def)
  then show ?thesis using w lv by (simp add: wf_timers_def)
qed

lemma attached_live: "INV L n s \<Longrightarrow> attached s t \<Longrightarrow> live_timer (rts s) (seeks s) (recs s) (bls s) t"
  using INV_timers [of L n s] by (auto simp: wf_timers_def attached_def)

lemma INV_fresh:
  "INV L n s \<Longrightarrow> brk s \<notin> dom (rts s) \<and> brk s \<notin> dom (seeks s) \<and> brk s \<notin> dom (recs s) \<and> brk s \<notin> dom (bls s)"
  by (fastforce simp: INV_def wf_def wf_brk_def)

lemma wf_brk_Suc: "wf_brk b ps \<Longrightarrow> ps' \<subseteq> insert b ps \<Longrightarrow> wf_brk (Suc b) ps'"
  unfolding wf_brk_def by (force simp: less_Suc_eq)

lemma wf_brk_sub: "wf_brk b ps \<Longrightarrow> ps' \<subseteq> ps \<Longrightarrow> wf_brk b ps'"
  unfolding wf_brk_def by blast

lemma live_new_seek:
  "live_timer rs (sk(p \<mapsto> e)) rc bl t \<longleftrightarrow> live_timer rs sk rc bl t \<or> t \<in> {Seek_timer p}"
  by (cases t) auto

lemma live_new_rec:
  "live_timer rs sk (rc(p \<mapsto> e)) bl t \<longleftrightarrow> live_timer rs sk rc bl t \<or> t \<in> {Rec_timer p}"
  by (cases t) auto

lemma live_new_bl:
  "live_timer rs sk rc (bl(p \<mapsto> e)) t \<longleftrightarrow> live_timer rs sk rc bl t \<or> t \<in> {Bl_timer p}"
  by (cases t) auto

lemma live_free_seek:
  "live_timer rs (sk(p := None)) rc bl t \<longleftrightarrow> live_timer rs sk rc bl t \<and> t \<notin> {Seek_timer p}"
  by (cases t) auto

lemma live_free_rec:
  "live_timer rs sk (rc(p := None)) bl t \<longleftrightarrow> live_timer rs sk rc bl t \<and> t \<notin> {Rec_timer p}"
  by (cases t) auto

lemma live_free_bl:
  "live_timer rs sk rc (bl(p := None)) t \<longleftrightarrow> live_timer rs sk rc bl t \<and> t \<notin> {Bl_timer p}"
  by (cases t) auto

definition fresh_timer :: "handler \<Rightarrow> ptr option \<Rightarrow> timer" where
  "fresh_timer f d = \<lparr>t_used = False, t_timeout = zero_time, t_handler = Some f, t_data = d\<rparr>"

lemma fresh_timer_simps [simp]:
  "t_used (fresh_timer f d) = False" "t_handler (fresh_timer f d) = Some f" "t_data (fresh_timer f d) = d"
  by (simp_all add: fresh_timer_def)

lemma run_timer_init:
  "\<not> attached s t \<Longrightarrow> run_state (timer_init t f d) s = (0, s\<lparr>timers := (timers s)(t := fresh_timer f d)\<rparr>)"
  by (simp add: timer_init_def fresh_timer_def)

lemma INV_add_seek:
  assumes inv: "INV L n s" and no: "\<forall>p e'. seeks s p = Some e' \<longrightarrow> sk_dest_addr e' \<noteq> sk_dest_addr e"
  shows "INV (insert (Seek (brk s)) L) n (s\<lparr>brk := Suc (brk s), seeks := (seeks s)(brk s \<mapsto> e),
    timers := (timers s)(Seek_timer (brk s) := fresh_timer Route_discovery_timeout (Some (brk s))),
    sl := brk s # sl s\<rparr>)"
proof -
  let ?sk = "(seeks s)(brk s \<mapsto> e)"
  have "wf_timers (tq s) (exptq s)
      ((timers s)(Seek_timer (brk s) := fresh_timer Route_discovery_timeout (Some (brk s))))
      (live_timer (rts s) ?sk (recs s) (bls s))"
    using INV_timers [OF inv] live_new_seek INV_fresh [OF inv]
    by (rule_tac wf_timers_new [where T = "{Seek_timer (brk s)}"]) auto
  moreover have "wf_keyed sk_dest_addr (brk s # sl s) ?sk"
    using inv no INV_fresh [OF inv] by (intro wf_keyed_insert) (auto simp: INV_def wf_def)
  ultimately show ?thesis
    using inv unfolding INV_def wf_def objs_def by (auto elim: wf_brk_Suc)
qed

lemma seek_list_insert_keeps:
  "spec (\<lambda>s. INV L n s \<and> (\<forall>p e. seeks s p = Some e \<longrightarrow> sk_dest_addr e \<noteq> d))
     (seek_list_insert d sq ttl fl) (\<lambda>p. INV (insert (Seek p) L) n)"
proof (rule specI, elim conjE)
  fix s a s' assume inv: "INV L n s" and no: "\<forall>p e. seeks s p = Some e \<longrightarrow> sk_dest_addr e \<noteq> d"
    and r: "run_state (seek_list_insert d sq ttl fl) s = (a, s')"
  let ?e = "\<lparr>sk_dest_addr = d, sk_dest_seqno = sq, sk_flags = fl, rreq_cnt = 1, sk_ttl = ttl\<rparr>"
  have "\<not> attached s (Seek_timer (brk s))"
    using attached_live [OF inv, of "Seek_timer (brk s)"] INV_fresh [OF inv] by auto
  then have "s' = s\<lparr>brk := Suc (brk s), seeks := (seeks s)(brk s \<mapsto> ?e),
      timers := (timers s)(Seek_timer (brk s) := fresh_timer Route_discovery_timeout (Some (brk s))),
      sl := brk s # sl s\<rparr>" "a = brk s"
    using r by (auto simp: seek_list_insert_def run_timer_init attached_def)
  then show "INV (insert (Seek a) L) n s'"
    using INV_add_seek [OF inv, of ?e] no by simp
qed

lemma INV_remove_seek:
  assumes "INV L n s" and "\<not> attached s (Seek_timer p)"
  shows "INV (L - {Seek p}) n (s\<lparr>sl := remove1 p (sl s), seeks := (seeks s)(p := None)\<rparr>)"
proof -
  have "wf_timers (tq s) (exptq s) (timers s) (live_timer (rts s) ((seeks s)(p := None)) (recs s) (bls s))"
    using INV_timers [OF assms(1)] live_free_seek assms(2)
    by (rule_tac wf_timers_free [where T = "{Seek_timer p}"]) (auto simp: attached_def)
  moreover have "wf_keyed sk_dest_addr (remove1 p (sl s)) ((seeks s)(p := None))"
    using assms(1) by (intro wf_keyed_remove) (simp add: INV_def wf_def)
  moreover have "L - {Seek p} \<subseteq> objs (rts s) ((seeks s)(p := None)) (recs s) (bls s)"
    using assms(1) unfolding INV_def objs_free by blast
  ultimately show ?thesis
    using assms(1) unfolding INV_def wf_def by (auto elim: wf_brk_sub)
qed

lemma run_timer_remove:
  assumes "INV L n s"
  shows "run_state (timer_remove t) s = (if attached s t then 1 else 0,
    s\<lparr>tq := remove1 t (tq s), exptq := remove1 t (exptq s),
      timers := (timers s)(t := (timers s t)\<lparr>t_used := False\<rparr>)\<rparr>)"
  by (auto simp: timer_remove_def attached_def remove1_idem)

lemma timer_remove_detaches:
  "INV L n s \<Longrightarrow> \<not> attached (snd (run_state (timer_remove t) s)) t"
  using INV_timers [of L n s] by (auto simp: run_timer_remove attached_def wf_timers_def)

lemma seek_list_remove_keeps:
  "spec (INV L n) (seek_list_remove e) (\<lambda>_. INV (L - Seek ` set_option e) n)"
proof (cases e)
  case None
  then show ?thesis by (simp add: seek_list_remove_def spec_def)
next
  case (Some p)
  show ?thesis
  proof (rule specI)
    fix s a s' assume inv: "INV L n s" and r: "run_state (seek_list_remove e) s = (a, s')"
    define s1 where "s1 = snd (run_state (timer_remove (Seek_timer p)) s)"
    have i1: "INV L n s1" unfolding s1_def by (rule spec_snd [OF keeps_timer_remove inv])
    have d: "\<not> attached s1 (Seek_timer p)" unfolding s1_def by (rule timer_remove_detaches [OF inv])
    have "s' = s1\<lparr>sl := remove1 p (sl s1), seeks := (seeks s1)(p := None)\<rparr>"
      using r Some by (auto simp: seek_list_remove_def s1_def run_timer_remove [OF inv]
          timer_remove_def attached_def)
    then show "INV (L - Seek ` set_option e) n s'" using INV_remove_seek [OF i1 d] Some by simp
  qed
qed

lemma INV_add_rec:
  assumes inv: "INV L n s" and no: "\<forall>p e'. recs s p = Some e' \<longrightarrow> rec_key e' \<noteq> rec_key e"
  shows "INV (insert (Rec (brk s)) L) n (s\<lparr>brk := Suc (brk s), recs := (recs s)(brk s \<mapsto> e),
    timers := (timers s)(Rec_timer (brk s) := fresh_timer Rreq_record_timeout (Some (brk s))),
    rreq_records := brk s # rreq_records s\<rparr>)"
proof -
  let ?h = "(recs s)(brk s \<mapsto> e)"
  have "wf_timers (tq s) (exptq s)
      ((timers s)(Rec_timer (brk s) := fresh_timer Rreq_record_timeout (Some (brk s))))
      (live_timer (rts s) (seeks s) ?h (bls s))"
    using INV_timers [OF inv] live_new_rec INV_fresh [OF inv]
    by (rule_tac wf_timers_new [where T = "{Rec_timer (brk s)}"]) auto
  moreover have "wf_keyed rec_key (brk s # rreq_records s) ?h"
    using inv no INV_fresh [OF inv] by (intro wf_keyed_insert) (auto simp: INV_def wf_def)
  ultimately show ?thesis
    using inv unfolding INV_def wf_def objs_def by (auto elim: wf_brk_Suc)
qed

lemma INV_add_bl:
  assumes inv: "INV L n s" and no: "\<forall>p e'. bls s p = Some e' \<longrightarrow> e' \<noteq> e"
  shows "INV (insert (Bl (brk s)) L) n (s\<lparr>brk := Suc (brk s), bls := (bls s)(brk s \<mapsto> e),
    timers := (timers s)(Bl_timer (brk s) := fresh_timer Rreq_blacklist_timeout (Some (brk s))),
    rreq_blacklists := brk s # rreq_blacklists s\<rparr>)"
proof -
  let ?h = "(bls s)(brk s \<mapsto> e)"
  have "wf_timers (tq s) (exptq s)
      ((timers s)(Bl_timer (brk s) := fresh_timer Rreq_blacklist_timeout (Some (brk s))))
      (live_timer (rts s) (seeks s) (recs s) ?h)"
    using INV_timers [OF inv] live_new_bl INV_fresh [OF inv]
    by (rule_tac wf_timers_new [where T = "{Bl_timer (brk s)}"]) auto
  moreover have "wf_keyed id (brk s # rreq_blacklists s) ?h"
    using inv no INV_fresh [OF inv] by (intro wf_keyed_insert) (auto simp: INV_def wf_def)
  ultimately show ?thesis
    using inv unfolding INV_def wf_def objs_def by (auto elim: wf_brk_Suc)
qed

lemma rreq_record_new_keeps:
  "spec (\<lambda>s. INV L n s \<and> (\<forall>p e. recs s p = Some e \<longrightarrow> rec_key e \<noteq> (orig, rid)))
     (do {
       p \<leftarrow> malloc;
       modify (\<lambda>s. s\<lparr>recs := (recs s)(p \<mapsto> \<lparr>rec_orig_addr = orig, rec_rreq_id = rid\<rparr>)\<rparr>);
       timer_init (Rec_timer p) Rreq_record_timeout (Some p);
       modify (\<lambda>s. s\<lparr>rreq_records := p # rreq_records s\<rparr>);
       timer_set_timeout (Rec_timer p) PATH_DISCOVERY_TIME;
       return p }) (\<lambda>_. INV L n)"
proof (rule specI, elim conjE)
  fix s a s' assume inv: "INV L n s" and no: "\<forall>p e. recs s p = Some e \<longrightarrow> rec_key e \<noteq> (orig, rid)"
  let ?e = "\<lparr>rec_orig_addr = orig, rec_rreq_id = rid\<rparr>"
  let ?s = "s\<lparr>brk := Suc (brk s), recs := (recs s)(brk s \<mapsto> ?e),
      timers := (timers s)(Rec_timer (brk s) := fresh_timer Rreq_record_timeout (Some (brk s))),
      rreq_records := brk s # rreq_records s\<rparr>"
  assume r: "run_state (do {
       p \<leftarrow> malloc;
       modify (\<lambda>s. s\<lparr>recs := (recs s)(p \<mapsto> \<lparr>rec_orig_addr = orig, rec_rreq_id = rid\<rparr>)\<rparr>);
       timer_init (Rec_timer p) Rreq_record_timeout (Some p);
       modify (\<lambda>s. s\<lparr>rreq_records := p # rreq_records s\<rparr>);
       timer_set_timeout (Rec_timer p) PATH_DISCOVERY_TIME;
       return p }) s = (a, s')"
  have "\<not> attached s (Rec_timer (brk s))"
    using attached_live [OF inv, of "Rec_timer (brk s)"] INV_fresh [OF inv] by auto
  then have s': "s' = snd (run_state (timer_set_timeout (Rec_timer (brk s)) PATH_DISCOVERY_TIME) ?s)"
    using r by (auto simp: run_timer_init attached_def split: prod.splits)
  have "INV (insert (Rec (brk s)) L) n ?s" using INV_add_rec [OF inv, of ?e] no by (simp add: rec_key_def)
  then have "INV (insert (Rec (brk s)) L) n s'" unfolding s'
    by (rule spec_snd [rotated]) (rule keeps_timer_set_timeout, simp)
  then show "INV L n s'" by (rule INV_mono) auto
qed

lemma keeps_rreq_record_insert [keeps_rule]:
  "spec (INV L n) (rreq_record_insert orig rid) (\<lambda>_. INV L n)"
proof -
  have b: "State_Monad.bind (rreq_record_check orig rid) f
    = State_Monad.bind ((\<lambda>(orig, rid). rreq_record_check orig rid) (orig, rid)) f" for f :: "_ \<Rightarrow> ptr daemon"
    by simp
  show ?thesis unfolding rreq_record_insert_def b
    by (rule rc.bind_check)
      (simp add: rreq_record_new_keeps, simp, rule spec_weaken [OF spec_return_keep], auto)
qed

lemma rreq_blacklist_new_keeps:
  "spec (\<lambda>s. INV L n s \<and> (\<forall>p e. bls s p = Some e \<longrightarrow> id e \<noteq> daddr))
     (do {
       p \<leftarrow> malloc;
       modify (\<lambda>s. s\<lparr>bls := (bls s)(p \<mapsto> daddr)\<rparr>);
       timer_init (Bl_timer p) Rreq_blacklist_timeout (Some p);
       modify (\<lambda>s. s\<lparr>rreq_blacklists := p # rreq_blacklists s\<rparr>);
       ts \<leftarrow> reads ttl_start;
       timer_set_timeout (Bl_timer p) (BLACKLIST_TIMEOUT ts);
       return p }) (\<lambda>_. INV L n)"
proof (rule specI, elim conjE)
  fix s a s' assume inv: "INV L n s" and no: "\<forall>p e. bls s p = Some e \<longrightarrow> id e \<noteq> daddr"
  let ?s = "s\<lparr>brk := Suc (brk s), bls := (bls s)(brk s \<mapsto> daddr),
      timers := (timers s)(Bl_timer (brk s) := fresh_timer Rreq_blacklist_timeout (Some (brk s))),
      rreq_blacklists := brk s # rreq_blacklists s\<rparr>"
  assume r: "run_state (do {
       p \<leftarrow> malloc;
       modify (\<lambda>s. s\<lparr>bls := (bls s)(p \<mapsto> daddr)\<rparr>);
       timer_init (Bl_timer p) Rreq_blacklist_timeout (Some p);
       modify (\<lambda>s. s\<lparr>rreq_blacklists := p # rreq_blacklists s\<rparr>);
       ts \<leftarrow> reads ttl_start;
       timer_set_timeout (Bl_timer p) (BLACKLIST_TIMEOUT ts);
       return p }) s = (a, s')"
  have "\<not> attached s (Bl_timer (brk s))"
    using attached_live [OF inv, of "Bl_timer (brk s)"] INV_fresh [OF inv] by auto
  then have s': "s' = snd (run_state (timer_set_timeout (Bl_timer (brk s)) (BLACKLIST_TIMEOUT (ttl_start s))) ?s)"
    using r by (auto simp: run_timer_init attached_def split: prod.splits)
  have "INV (insert (Bl (brk s)) L) n ?s" using INV_add_bl [OF inv, of daddr] no by simp
  then have "INV (insert (Bl (brk s)) L) n s'" unfolding s'
    by (rule spec_snd [rotated]) (rule keeps_timer_set_timeout, simp)
  then show "INV L n s'" by (rule INV_mono) auto
qed

lemma keeps_rreq_blacklist_insert [keeps_rule]:
  "spec (INV L n) (rreq_blacklist_insert daddr) (\<lambda>_. INV L n)"
  unfolding rreq_blacklist_insert_def
  by (rule bk.bind_check)
    (simp add: rreq_blacklist_new_keeps [simplified], simp, rule spec_weaken [OF spec_return_keep], auto)

text \<open>The expiry handlers are called with their timer off both lists.\<close>

lemma rreq_record_timeout_keeps:
  "spec (\<lambda>s. INV L n s \<and> p \<in> dom (recs s) \<and> \<not> attached s (Rec_timer p)) (rreq_record_timeout p)
     (\<lambda>_. INV (L - {Rec p}) n)"
proof (rule specI, elim conjE)
  fix s a s' assume inv: "INV L n s" and p: "p \<in> dom (recs s)" and na: "\<not> attached s (Rec_timer p)"
    and r: "run_state (rreq_record_timeout p) s = (a, s')"
  have s': "s' = s\<lparr>rreq_records := remove1 p (rreq_records s), recs := (recs s)(p := None)\<rparr>"
    using r p by (auto simp: rreq_record_timeout_def)
  have "wf_timers (tq s) (exptq s) (timers s) (live_timer (rts s) (seeks s) ((recs s)(p := None)) (bls s))"
    using INV_timers [OF inv] live_free_rec na
    by (rule_tac wf_timers_free [where T = "{Rec_timer p}"]) (auto simp: attached_def)
  moreover have "wf_keyed rec_key (remove1 p (rreq_records s)) ((recs s)(p := None))"
    using inv by (intro wf_keyed_remove) (simp add: INV_def wf_def)
  moreover have "L - {Rec p} \<subseteq> objs (rts s) (seeks s) ((recs s)(p := None)) (bls s)"
    using inv unfolding INV_def objs_free by blast
  ultimately show "INV (L - {Rec p}) n s'" unfolding s'
    using inv unfolding INV_def wf_def by (auto elim: wf_brk_sub)
qed

lemma rreq_blacklist_timeout_keeps:
  "spec (\<lambda>s. INV L n s \<and> p \<in> dom (bls s) \<and> \<not> attached s (Bl_timer p)) (rreq_blacklist_timeout p)
     (\<lambda>_. INV (L - {Bl p}) n)"
proof (rule specI, elim conjE)
  fix s a s' assume inv: "INV L n s" and p: "p \<in> dom (bls s)" and na: "\<not> attached s (Bl_timer p)"
    and r: "run_state (rreq_blacklist_timeout p) s = (a, s')"
  have s': "s' = s\<lparr>rreq_blacklists := remove1 p (rreq_blacklists s), bls := (bls s)(p := None)\<rparr>"
    using r p by (auto simp: rreq_blacklist_timeout_def)
  have "wf_timers (tq s) (exptq s) (timers s) (live_timer (rts s) (seeks s) (recs s) ((bls s)(p := None)))"
    using INV_timers [OF inv] live_free_bl na
    by (rule_tac wf_timers_free [where T = "{Bl_timer p}"]) (auto simp: attached_def)
  moreover have "wf_keyed id (remove1 p (rreq_blacklists s)) ((bls s)(p := None))"
    using inv by (intro wf_keyed_remove) (simp add: INV_def wf_def)
  moreover have "L - {Bl p} \<subseteq> objs (rts s) (seeks s) (recs s) ((bls s)(p := None))"
    using inv unfolding INV_def objs_free by blast
  ultimately show "INV (L - {Bl p}) n s'" unfolding s'
    using inv unfolding INV_def wf_def by (auto elim: wf_brk_sub)
qed

end
