(* ===== verification/Routing_Table.thy ===== *)
theory Routing_Table
  imports Nl Seek_List
begin

text \<open>
  \<^verbatim>\<open>routing_table.c\<close>: the hash table of routes, the timers of a route and its
  precursor list. \<^verbatim>\<open>rt_table_update\<close> calls the protocol (a neighbour's link may
  break) and is in \<^verbatim>\<open>Neighbor\<close>. A pointer the code tests for
  \<^verbatim>\<open>NULL\<close> is an option; \<open>deref\<close> is the use of one it does not test.
\<close>

section \<open>Operations\<close>

definition deref :: "ptr option \<Rightarrow> ptr daemon" where
  "deref x = (case x of Some p \<Rightarrow> return p | None \<Rightarrow> do { crash; return 0 })"

definition rt_table_init :: "unit daemon" where
  "rt_table_init = modify (\<lambda>s. s\<lparr>num_entries := 0, num_active := 0,
     tbl := (\<lambda>i. if i < RT_TABLESIZE then [] else tbl s i)\<rparr>)"

definition hashing :: "u32 \<Rightarrow> nat \<times> u32" where
  "hashing addr = (hash_index addr, addr)"

definition rt_table_check :: "u32 \<Rightarrow> ptr option daemon" where
  "rt_table_check dest = do {
     n \<leftarrow> reads num_entries;
     if n = 0 then return None
     else do {
       let (index, hash) = hashing dest;
       ps \<leftarrow> reads (\<lambda>s. tbl s index);
       scan rts (\<lambda>e. rt_hash e = hash \<and> dest = dest_addr e) ps } }"

text \<open>
  \<^verbatim>\<open>rt_table_insert\<close>, in two parts: \<open>rt_entry_new\<close> allocates the entry,
  initialises its fields and timers and links it into its bucket; \<open>rt_entry_start\<close> announces it
  to the kernel, starts its timer and ends the search for its destination.
\<close>

definition rt_entry_new :: "u32 \<Rightarrow> u32 \<Rightarrow> u32 \<Rightarrow> u32 \<Rightarrow> u8 \<Rightarrow> u8 \<Rightarrow> ptr daemon" where
  "rt_entry_new dest next hops seqno st flags = do {
     let (index, hash) = hashing dest;
     rt \<leftarrow> malloc;
     modify (\<lambda>s. s\<lparr>rts := (rts s)(rt \<mapsto>
       blank_rt\<lparr>dest_addr := dest, next_hop := next, dest_seqno := seqno, rt_flags := flags,
         hopcnt := ucast hops, rt_hash := hash, rt_state := st\<rparr>)\<rparr>);
     timer_init (Rt_timer rt) Route_expire_timeout (Some rt);
     timer_init (Ack_timer rt) Rrep_ack_timeout (Some rt);
     timer_init (Hello_timer rt) Hello_timeout (Some rt);
     modify (\<lambda>s. s\<lparr>num_entries := num_entries s + 1\<rparr>);
     modify (\<lambda>s. s\<lparr>tbl := (tbl s)(index := rt # tbl s index)\<rparr>);
     return rt }"

definition set_rt_handler :: "ptr \<Rightarrow> handler \<Rightarrow> unit daemon" where
  "set_rt_handler rt h = upd_timer (Rt_timer rt) (\<lambda>x. x\<lparr>t_handler := Some h\<rparr>)"

definition rt_entry_start :: "ptr \<Rightarrow> u32 \<Rightarrow> u32 \<Rightarrow> u32 \<Rightarrow> u32 \<Rightarrow> u8 \<Rightarrow> u8 \<Rightarrow> unit daemon" where
  "rt_entry_start rt dest next hops lifetime st flags = do {
     lifetime \<leftarrow>
       (if st = INVALID then
          if has flags RT_REPAIR then do {
            set_rt_handler rt Local_repair_timeout;
            t \<leftarrow> reads active_route_timeout;
            return (of_int t) }
          else do {
            set_rt_handler rt Route_delete_timeout;
            t \<leftarrow> reads delete_period;
            return (of_int t) }
        else do {
          modify (\<lambda>s. s\<lparr>num_active := num_active s + 1\<rparr>);
          ifindex \<leftarrow> reads dev_ifindex;
          nl_send_add_route_msg dest next hops lifetime flags ifindex;
          return lifetime });
     only_if (lifetime \<noteq> 0) (timer_set_timeout (Rt_timer rt) (sint lifetime));
     e \<leftarrow> rt_at rt;
     only_if (rt_state e = VALID)
       (do { sk \<leftarrow> seek_list_check dest; seek_list_remove sk; return () }) }"

definition rt_table_insert :: "u32 \<Rightarrow> u32 \<Rightarrow> u32 \<Rightarrow> u32 \<Rightarrow> u32 \<Rightarrow> u8 \<Rightarrow> u8 \<Rightarrow> ptr option daemon" where
  "rt_table_insert dest next hops seqno lifetime st flags = do {
     let (index, hash) = hashing dest;
     ps \<leftarrow> reads (\<lambda>s. tbl s index);
     dup \<leftarrow> scan rts (\<lambda>e. dest_addr e = dest) ps;
     if dup \<noteq> None then return None
     else do {
       rt \<leftarrow> rt_entry_new dest next hops seqno st flags;
       rt_entry_start rt dest next hops lifetime st flags;
       return (Some rt) } }"

definition rt_table_update_timeout :: "ptr option \<Rightarrow> u32 \<Rightarrow> ptr option daemon" where
  "rt_table_update_timeout x lifetime = (case x of
       None \<Rightarrow> return None
     | Some rt \<Rightarrow> do {
         e \<leftarrow> rt_at rt;
         only_if (rt_state e = VALID) (do {
           now \<leftarrow> gettimeofday;
           let new_timeout = timeval_add_msec now lifetime;
           x \<leftarrow> reads (\<lambda>s. timers s (Rt_timer rt));
           only_if (timeval_diff (t_timeout x) new_timeout < 0)
             (timer_set_timeout (Rt_timer rt) (sint lifetime)) });
         return (Some rt) })"

definition hello_timer_used :: "ptr \<Rightarrow> bool daemon" where
  "hello_timer_used rt = reads (\<lambda>s. t_used (timers s (Hello_timer rt)))"

definition rt_table_update_route_timeouts :: "ptr option \<Rightarrow> ptr option \<Rightarrow> unit daemon" where
  "rt_table_update_route_timeouts fwd_rt rev_rt = do {
     art \<leftarrow> reads (\<lambda>s. of_int (active_route_timeout s));
     (case fwd_rt of None \<Rightarrow> return () | Some fwd \<Rightarrow> do {
        e \<leftarrow> rt_at fwd;
        only_if (rt_state e = VALID) (do {
          used \<leftarrow> hello_timer_used fwd;
          only_if (has (rt_flags e) RT_INET_DEST \<or> hopcnt e \<noteq> 1 \<or> used)
            (do { rt_table_update_timeout (Some fwd) art; return () });
          nh \<leftarrow> rt_table_check (next_hop e);
          case nh of None \<Rightarrow> return () | Some n \<Rightarrow> do {
            ne \<leftarrow> rt_at n;
            used \<leftarrow> hello_timer_used fwd;
            only_if (rt_state ne = VALID \<and> dest_addr ne \<noteq> dest_addr e \<and> used)
              (do { rt_table_update_timeout (Some n) art; return () }) } }) });
     (case rev_rt of None \<Rightarrow> return () | Some bwd \<Rightarrow> do {
        e \<leftarrow> rt_at bwd;
        only_if (rt_state e = VALID) (do {
          used \<leftarrow> hello_timer_used bwd;
          only_if (hello_cnt e \<noteq> 1 \<or> used)
            (do { rt_table_update_timeout (Some bwd) art; return () });
          nh \<leftarrow> rt_table_check (next_hop e);
          case nh of None \<Rightarrow> return () | Some n \<Rightarrow> do {
            ne \<leftarrow> rt_at n;
            used \<leftarrow> hello_timer_used bwd;
            only_if (rt_state ne = VALID \<and> dest_addr ne \<noteq> dest_addr e \<and> used)
              (do { rt_table_update_timeout (Some n) art; return () }) } }) }) }"

definition rt_table_invalidate :: "ptr option \<Rightarrow> int daemon" where
  "rt_table_invalidate x = do {
     now \<leftarrow> gettimeofday;
     case x of
       None \<Rightarrow> return (- 1)
     | Some rt \<Rightarrow> do {
         e \<leftarrow> rt_at rt;
         if rt_state e = INVALID then return (- 1)
         else do {
           timer_remove (Rt_timer rt);
           timer_remove (Hello_timer rt);
           timer_remove (Ack_timer rt);
           rt_upd rt (\<lambda>e. e\<lparr>rt_state := INVALID\<rparr>);
           modify (\<lambda>s. s\<lparr>num_active := num_active s - 1\<rparr>);
           rt_upd rt (\<lambda>e. e\<lparr>hello_cnt := 0, dest_seqno := seqno_incr (dest_seqno e),
             last_hello_time := zero_time\<rparr>);
           nl_send_del_route_msg (dest_addr e) (next_hop e) (ucast (hopcnt e));
           (if has (rt_flags e) RT_REPAIR then do {
              set_rt_handler rt Local_repair_timeout;
              t \<leftarrow> reads active_route_timeout;
              timer_set_timeout (Rt_timer rt) t }
            else do {
              set_rt_handler rt Route_delete_timeout;
              t \<leftarrow> reads delete_period;
              timer_set_timeout (Rt_timer rt) t });
           return 0 } } }"

section \<open>Precursors\<close>

definition precursor_add :: "ptr option \<Rightarrow> u32 \<Rightarrow> unit daemon" where
  "precursor_add x addr = (case x of
       None \<Rightarrow> return ()
     | Some rt \<Rightarrow> do {
         e \<leftarrow> rt_at rt;
         if addr \<in> set (precursors e) then return ()
         else rt_upd rt (\<lambda>e. e\<lparr>precursors := addr # precursors e, nprecursor := nprecursor e + 1\<rparr>) })"

definition precursor_remove :: "ptr option \<Rightarrow> u32 \<Rightarrow> unit daemon" where
  "precursor_remove x addr = (case x of
       None \<Rightarrow> return ()
     | Some rt \<Rightarrow> do {
         e \<leftarrow> rt_at rt;
         if addr \<in> set (precursors e) then
           rt_upd rt (\<lambda>e. e\<lparr>precursors := remove1 addr (precursors e), nprecursor := nprecursor e - 1\<rparr>)
         else return () })"

definition precursor_list_destroy :: "ptr option \<Rightarrow> unit daemon" where
  "precursor_list_destroy x = (case x of
       None \<Rightarrow> return ()
     | Some rt \<Rightarrow> do {
         e \<leftarrow> rt_at rt;
         for_each (\<lambda>addr. rt_upd rt (\<lambda>e.
           e\<lparr>precursors := remove1 addr (precursors e), nprecursor := nprecursor e - 1\<rparr>)) (precursors e) })"

definition rt_table_delete :: "ptr option \<Rightarrow> unit daemon" where
  "rt_table_delete x = (case x of
       None \<Rightarrow> return ()
     | Some rt \<Rightarrow> do {
         modify (\<lambda>s. s\<lparr>tbl := (\<lambda>i. remove1 rt (tbl s i))\<rparr>);
         precursor_list_destroy (Some rt);
         e \<leftarrow> rt_at rt;
         only_if (rt_state e = VALID) (do {
           nl_send_del_route_msg (dest_addr e) (next_hop e) (ucast (hopcnt e));
           modify (\<lambda>s. s\<lparr>num_active := num_active s - 1\<rparr>) });
         timer_remove (Rt_timer rt);
         timer_remove (Hello_timer rt);
         timer_remove (Ack_timer rt);
         modify (\<lambda>s. s\<lparr>num_entries := num_entries s - 1\<rparr>);
         modify (\<lambda>s. s\<lparr>rts := (rts s)(rt := None)\<rparr>) })"

definition rt_table_destroy :: "unit daemon" where
  "rt_table_destroy = for_each (\<lambda>i. do {
     ps \<leftarrow> reads (\<lambda>s. tbl s i);
     for_each (\<lambda>p. rt_table_delete (Some p)) ps }) [0..<RT_TABLESIZE]"

section \<open>Lookup\<close>

definition absent :: "u32 \<Rightarrow> node \<Rightarrow> bool" where
  "absent d s \<longleftrightarrow> (\<forall>p e. rts s p = Some e \<longrightarrow> dest_addr e \<noteq> d)"

lemma INV_table: "INV L n s \<Longrightarrow> wf_table (tbl s) (rts s) (num_entries s)"
  by (simp add: INV_def wf_def)

lemma bucket_live:
  "wf_table tb rs num \<Longrightarrow> i < 64 \<Longrightarrow> set (tb i) \<subseteq> dom rs"
  by (auto simp: wf_table_def set_all_rts)

lemma bucket_member:
  assumes "wf_table tb rs num" and "rs p = Some e"
  shows "p \<in> set (tb (hash_index (dest_addr e)))"
proof -
  have "p \<in> set (all_rts tb)" using assms by (auto simp: wf_table_def)
  then obtain i where "i < 64" "p \<in> set (tb i)" by (auto simp: set_all_rts)
  then show ?thesis using assms unfolding wf_table_def by blast
qed

lemma table_unique:
  "wf_table tb rs num \<Longrightarrow> rs p = Some e \<Longrightarrow> rs q = Some e' \<Longrightarrow> dest_addr e = dest_addr e' \<Longrightarrow> p = q"
  unfolding wf_table_def by blast

lemma table_entry_ok: "wf_table tb rs num \<Longrightarrow> rs p = Some e \<Longrightarrow> entry_ok e"
  unfolding wf_table_def by blast

text \<open>Scanning the bucket of an address finds its entry, or shows there is none.\<close>

lemma scan_bucket:
  assumes w: "wf_table (tbl s) (rts s) num"
    and test: "\<And>e. entry_ok e \<Longrightarrow> test e \<longleftrightarrow> dest_addr e = d"
  shows "\<exists>r. run_state (scan rts test (tbl s (hash_index d))) s = (r, s)
    \<and> (\<forall>p. r = Some p \<longleftrightarrow> (\<exists>e. rts s p = Some e \<and> dest_addr e = d))"
proof -
  let ?ps = "tbl s (hash_index d)"
  let ?r = "find (\<lambda>p. test (the (rts s p))) ?ps"
  have sub: "set ?ps \<subseteq> dom (rts s)" using bucket_live [OF w] by simp
  have run: "run_state (scan rts test ?ps) s = (?r, s)" using run_scan [of ?ps rts s test] sub by simp
  have "?r = Some p \<longleftrightarrow> (\<exists>e. rts s p = Some e \<and> dest_addr e = d)" for p
  proof
    assume "?r = Some p"
    then have "p \<in> set ?ps" "test (the (rts s p))" by (auto simp: find_Some_iff)
    then show "\<exists>e. rts s p = Some e \<and> dest_addr e = d"
      using sub test table_entry_ok [OF w] by fastforce
  next
    assume "\<exists>e. rts s p = Some e \<and> dest_addr e = d"
    then obtain e where e: "rts s p = Some e" "dest_addr e = d" by blast
    have "p \<in> set ?ps" using bucket_member [OF w e(1)] e(2) by simp
    moreover have "test (the (rts s p))" using e test table_entry_ok [OF w] by fastforce
    ultimately obtain q where q: "?r = Some q" by (cases ?r) (auto simp: find_None_iff)
    then have "q \<in> set ?ps" "test (the (rts s q))" by (auto simp: find_Some_iff)
    then obtain e' where e': "rts s q = Some e'" using sub by blast
    then have "dest_addr e' = d" using \<open>test (the (rts s q))\<close> test table_entry_ok [OF w] by simp
    then have "q = p" using table_unique [OF w e' e(1)] e(2) by simp
    then show "?r = Some p" using q by simp
  qed
  then show ?thesis using run by blast
qed

lemma empty_table:
  assumes w: "wf_table tb rs 0" and "length (all_rts tb) < 2 ^ 32"
  shows "rs = Map.empty"
proof -
  have "(of_nat (length (all_rts tb)) :: u32) = 0" using w by (simp add: wf_table_def)
  then have "unat (of_nat (length (all_rts tb)) :: u32) = 0" by simp
  then have "length (all_rts tb) = 0" using assms(2) by (simp add: unat_of_nat take_bit_eq_mod)
  then have "dom rs = {}" using w by (simp add: wf_table_def)
  then show ?thesis by simp
qed

lemma run_rt_check:
  assumes inv: "INV L n s" and n: "n < 2 ^ 32"
  shows "\<exists>r. run_state (rt_table_check d) s = (r, s)
    \<and> (\<forall>p. r = Some p \<longleftrightarrow> (\<exists>e. rts s p = Some e \<and> dest_addr e = d))"
proof (cases "num_entries s = 0")
  case True
  moreover have "length (all_rts (tbl s)) < 2 ^ 32" using inv n by (simp add: INV_def)
  ultimately have "rts s = Map.empty" using empty_table INV_table [OF inv] by metis
  then show ?thesis using True by (simp add: rt_table_check_def)
next
  case False
  have "\<exists>r. run_state (scan rts (\<lambda>e. rt_hash e = d \<and> d = dest_addr e) (tbl s (hash_index d))) s = (r, s)
    \<and> (\<forall>p. r = Some p \<longleftrightarrow> (\<exists>e. rts s p = Some e \<and> dest_addr e = d))"
    by (rule scan_bucket [OF INV_table [OF inv]]) (auto simp: entry_ok_def)
  then show ?thesis using False by (auto simp: rt_table_check_def hashing_def)
qed

lemma INV_add_live: "INV L n s \<Longrightarrow> rts s p = Some e \<Longrightarrow> INV (insert (Rt p) L) n s"
  by (auto simp: INV_def objs_def)

lemma bind_rt_check:
  assumes n: "n < 2 ^ 32"
    and none: "spec (\<lambda>s. INV L n s \<and> absent d s) (f None) Q"
    and some: "\<And>p. spec (INV (insert (Rt p) L) n) (f (Some p)) Q"
  shows "spec (INV L n) (State_Monad.bind (rt_table_check d) f) Q"
proof (rule specI)
  fix s a s' assume inv: "INV L n s" and r: "run_state (State_Monad.bind (rt_table_check d) f) s = (a, s')"
  obtain x where x: "run_state (rt_table_check d) s = (x, s)"
    "\<And>p. x = Some p \<longleftrightarrow> (\<exists>e. rts s p = Some e \<and> dest_addr e = d)"
    using run_rt_check [OF inv n] by blast
  show "Q a s'"
  proof (cases x)
    case None
    then have "absent d s" using x(2) by (auto simp: absent_def)
    then show ?thesis using specD [OF none] inv r x(1) None by simp
  next
    case (Some p)
    then obtain e where "rts s p = Some e" using x(2) by blast
    then have "INV (insert (Rt p) L) n s" using INV_add_live [OF inv] by simp
    then show ?thesis using specD [OF some, of p s a s'] r x(1) Some by simp
  qed
qed

lemma keeps_bind_rt_check [keeps_first]:
  assumes "n < 2 ^ 32"
    and "spec (INV L n) (f None) Q"
    and "\<And>p. spec (INV (insert (Rt p) L) n) (f (Some p)) Q"
  shows "spec (INV L n) (State_Monad.bind (rt_table_check d) f) Q"
  using assms by (intro bind_rt_check) (auto elim: spec_pre)

section \<open>Inserting\<close>

lemma all_rts_split:
  assumes "i < 64"
  shows "\<exists>A B. all_rts tb = A @ tb i @ B \<and> (\<forall>xs. all_rts (tb(i := xs)) = A @ xs @ B)"
proof -
  have up: "[0..<64] = [0..<i] @ i # [Suc i..<64]"
    using assms upt_add_eq_append [of 0 i "64 - i"] by (simp add: upt_conv_Cons)
  have "all_rts tb = concat (map tb [0..<i]) @ tb i @ concat (map tb [Suc i..<64])"
    unfolding all_rts_def up by simp
  moreover have "all_rts (tb(i := xs)) = concat (map tb [0..<i]) @ xs @ concat (map tb [Suc i..<64])" for xs
  proof -
    have "map (tb(i := xs)) [0..<i] = map tb [0..<i]"
      and "map (tb(i := xs)) [Suc i..<64] = map tb [Suc i..<64]" by auto
    then show ?thesis unfolding all_rts_def up by simp
  qed
  ultimately show ?thesis by blast
qed

lemma length_add_bucket:
  assumes "i < 64" shows "length (all_rts (tb(i := p # tb i))) = Suc (length (all_rts tb))"
proof -
  obtain A B where "all_rts tb = A @ tb i @ B" "\<And>xs. all_rts (tb(i := xs)) = A @ xs @ B"
    using all_rts_split [OF assms, of tb] by blast
  then show ?thesis by simp
qed

lemma wf_table_insert:
  assumes w: "wf_table tb rs num" and p: "p \<notin> dom rs" and e: "entry_ok e"
    and no: "\<And>q e'. rs q = Some e' \<Longrightarrow> dest_addr e' \<noteq> dest_addr e"
    and i: "i = hash_index (dest_addr e)"
  shows "wf_table (tb(i := p # tb i)) (rs(p \<mapsto> e)) (num + 1)"
proof -
  have i64: "i < 64" using i by simp
  obtain A B where ab: "all_rts tb = A @ tb i @ B" "\<And>xs. all_rts (tb(i := xs)) = A @ xs @ B"
    using all_rts_split [OF i64, of tb] by blast
  note w' = w [unfolded wf_table_def]
  have "p \<notin> set (all_rts tb)" using w' p by blast
  then have d: "distinct (all_rts (tb(i := p # tb i)))" "set (all_rts (tb(i := p # tb i))) = dom (rs(p \<mapsto> e))"
    using w' ab by auto
  have b: "hash_index (dest_addr e') = j"
    if "j < 64" "q \<in> set ((tb(i := p # tb i)) j)" "(rs(p \<mapsto> e)) q = Some e'" for j q e'
  proof (cases "q = p")
    case True
    then have "j = i" using that p bucket_live [OF w, of j] by (auto split: if_splits)
    then show ?thesis using True that i by simp
  next
    case False
    then have "q \<in> set (tb j)" "rs q = Some e'" using that by (auto split: if_splits)
    then show ?thesis using w' that(1) by blast
  qed
  have u: "q = r" if "(rs(p \<mapsto> e)) q = Some e1" "(rs(p \<mapsto> e)) r = Some e2" "dest_addr e1 = dest_addr e2"
    for q r e1 e2
    using that no table_unique [OF w, of q e1 r e2] by (auto split: if_splits)
  have k: "entry_ok e'" if "(rs(p \<mapsto> e)) q = Some e'" for q e'
    using that e table_entry_ok [OF w] by (auto split: if_splits)
  have "num + 1 = of_nat (length (all_rts (tb(i := p # tb i))))"
    using w' by (simp add: length_add_bucket [OF i64])
  then show ?thesis unfolding wf_table_def using d b u k by blast
qed

lemma live_new_rt:
  "live_timer (rs(p \<mapsto> e)) sk rc bl t \<longleftrightarrow>
   live_timer rs sk rc bl t \<or> t \<in> {Rt_timer p, Ack_timer p, Hello_timer p}"
  by (cases t) auto

lemma INV_add_rt:
  assumes inv: "INV L n s" and no: "absent (dest_addr e) s" and e: "entry_ok e"
    and i: "i = hash_index (dest_addr e)"
  shows "INV (insert (Rt (brk s)) L) (Suc n) (s\<lparr>brk := Suc (brk s), rts := (rts s)(brk s \<mapsto> e),
    timers := (timers s)(Rt_timer (brk s) := fresh_timer Route_expire_timeout (Some (brk s)),
      Ack_timer (brk s) := fresh_timer Rrep_ack_timeout (Some (brk s)),
      Hello_timer (brk s) := fresh_timer Hello_timeout (Some (brk s))),
    num_entries := num_entries s + 1, tbl := (tbl s)(i := brk s # tbl s i)\<rparr>)"
proof -
  let ?p = "brk s" let ?h = "(rts s)(brk s \<mapsto> e)"
  have "wf_timers (tq s) (exptq s) ((timers s)(Rt_timer ?p := fresh_timer Route_expire_timeout (Some ?p),
      Ack_timer ?p := fresh_timer Rrep_ack_timeout (Some ?p),
      Hello_timer ?p := fresh_timer Hello_timeout (Some ?p))) (live_timer ?h (seeks s) (recs s) (bls s))"
    using INV_timers [OF inv] live_new_rt INV_fresh [OF inv]
    by (rule_tac wf_timers_new [where T = "{Rt_timer ?p, Ack_timer ?p, Hello_timer ?p}"]) auto
  moreover have "wf_table ((tbl s)(i := ?p # tbl s i)) ?h (num_entries s + 1)"
    using INV_table [OF inv] INV_fresh [OF inv] e no i by (intro wf_table_insert) (auto simp: absent_def)
  moreover have "length (all_rts ((tbl s)(i := ?p # tbl s i))) \<le> Suc n"
    using inv i by (simp add: INV_def length_add_bucket)
  ultimately show ?thesis
    using inv unfolding INV_def wf_def objs_def by (auto elim: wf_brk_Suc)
qed

lemma rt_entry_new_keeps:
  "spec (\<lambda>s. INV L n s \<and> absent dest s) (rt_entry_new dest nh hops seqno st flags)
     (\<lambda>p. INV (insert (Rt p) L) (Suc n))"
proof (rule specI, elim conjE)
  fix s a s' assume inv: "INV L n s" and no: "absent dest s"
    and r: "run_state (rt_entry_new dest nh hops seqno st flags) s = (a, s')"
  let ?p = "brk s"
  let ?e = "blank_rt\<lparr>dest_addr := dest, next_hop := nh, dest_seqno := seqno, rt_flags := flags,
         hopcnt := ucast hops, rt_hash := dest, rt_state := st\<rparr>"
  have na: "\<not> attached s (Rt_timer ?p)" "\<not> attached s (Ack_timer ?p)" "\<not> attached s (Hello_timer ?p)"
    using attached_live [OF inv, of "Rt_timer ?p"] attached_live [OF inv, of "Ack_timer ?p"]
      attached_live [OF inv, of "Hello_timer ?p"] INV_fresh [OF inv] by auto
  then have s': "s' = s\<lparr>brk := Suc ?p, rts := (rts s)(?p \<mapsto> ?e),
    timers := (timers s)(Rt_timer ?p := fresh_timer Route_expire_timeout (Some ?p),
      Ack_timer ?p := fresh_timer Rrep_ack_timeout (Some ?p),
      Hello_timer ?p := fresh_timer Hello_timeout (Some ?p)),
    num_entries := num_entries s + 1, tbl := (tbl s)(hash_index dest := ?p # tbl s (hash_index dest))\<rparr>"
    and a: "a = ?p"
    using r by (auto simp: rt_entry_new_def hashing_def run_timer_init attached_def)
  show "INV (insert (Rt a) L) (Suc n) s'" unfolding s' a
    by (rule INV_add_rt [OF inv, of ?e]) (use no in \<open>simp_all add: entry_ok_def blank_rt_def\<close>)
qed

lemma keeps_set_rt_handler [keeps_rule]:
  "h = Route_expire_timeout \<or> h = Route_delete_timeout \<or> h = Local_repair_timeout \<Longrightarrow>
   spec (INV L n) (set_rt_handler p h) (\<lambda>_. INV L n)"
  unfolding set_rt_handler_def by (rule keeps_upd_timer) auto

lemma keeps_num_active [keeps_rule]:
  "spec (INV L n) (modify (\<lambda>s. s\<lparr>num_active := f s\<rparr>)) (\<lambda>_. INV L n)"
  by (rule spec_modify) simp

lemma keeps_seek_check [keeps_rule]: "spec (INV L n) (seek_list_check d) (\<lambda>_. INV L n)"
  by (rule sk.keeps_check)

lemma keeps_seek_drop [keeps_rule]:
  "(\<And>p. Seek p \<notin> L) \<Longrightarrow> spec (INV L n) (seek_list_remove e) (\<lambda>_. INV L n)"
  by (rule spec_post [OF seek_list_remove_keeps]) (auto elim: INV_mono simp: set_option_def)

lemma run_insert_scan:
  assumes "INV L n s" and "absent d s"
  shows "run_state (scan rts (\<lambda>e. dest_addr e = d) (tbl s (hash_index d))) s = (None, s)"
proof -
  obtain r where "run_state (scan rts (\<lambda>e. dest_addr e = d) (tbl s (hash_index d))) s = (r, s)"
    "\<And>p. r = Some p \<longleftrightarrow> (\<exists>e. rts s p = Some e \<and> dest_addr e = d)"
    using scan_bucket [OF INV_table [OF assms(1)], of "\<lambda>e. dest_addr e = d" d] by auto
  then show ?thesis using assms(2) by (cases r) (auto simp: absent_def)
qed

lemma keeps_entry_start:
  assumes "\<And>p. Seek p \<notin> L" and "Rt p \<in> L"
  shows "spec (INV L n) (rt_entry_start p dest nh hops lifetime st flags) (\<lambda>_. INV L n)"
  unfolding rt_entry_start_def by (insert assms) (rule keeps_first | rule keeps_rule | simp)+

lemma run_insert:
  assumes "INV L n s" and "absent dest s"
  shows "run_state (rt_table_insert dest nh hops seqno lifetime st flags) s =
    run_state (do { rt \<leftarrow> rt_entry_new dest nh hops seqno st flags;
      rt_entry_start rt dest nh hops lifetime st flags; return (Some rt) }) s"
  using run_insert_scan [OF assms] by (simp add: rt_table_insert_def hashing_def)

lemma rt_table_insert_keeps:
  assumes L: "\<And>p. Seek p \<notin> L"
  shows "spec (\<lambda>s. INV L n s \<and> absent dest s) (rt_table_insert dest nh hops seqno lifetime st flags)
     (\<lambda>x s. \<exists>p. x = Some p \<and> INV (insert (Rt p) L) (Suc n) s)"
proof (rule specI, elim conjE)
  fix s a s' assume inv: "INV L n s" and no: "absent dest s"
    and r: "run_state (rt_table_insert dest nh hops seqno lifetime st flags) s = (a, s')"
  let ?start = "\<lambda>p. do { rt_entry_start p dest nh hops lifetime st flags; return (Some p) }"
  have "spec (INV (insert (Rt p) L) (Suc n)) (?start p) (\<lambda>x s. x = Some p \<and> INV (insert (Rt p) L) (Suc n) s)" for p
    by (rule spec_bind [OF keeps_entry_start]) (auto intro: spec_return simp: L)
  then have "spec (\<lambda>s. INV L n s \<and> absent dest s) (State_Monad.bind (rt_entry_new dest nh hops seqno st flags) ?start)
      (\<lambda>x s. \<exists>p. x = Some p \<and> INV (insert (Rt p) L) (Suc n) s)"
    by (intro spec_bind [OF rt_entry_new_keeps]) (rule spec_post, blast+)
  then show "\<exists>p. a = Some p \<and> INV (insert (Rt p) L) (Suc n) s'"
    using inv no r run_insert [OF inv no] specD by fastforce
qed

lemma bind_insert:
  assumes "\<And>p. Seek p \<notin> L"
    and "\<And>p. spec (INV (insert (Rt p) L) (Suc n)) (f (Some p)) Q"
  shows "spec (\<lambda>s. INV L n s \<and> absent dest s)
    (State_Monad.bind (rt_table_insert dest nh hops seqno lifetime st flags) f) Q"
  by (rule spec_bind [OF rt_table_insert_keeps [OF assms(1)]])
    (use assms(2) in \<open>auto simp: spec_def\<close>)

section \<open>Updating\<close>

lemma keeps_hello_timer_used [keeps_rule]: "spec P (hello_timer_used p) (\<lambda>_. P)"
  unfolding hello_timer_used_def by (rule keeps_rule)

lemma keeps_deref [keeps_rule]: "spec P (deref (Some p)) (\<lambda>_. P)"
  unfolding deref_def by (simp add: spec_return_keep)

lemma bind_deref [keeps_first]: "spec P (f p) Q \<Longrightarrow> spec P (State_Monad.bind (deref (Some p)) f) Q"
  by (simp add: deref_def)

lemma deref_Some [simp]: "deref (Some p) = return p"
  by (simp add: deref_def)

lemma keeps_update_timeout [keeps_rule]:
  "Rt ` set_option x \<subseteq> L \<Longrightarrow> spec (INV L n) (rt_table_update_timeout x l) (\<lambda>_. INV L n)"
  unfolding rt_table_update_timeout_def
  by (rule keeps_first | rule keeps_rule | simp)+

lemma keeps_update_route_timeouts [keeps_rule]:
  assumes "n < 2 ^ 32" and "Rt ` set_option x \<subseteq> L" and "Rt ` set_option y \<subseteq> L"
  shows "spec (INV L n) (rt_table_update_route_timeouts x y) (\<lambda>_. INV L n)"
  unfolding rt_table_update_route_timeouts_def
  by (insert assms) (rule keeps_first | rule keeps_rule | rule keeps_forget | simp)+

lemma keeps_invalidate [keeps_rule]:
  "Rt ` set_option x \<subseteq> L \<Longrightarrow> spec (INV L n) (rt_table_invalidate x) (\<lambda>_. INV L n)"
  unfolding rt_table_invalidate_def
  by (rule keeps_first | rule keeps_rule | simp add: entry_ok_def)+

lemma keeps_precursor_add [keeps_rule]:
  assumes "Rt ` set_option x \<subseteq> L" shows "spec (INV L n) (precursor_add x a) (\<lambda>_. INV L n)"
proof (rule specI)
  fix s u s' assume inv: "INV L n s" and r: "run_state (precursor_add x a) s = (u, s')"
  show "INV L n s'"
  proof (cases x)
    case None
    then show ?thesis using inv r by (simp add: precursor_add_def)
  next
    case (Some p)
    then obtain e where e: "rts s p = Some e" "entry_ok e" using INV_rt [OF inv, of p] assms by auto
    then show ?thesis using r Some inv
      by (auto simp: precursor_add_def entry_ok_def intro!: INV_set_rt [OF inv e(1)] split: if_splits)
  qed
qed

lemma of_nat_length_remove1:
  "x \<in> set xs \<Longrightarrow> (of_nat (length (remove1 x xs)) :: u32) = of_nat (length xs) - 1"
  by (cases "length xs") (auto simp: length_remove1)

lemma keeps_precursor_remove [keeps_rule]:
  assumes "Rt ` set_option x \<subseteq> L" shows "spec (INV L n) (precursor_remove x a) (\<lambda>_. INV L n)"
proof (rule specI)
  fix s u s' assume inv: "INV L n s" and r: "run_state (precursor_remove x a) s = (u, s')"
  show "INV L n s'"
  proof (cases x)
    case None
    then show ?thesis using inv r by (simp add: precursor_remove_def)
  next
    case (Some p)
    then obtain e where e: "rts s p = Some e" "entry_ok e" using INV_rt [OF inv, of p] assms by auto
    then show ?thesis using r Some inv
      by (auto simp: precursor_remove_def entry_ok_def of_nat_length_remove1
          intro!: INV_set_rt [OF inv e(1)] split: if_splits)
  qed
qed

lemma run_drop_precursors:
  "rts s p = Some e \<Longrightarrow> precursors e = as \<Longrightarrow>
   run_state (for_each (\<lambda>addr. rt_upd p (\<lambda>e.
     e\<lparr>precursors := remove1 addr (precursors e), nprecursor := nprecursor e - 1\<rparr>)) as) s =
   ((), s\<lparr>rts := (rts s)(p \<mapsto> e\<lparr>precursors := [], nprecursor := nprecursor e - of_nat (length as)\<rparr>)\<rparr>)"
proof (induction as arbitrary: s e)
  case Nil
  then show ?case by (auto simp: fun_upd_idem)
next
  case (Cons a as)
  let ?e = "e\<lparr>precursors := as, nprecursor := nprecursor e - 1\<rparr>"
  show ?case using Cons.prems Cons.IH [of "s\<lparr>rts := (rts s)(p \<mapsto> ?e)\<rparr>" ?e] by (simp add: algebra_simps fun_upd_def cong: if_cong)
qed

lemma run_precursor_list_destroy:
  "rts s p = Some e \<Longrightarrow> entry_ok e \<Longrightarrow> run_state (precursor_list_destroy (Some p)) s =
   ((), s\<lparr>rts := (rts s)(p \<mapsto> e\<lparr>precursors := [], nprecursor := 0\<rparr>)\<rparr>)"
  by (simp add: precursor_list_destroy_def run_drop_precursors entry_ok_def)

lemma keeps_precursor_destroy [keeps_rule]:
  assumes "Rt p \<in> L" shows "spec (INV L n) (precursor_list_destroy (Some p)) (\<lambda>_. INV L n)"
proof (rule specI)
  fix s u s' assume inv: "INV L n s" and r: "run_state (precursor_list_destroy (Some p)) s = (u, s')"
  obtain e where e: "rts s p = Some e" "entry_ok e" using INV_rt [OF inv assms] by auto
  then show "INV L n s'" using r
    by (auto simp: run_precursor_list_destroy entry_ok_def intro!: INV_set_rt [OF inv e(1)])
qed

section \<open>Deleting\<close>

text \<open>
  \<^verbatim>\<open>rt_table_delete\<close> unlinks the entry first and frees it last, and in between the
  table does not list an entry that is still allocated. Nothing in between looks at the buckets
  (\<open>tbl_free\<close>), so unlinking can be moved to the end, where the invariant holds again.
\<close>

definition tbl_free :: "'a daemon \<Rightarrow> bool" where
  "tbl_free m \<longleftrightarrow> (\<forall>s g. run_state m (s\<lparr>tbl := g\<rparr>) = (fst (run_state m s), (snd (run_state m s))\<lparr>tbl := g\<rparr>))"

lemma tbl_free_run:
  "tbl_free m \<Longrightarrow> run_state m (s\<lparr>tbl := g\<rparr>) = (fst (run_state m s), (snd (run_state m s))\<lparr>tbl := g\<rparr>)"
  by (simp add: tbl_free_def)

named_theorems tbl_free_rule

lemma tbl_free_bind [tbl_free_rule]:
  "tbl_free m \<Longrightarrow> (\<And>a. tbl_free (f a)) \<Longrightarrow> tbl_free (State_Monad.bind m f)"
  unfolding tbl_free_def by (simp add: case_prod_beta)

lemma tbl_free_basic [tbl_free_rule]:
  "tbl_free (return x)" "tbl_free (rt_at p)" "tbl_free (rt_upd p f)" "tbl_free gettimeofday" "tbl_free syscall"
  "tbl_free (upd_timer t h)"
  by (auto simp: tbl_free_def rt_at_def rt_upd_def gettimeofday_def syscall_def split: option.splits)

lemma tbl_free_reads [tbl_free_rule]:
  "(\<And>s g. f (s\<lparr>tbl := g\<rparr>) = f s) \<Longrightarrow> tbl_free (reads f)"
  by (simp add: tbl_free_def)

lemma tbl_free_modify [tbl_free_rule]:
  "(\<And>s g. f (s\<lparr>tbl := g\<rparr>) = (f s)\<lparr>tbl := g\<rparr>) \<Longrightarrow> tbl_free (modify f)"
  by (simp add: tbl_free_def)

lemma tbl_free_only_if [tbl_free_rule]: "tbl_free m \<Longrightarrow> tbl_free (only_if b m)"
  by (simp add: only_if_def tbl_free_basic)

lemma tbl_free_if [tbl_free_rule]: "tbl_free m \<Longrightarrow> tbl_free m' \<Longrightarrow> tbl_free (if b then m else m')"
  by simp

lemma tbl_free_for_each [tbl_free_rule]: "(\<And>x. tbl_free (f x)) \<Longrightarrow> tbl_free (for_each f xs)"
  by (induction xs) (auto intro: tbl_free_bind tbl_free_basic)

lemma tbl_free_nl_send: "tbl_free (nl_send nl m)"
  unfolding tbl_free_def nl_send_def by (auto split: nlsock.splits)

lemma tbl_free_nl_del [tbl_free_rule]: "tbl_free (nl_send_del_route_msg d h m)"
  unfolding nl_send_del_route_msg_def nl_kernel_route_def Let_def
  by (auto intro!: tbl_free_rule tbl_free_nl_send split: prod.splits)

lemma tbl_free_timer_remove [tbl_free_rule]: "tbl_free (timer_remove t)"
  unfolding timer_remove_def by (auto intro!: tbl_free_rule simp: attached_def)

definition rt_unload :: "ptr \<Rightarrow> unit daemon" where
  "rt_unload rt = do {
     precursor_list_destroy (Some rt);
     e \<leftarrow> rt_at rt;
     only_if (rt_state e = VALID) (do {
       nl_send_del_route_msg (dest_addr e) (next_hop e) (ucast (hopcnt e));
       modify (\<lambda>s. s\<lparr>num_active := num_active s - 1\<rparr>) });
     timer_remove (Rt_timer rt);
     timer_remove (Hello_timer rt);
     timer_remove (Ack_timer rt);
     return () }"

lemma tbl_free_unload: "tbl_free (rt_unload rt)"
  unfolding rt_unload_def precursor_list_destroy_def
  by (auto intro!: tbl_free_rule)

lemma keeps_unload: "Rt rt \<in> L \<Longrightarrow> spec (INV L n) (rt_unload rt) (\<lambda>_. INV L n)"
  unfolding rt_unload_def by (rule keeps_first | rule keeps_rule | simp)+

lemma tbl_stays: "tbl_free m \<Longrightarrow> tbl (snd (run_state m s)) = tbl s"
proof -
  assume "tbl_free m"
  moreover have "s\<lparr>tbl := tbl s\<rparr> = s" by simp
  ultimately have "snd (run_state m s) = (snd (run_state m s))\<lparr>tbl := tbl s\<rparr>"
    using tbl_free_run [of m "tbl s" s] by (metis snd_conv)
  then have "tbl (snd (run_state m s)) = tbl ((snd (run_state m s))\<lparr>tbl := tbl s\<rparr>)" by (rule arg_cong)
  also have "\<dots> = tbl s" by simp
  finally show ?thesis .
qed

lemma timer_remove_off:
  "spec (\<lambda>s. INV L n s \<and> (\<forall>t \<in> T. \<not> attached s t)) (timer_remove t)
     (\<lambda>_ s. INV L n s \<and> (\<forall>t \<in> insert t T. \<not> attached s t))"
proof (rule specI, elim conjE)
  fix s a s' assume inv: "INV L n s" and T: "\<forall>t \<in> T. \<not> attached s t"
    and r: "run_state (timer_remove t) s = (a, s')"
  have "\<not> attached s' t" using timer_remove_detaches [OF inv, of t] r by simp
  moreover have "\<not> attached s' u" if "u \<in> T" for u
    using T that r by (auto simp: run_timer_remove [OF inv] attached_def dest: notin_set_remove1)
  ultimately show "INV L n s' \<and> (\<forall>t \<in> insert t T. \<not> attached s' t)"
    using specD [OF keeps_timer_remove inv r] by blast
qed

lemma unload_off:
  assumes "Rt rt \<in> L"
  shows "spec (INV L n) (rt_unload rt) (\<lambda>_ s. INV L n s \<and>
    (\<forall>t \<in> {Ack_timer rt, Hello_timer rt, Rt_timer rt}. \<not> attached s t))"
proof -
  have off: "spec (INV L n) (do { timer_remove (Rt_timer rt); timer_remove (Hello_timer rt);
      timer_remove (Ack_timer rt); return () })
    (\<lambda>_ s. INV L n s \<and> (\<forall>t \<in> {Ack_timer rt, Hello_timer rt, Rt_timer rt}. \<not> attached s t))"
    by (rule spec_bind, rule spec_weaken [OF timer_remove_off [where T = "{}"]], simp, assumption,
        rule spec_bind, rule timer_remove_off, rule spec_bind, rule timer_remove_off, rule spec_return, simp)
  show ?thesis unfolding rt_unload_def
    by (rule off | rule keeps_first | rule keeps_rule | simp add: assms)+
qed

lemma wf_table_delete:
  assumes w: "wf_table tb rs num" and p: "p \<in> dom rs"
  shows "wf_table (\<lambda>i. remove1 p (tb i)) (rs(p := None)) (num - 1)
    \<and> length (all_rts (\<lambda>i. remove1 p (tb i))) = length (all_rts tb) - 1"
proof -
  note w' = w [unfolded wf_table_def]
  have d: "distinct (tb i)" if i: "i < 64" for i
  proof -
    obtain A B where "all_rts tb = A @ tb i @ B" using all_rts_split [OF i, of tb] by blast
    then show ?thesis using w' by auto
  qed
  have one: "remove1 p (tb i) = filter (\<lambda>q. p \<noteq> q) (tb i)" if "i < 64" for i
    using d [OF that] by (simp add: distinct_remove1_removeAll removeAll_filter_not_eq)
  have "all_rts (\<lambda>i. remove1 p (tb i)) = concat (map (filter (\<lambda>q. p \<noteq> q)) (map tb [0..<64]))"
    unfolding all_rts_def map_map by (rule arg_cong [of _ _ concat], rule map_cong) (simp_all add: one)
  also have "\<dots> = filter (\<lambda>q. p \<noteq> q) (all_rts tb)" by (simp only: filter_concat all_rts_def)
  also have "\<dots> = remove1 p (all_rts tb)"
    using w' by (simp add: distinct_remove1_removeAll removeAll_filter_not_eq)
  finally have all: "all_rts (\<lambda>i. remove1 p (tb i)) = remove1 p (all_rts tb)" .
  have len: "length (remove1 p (all_rts tb)) = length (all_rts tb) - 1" and pos: "0 < length (all_rts tb)"
    using p w' by (auto simp: length_remove1 intro: length_pos_if_in_set)
  have "num - 1 = of_nat (length (all_rts tb) - 1)"
    using w' pos by (cases "length (all_rts tb)") auto
  moreover have "set (remove1 p (all_rts tb)) = dom (rs(p := None))" using w' by auto
  ultimately show ?thesis using w' len unfolding wf_table_def all
    by (intro conjI allI impI ballI) (simp, simp, auto split: if_splits dest: in_set_remove1 [THEN iffD1] notin_set_remove1)
qed

lemma live_free_rt:
  "live_timer (rs(p := None)) sk rc bl t \<longleftrightarrow>
   live_timer rs sk rc bl t \<and> t \<notin> {Ack_timer p, Hello_timer p, Rt_timer p}"
  by (cases t) auto

lemma INV_remove_rt:
  assumes inv: "INV L n s" and p: "Rt p \<in> L"
    and off: "\<forall>t \<in> {Ack_timer p, Hello_timer p, Rt_timer p}. \<not> attached s t"
  shows "INV (L - {Rt p}) (n - 1) (s\<lparr>tbl := (\<lambda>i. remove1 p (tbl s i)), num_entries := num_entries s - 1,
    rts := (rts s)(p := None)\<rparr>)"
proof -
  have d: "p \<in> dom (rts s)" using INV_rt [OF inv p] by blast
  have "wf_timers (tq s) (exptq s) (timers s) (live_timer ((rts s)(p := None)) (seeks s) (recs s) (bls s))"
    using INV_timers [OF inv] live_free_rt off
    by (rule_tac wf_timers_free [where T = "{Ack_timer p, Hello_timer p, Rt_timer p}"])
      (auto simp: attached_def)
  moreover have "L - {Rt p} \<subseteq> objs ((rts s)(p := None)) (seeks s) (recs s) (bls s)"
    using inv unfolding INV_def objs_free by blast
  moreover have "length (all_rts (tbl s)) - 1 \<le> n - 1" using inv unfolding INV_def by linarith
  ultimately show ?thesis
    using inv wf_table_delete [OF INV_table [OF inv] d] unfolding INV_def wf_def
    by (auto elim: wf_brk_sub)
qed

lemma rt_table_delete_eq:
  "rt_table_delete (Some rt) = do {
     modify (\<lambda>s. s\<lparr>tbl := (\<lambda>i. remove1 rt (tbl s i))\<rparr>);
     rt_unload rt;
     modify (\<lambda>s. s\<lparr>num_entries := num_entries s - 1\<rparr>);
     modify (\<lambda>s. s\<lparr>rts := (rts s)(rt := None)\<rparr>) }"
  by (simp add: rt_table_delete_def rt_unload_def)

lemma rt_table_delete_state:
  "snd (run_state (rt_table_delete (Some rt)) s) =
   (let s2 = snd (run_state (rt_unload rt) s)
    in s2\<lparr>tbl := (\<lambda>i. remove1 rt (tbl s i)), num_entries := num_entries s2 - 1, rts := (rts s2)(rt := None)\<rparr>)"
  by (simp add: rt_table_delete_eq tbl_free_run [OF tbl_free_unload] Let_def split: prod.splits)

lemma rt_table_delete_keeps:
  assumes "Rt rt \<in> L"
  shows "spec (INV L n) (rt_table_delete (Some rt)) (\<lambda>_. INV (L - {Rt rt}) (n - 1))"
proof (rule specI)
  fix s a s' assume inv: "INV L n s" and r: "run_state (rt_table_delete (Some rt)) s = (a, s')"
  let ?s2 = "snd (run_state (rt_unload rt) s)"
  have i: "INV L n ?s2" "\<forall>t \<in> {Ack_timer rt, Hello_timer rt, Rt_timer rt}. \<not> attached ?s2 t"
    using spec_snd [OF unload_off [OF assms] inv] by auto
  have "s' = ?s2\<lparr>tbl := (\<lambda>i. remove1 rt (tbl ?s2 i)), num_entries := num_entries ?s2 - 1,
      rts := (rts ?s2)(rt := None)\<rparr>"
    using rt_table_delete_state [of rt s] r tbl_stays [OF tbl_free_unload, of rt s] by (simp add: Let_def)
  then show "INV (L - {Rt rt}) (n - 1) s'" using INV_remove_rt [OF i(1) assms i(2)] by simp
qed

lemma delete_all:
  assumes "distinct ps"
  shows "spec (INV (Rt ` set ps) n) (for_each (\<lambda>p. rt_table_delete (Some p)) ps)
     (\<lambda>_. INV {} (n - length ps))"
  using assms
proof (induction ps arbitrary: n)
  case Nil
  then show ?case by (simp add: spec_return_keep)
next
  case (Cons p ps)
  have "spec (INV (Rt ` set (p # ps)) n) (rt_table_delete (Some p)) (\<lambda>_. INV (Rt ` set ps) (n - 1))"
    by (rule spec_post [OF rt_table_delete_keeps]) (use Cons.prems in \<open>auto elim!: INV_mono\<close>)
  then show ?case using Cons.IH [of "n - 1"] Cons.prems by (auto intro: spec_bind)
qed

lemma keeps_rt_table_destroy: "spec (INV {} n) rt_table_destroy (\<lambda>_. INV {} n)"
  unfolding rt_table_destroy_def
proof (rule spec_for_each, rule specI)
  fix i s a s' assume i: "i \<in> set [0..<64]" and inv: "INV {} n s"
    and r: "run_state (do { ps \<leftarrow> reads (\<lambda>s. tbl s i); for_each (\<lambda>p. rt_table_delete (Some p)) ps }) s = (a, s')"
  have "set (tbl s i) \<subseteq> dom (rts s)" using bucket_live [OF INV_table [OF inv]] i by simp
  then have "INV (Rt ` set (tbl s i)) n s" using inv by (auto simp: INV_def objs_def)
  moreover obtain A B where "all_rts (tbl s) = A @ tbl s i @ B" using all_rts_split [of i "tbl s"] i by auto
  then have "distinct (tbl s i)" using INV_table [OF inv] by (auto simp: wf_table_def)
  ultimately have "INV {} (n - length (tbl s i)) s'"
    using specD [OF delete_all, of "tbl s i" n s a s'] r by simp
  then show "INV {} n s'" by (rule INV_mono) auto
qed

section \<open>The message buffers are left alone\<close>

abbreviation bufs :: "node \<Rightarrow> buffer \<times> buffer" where
  "bufs \<equiv> \<lambda>s. (send_buf s, recv_buf s)"

lemma bufs_timer [frame_rule]:
  "frame bufs (upd_timer t g)" "frame bufs (timer_init t h d)" "frame bufs (timer_remove t)"
  "frame bufs (timer_add t)"
  unfolding timer_init_def timer_remove_def timer_add_def upd_timer_def
  by (auto intro!: frame_rule)

lemma bufs_timer_set [frame_rule]: "frame bufs (timer_set_timeout t m)"
  unfolding timer_set_timeout_def by (auto intro!: frame_rule)

lemma bufs_nl_send [frame_rule]: "frame bufs (nl_send nl m)"
  unfolding frame_def nl_send_def by (auto split: nlsock.splits)

lemma bufs_nl [frame_rule]:
  "frame bufs (nl_kernel_route a f i d g nm m)" "frame bufs (nl_send_no_route_found_msg d)"
  unfolding nl_kernel_route_def nl_send_no_route_found_msg_def Let_def
  by (auto intro!: frame_rule split: prod.splits)

lemma bufs_nl_route [frame_rule]:
  "frame bufs (nl_send_add_route_msg d nh m l fl i)" "frame bufs (nl_send_del_route_msg d nh m)"
  unfolding nl_send_add_route_msg_def nl_send_del_route_msg_def Let_def
  by (auto intro!: frame_rule)

lemma bufs_seek [frame_rule]:
  "frame bufs (seek_list_check d)" "frame bufs (seek_list_remove e)"
  unfolding seek_list_check_def seek_list_remove_def
  by (auto intro!: frame_rule)

lemma bufs_table [frame_rule]:
  "frame bufs (rt_table_check d)" "frame bufs (set_rt_handler p h)"
  "frame bufs (rt_entry_new d nh hops sq st fl)" "frame bufs (rt_table_update_timeout x l)"
  unfolding rt_table_check_def set_rt_handler_def rt_entry_new_def rt_table_update_timeout_def Let_def malloc_def
  by (auto intro!: frame_rule simp: frame_def [of _ "State _"] split: prod.splits)

lemma bufs_table_ops [frame_rule]:
  "frame bufs (rt_table_insert d nh hops sq lt st fl)" "frame bufs (rt_table_invalidate x)"
  "frame bufs (precursor_add x a)" "frame bufs (precursor_list_destroy x)"
  unfolding rt_table_insert_def rt_entry_start_def rt_table_invalidate_def precursor_add_def
    precursor_list_destroy_def Let_def
  by (auto intro!: frame_rule split: prod.splits)

lemma keeps_bufs:
  "spec P m (\<lambda>_. P) \<Longrightarrow> frame bufs m \<Longrightarrow>
   spec (\<lambda>s. P s \<and> Q (send_buf s) (recv_buf s)) m (\<lambda>_ s. P s \<and> Q (send_buf s) (recv_buf s))"
  using keeps_frame [of P m bufs "\<lambda>(a, b). Q a b"] by simp

section \<open>What the operations do to the table\<close>

lemma rts_timer [frame_rule]:
  "frame rts (upd_timer t g)" "frame rts (timer_remove t)" "frame rts (timer_add t)" "frame rts (timer_init t h d)"
  unfolding timer_remove_def timer_add_def upd_timer_def timer_init_def by (auto intro!: frame_rule)

lemma rts_timer_set [frame_rule]: "frame rts (timer_set_timeout t m)" "frame rts (set_rt_handler p h)"
  unfolding timer_set_timeout_def set_rt_handler_def by (auto intro!: frame_rule)

lemma rts_nl_send [frame_rule]: "frame rts (nl_send nl m)"
  unfolding frame_def nl_send_def by (auto split: nlsock.splits)

lemma rts_nl [frame_rule]:
  "frame rts (nl_send_add_route_msg d nh m l fl i)" "frame rts (nl_send_del_route_msg d nh m)"
  unfolding nl_send_add_route_msg_def nl_send_del_route_msg_def nl_kernel_route_def Let_def
  by (auto intro!: frame_rule split: prod.splits)

lemma rts_seek [frame_rule]: "frame rts (seek_list_check d)" "frame rts (seek_list_remove e)"
  unfolding seek_list_check_def seek_list_remove_def by (auto intro!: frame_rule)

text \<open>Running a program over a known table \<open>h\<close>.\<close>

lemma table_keep:
  "frame rts m \<Longrightarrow> (\<And>a. spec (\<lambda>s. rts s = h) (f a) Q) \<Longrightarrow> spec (\<lambda>s. rts s = h) (State_Monad.bind m f) Q"
  by (rule spec_bind [OF frame_spec [where Q = "\<lambda>x. x = h"]])

lemma table_upd:
  "h p = Some e \<Longrightarrow> spec (\<lambda>s. rts s = h(p \<mapsto> u e)) (f ()) Q \<Longrightarrow>
   spec (\<lambda>s. rts s = h) (State_Monad.bind (rt_upd p u) f) Q"
proof (rule specI)
  fix s a s' assume h: "h p = Some e" and f: "spec (\<lambda>s. rts s = h(p \<mapsto> u e)) (f ()) Q" and s: "rts s = h"
    and r: "run_state (State_Monad.bind (rt_upd p u) f) s = (a, s')"
  then have "run_state (f ()) (s\<lparr>rts := h(p \<mapsto> u e)\<rparr>) = (a, s')" by simp
  then show "Q a s'" by (rule specD [OF f, rotated]) simp
qed

lemma table_at:
  "h p = Some e \<Longrightarrow> spec (\<lambda>s. rts s = h) (f e) Q \<Longrightarrow> spec (\<lambda>s. rts s = h) (State_Monad.bind (rt_at p) f) Q"
  by (simp add: spec_def)

text \<open>The entry that \<^verbatim>\<open>rt_table_insert\<close> makes.\<close>

definition new_entry :: "u32 \<Rightarrow> u32 \<Rightarrow> u32 \<Rightarrow> u32 \<Rightarrow> u8 \<Rightarrow> u8 \<Rightarrow> rt_entry" where
  "new_entry dest nh hops seqno st flags =
     blank_rt\<lparr>dest_addr := dest, next_hop := nh, dest_seqno := seqno, rt_flags := flags,
       hopcnt := ucast hops, rt_hash := dest, rt_state := st\<rparr>"

lemma rts_entry_new:
  "rts (snd (run_state (rt_entry_new dest nh hops seqno st flags) s)) =
     (rts s)(brk s \<mapsto> new_entry dest nh hops seqno st flags)"
  "fst (run_state (rt_entry_new dest nh hops seqno st flags) s) = brk s"
  by (simp_all add: rt_entry_new_def hashing_def new_entry_def timer_init_def case_prod_beta)

lemma rts_entry_start [frame_rule]: "frame rts (rt_entry_start p dest nh hops lifetime st flags)"
  unfolding rt_entry_start_def by (auto intro!: frame_rule)

lemma insert_rts:
  assumes inv: "INV L n s" and no: "absent dest s"
  shows "rts (snd (run_state (rt_table_insert dest nh hops seqno lifetime st flags) s)) =
      (rts s)(brk s \<mapsto> new_entry dest nh hops seqno st flags)
    \<and> fst (run_state (rt_table_insert dest nh hops seqno lifetime st flags) s) = Some (brk s)"
  by (simp add: run_insert [OF assms] case_prod_beta frameD [OF rts_entry_start] rts_entry_new)

lemma unload_rts:
  assumes "rts s rt = Some e" and "entry_ok e"
  shows "rts (snd (run_state (rt_unload rt) s)) = (rts s)(rt \<mapsto> e\<lparr>precursors := [], nprecursor := 0\<rparr>)"
proof -
  define rest :: "unit daemon" where "rest = do {
     e \<leftarrow> rt_at rt;
     only_if (rt_state e = VALID) (do {
       nl_send_del_route_msg (dest_addr e) (next_hop e) (ucast (hopcnt e));
       modify (\<lambda>s. s\<lparr>num_active := num_active s - 1\<rparr>) });
     timer_remove (Rt_timer rt);
     timer_remove (Hello_timer rt);
     timer_remove (Ack_timer rt);
     return () }"
  have fr: "frame rts rest" unfolding rest_def by (auto intro!: frame_rule)
  have "rt_unload rt = do { precursor_list_destroy (Some rt); rest }"
    by (simp add: rt_unload_def rest_def)
  then show ?thesis using frameD [OF fr] run_precursor_list_destroy [OF assms] by simp
qed

lemma delete_rts:
  assumes "INV L n s" and "rts s rt = Some e"
  shows "rts (snd (run_state (rt_table_delete (Some rt)) s)) = (rts s)(rt := None)"
  using unload_rts [OF assms(2) table_entry_ok [OF INV_table [OF assms(1)] assms(2)]]
  by (simp add: rt_table_delete_state Let_def)

lemma frame_handler [frame_rule]:
  "frame (\<lambda>s. t_handler (timers s t)) (timer_remove u)" "frame (\<lambda>s. t_handler (timers s t)) (timer_add u)"
  unfolding timer_remove_def timer_add_def
  by (auto intro!: frame_rule simp: upd_timer_def)

lemma frame_handler_set: "frame (\<lambda>s. t_handler (timers s t)) (timer_set_timeout u m)"
  unfolding timer_set_timeout_def
  by (auto intro!: frame_rule simp: upd_timer_def)

lemma table_rearm:
  "spec (\<lambda>s. rts s = h) (do { set_rt_handler p f; t \<leftarrow> reads g; timer_set_timeout (Rt_timer p) t; return v })
     (\<lambda>a s. a = v \<and> rts s = h \<and> t_handler (timers s (Rt_timer p)) = Some f)"
proof (rule specI)
  fix s a s' assume h: "rts s = h"
    and r: "run_state (do { set_rt_handler p f; t \<leftarrow> reads g; timer_set_timeout (Rt_timer p) t; return v }) s = (a, s')"
  let ?s1 = "snd (run_state (set_rt_handler p f) s)"
  have "s' = snd (run_state (timer_set_timeout (Rt_timer p) (g ?s1)) ?s1)" "a = v"
    using r by (auto simp: case_prod_beta)
  moreover have "rts ?s1 = h" "t_handler (timers ?s1 (Rt_timer p)) = Some f"
    using h by (simp_all add: set_rt_handler_def)
  ultimately show "a = v \<and> rts s' = h \<and> t_handler (timers s' (Rt_timer p)) = Some f"
    by (simp add: frameD [OF rts_timer_set(1)] frameD [OF frame_handler_set])
qed

lemma invalidate_valid:
  assumes "h rt = Some e" and "rt_state e \<noteq> INVALID"
  shows "spec (\<lambda>s. rts s = h) (rt_table_invalidate (Some rt)) (\<lambda>r s. r = 0
    \<and> rts s = h(rt \<mapsto> e\<lparr>rt_state := INVALID, hello_cnt := 0, dest_seqno := seqno_incr (dest_seqno e),
        last_hello_time := zero_time\<rparr>)
    \<and> t_handler (timers s (Rt_timer rt)) =
        Some (if has (rt_flags e) RT_REPAIR then Local_repair_timeout else Route_delete_timeout))"
proof -
  let ?e = "e\<lparr>rt_state := INVALID, hello_cnt := 0, dest_seqno := seqno_incr (dest_seqno e),
        last_hello_time := zero_time\<rparr>"
  have tail: "spec (\<lambda>s. rts s = h(rt \<mapsto> ?e)) (do {
      (if has (rt_flags e) RT_REPAIR then do {
         set_rt_handler rt Local_repair_timeout;
         t \<leftarrow> reads active_route_timeout;
         timer_set_timeout (Rt_timer rt) t }
       else do {
         set_rt_handler rt Route_delete_timeout;
         t \<leftarrow> reads delete_period;
         timer_set_timeout (Rt_timer rt) t });
      return (0 :: int) }) (\<lambda>r s. r = 0 \<and> rts s = h(rt \<mapsto> ?e) \<and> t_handler (timers s (Rt_timer rt)) =
        Some (if has (rt_flags e) RT_REPAIR then Local_repair_timeout else Route_delete_timeout))"
    using table_rearm [of "h(rt \<mapsto> ?e)" rt _ _ "0 :: int"] by (simp add: bind_assoc)
  have e: "(h(rt \<mapsto> e\<lparr>rt_state := INVALID\<rparr>)) rt = Some (e\<lparr>rt_state := INVALID\<rparr>)" by simp
  show ?thesis unfolding rt_table_invalidate_def
    apply (rule table_keep, rule frame_rule, simp)
    apply (simp only: option.case)
    apply (rule table_at, rule assms(1))
    apply (simp only: assms(2) if_False)
    apply (rule table_keep, rule rts_timer)+
    apply (rule table_upd, rule assms(1))
    apply (rule table_keep, rule frame_rule, simp)
    apply (rule table_upd, rule e)
    apply (rule table_keep, rule frame_rule)
    using tail by simp
qed

lemma wf_INV: "wf s \<Longrightarrow> INV {} (length (all_rts (tbl s))) s"
  by (simp add: INV_def)

section \<open>Properties\<close>

text \<open>The state of the witnesses: one route, to a neighbour.\<close>

definition one_route :: node where
  "one_route = snd (run_state (rt_table_insert 10 10 1 5 3000 VALID 0) node0)"

lemma node0_INV: "INV {} 0 node0"
  using globals_wf [of "\<lambda>_. zero_time" "\<lambda>_. 0" 1] by (simp add: INV_def node0_def)

lemma node0_absent: "absent d node0"
  by (simp add: absent_def node0_def globals_def)

lemma one_route_simps:
  "wf one_route" "rts one_route = [0 \<mapsto> new_entry 10 10 1 5 VALID 0]" "length (all_rts (tbl one_route)) \<le> 1"
proof -
  obtain r s' where r: "run_state (rt_table_insert 10 10 1 5 3000 VALID 0) node0 = (r, s')"
    by (metis surj_pair)
  have b: "brk node0 = 0" "rts node0 = Map.empty" by (simp_all add: node0_def globals_def)
  then have rs: "r = Some 0" "rts s' = [0 \<mapsto> new_entry 10 10 1 5 VALID 0]"
    using insert_rts [OF node0_INV node0_absent, of 10 10 1 5 3000 VALID 0] r by auto
  then have i: "INV {Rt 0} 1 s'"
    using specD [OF rt_table_insert_keeps [of "{}" 0] _ r] node0_INV node0_absent by auto
  show "wf one_route" "rts one_route = [0 \<mapsto> new_entry 10 10 1 5 VALID 0]"
    "length (all_rts (tbl one_route)) \<le> 1"
    using r rs i by (simp_all add: one_route_def INV_def)
qed

text \<open>
  C19: \<^verbatim>\<open>rt_table_check\<close> is a lookup. In a well-formed table it changes nothing and returns
  the entry whose destination is the given address, and \<^verbatim>\<open>NULL\<close> exactly if there is none,
  although it searches one bucket only and compares the hash first.
\<close>

theorem rt_table_check_finds:
  assumes "wf s" and "length (all_rts (tbl s)) < 2 ^ 32"
  shows "\<exists>r. run_state (rt_table_check d) s = (r, s)
    \<and> (\<forall>p. r = Some p \<longleftrightarrow> (\<exists>e. rts s p = Some e \<and> dest_addr e = d))"
  by (rule run_rt_check [OF wf_INV [OF assms(1)] assms(2)])

theorem rt_table_check_finds_witness:
  "run_state (rt_table_check 10) one_route = (Some 0, one_route)
   \<and> run_state (rt_table_check 11) one_route = (None, one_route)"
proof -
  have "length (all_rts (tbl one_route)) < 2 ^ 32" using one_route_simps(3) by simp
  note finds = rt_table_check_finds [OF one_route_simps(1) this]
  obtain r where r: "run_state (rt_table_check 10) one_route = (r, one_route)"
    "\<And>p. r = Some p \<longleftrightarrow> (\<exists>e. rts one_route p = Some e \<and> dest_addr e = 10)"
    using finds [of 10] by blast
  obtain q where q: "run_state (rt_table_check 11) one_route = (q, one_route)"
    "\<And>p. q = Some p \<longleftrightarrow> (\<exists>e. rts one_route p = Some e \<and> dest_addr e = 11)"
    using finds [of 11] by blast
  have "r = Some 0" using r(2) [of 0] by (simp add: one_route_simps new_entry_def)
  moreover have "q = None" using q(2) [of "the q"] by (cases q) (auto simp: one_route_simps new_entry_def split: if_splits)
  ultimately show ?thesis using r(1) q(1) by simp
qed

text \<open>
  C18: inserting a destination the table does not have adds one entry with the given fields at a
  fresh address, leaves every other entry as it is and the daemon well-formed, and a lookup of
  the destination finds the new entry.
\<close>

theorem rt_table_insert_adds:
  assumes w: "wf s" and n: "Suc (length (all_rts (tbl s))) < 2 ^ 32" and no: "absent dest s"
  shows "let (r, s') = run_state (rt_table_insert dest nh hops seqno lifetime st flags) s in
    r = Some (brk s) \<and> brk s \<notin> dom (rts s) \<and> wf s'
    \<and> rts s' = (rts s)(brk s \<mapsto> new_entry dest nh hops seqno st flags)
    \<and> run_state (rt_table_check dest) s' = (Some (brk s), s')"
proof -
  note inv = wf_INV [OF w]
  obtain r s' where r: "run_state (rt_table_insert dest nh hops seqno lifetime st flags) s = (r, s')"
    by (metis surj_pair)
  have rs: "r = Some (brk s)" "rts s' = (rts s)(brk s \<mapsto> new_entry dest nh hops seqno st flags)"
    using insert_rts [OF inv no, of nh hops seqno lifetime st flags] r by auto
  have i': "INV {Rt (brk s)} (Suc (length (all_rts (tbl s)))) s'"
    using specD [OF rt_table_insert_keeps [of "{}" "length (all_rts (tbl s))"] _ r] inv no rs(1) by auto
  obtain x where x: "run_state (rt_table_check dest) s' = (x, s')"
    "\<And>p. x = Some p \<longleftrightarrow> (\<exists>e. rts s' p = Some e \<and> dest_addr e = dest)"
    using run_rt_check [OF i' n] by blast
  have "x = Some (brk s)" using x(2) [of "brk s"] rs(2) by (simp add: new_entry_def)
  then show ?thesis using r rs x(1) INV_wf [OF i'] INV_fresh [OF inv] by simp
qed

theorem rt_table_insert_adds_witness:
  "let (r, s') = run_state (rt_table_insert 10 10 1 5 3000 VALID 0) node0 in
    r = Some 0 \<and> wf s' \<and> run_state (rt_table_check 10) s' = (Some 0, s')"
  using rt_table_insert_adds [of node0 10 10 1 5 3000 VALID 0] node0_absent INV_wf [OF node0_INV]
  by (simp add: node0_def globals_def case_prod_beta Let_def)

text \<open>Inserting a destination that is already there returns \<^verbatim>\<open>NULL\<close> and changes nothing.\<close>

theorem rt_table_insert_duplicate:
  assumes w: "wf s" and e: "rts s p = Some e"
  shows "run_state (rt_table_insert (dest_addr e) nh hops seqno lifetime st flags) s = (None, s)"
proof -
  obtain r where "run_state (scan rts (\<lambda>x. dest_addr x = dest_addr e) (tbl s (hash_index (dest_addr e)))) s = (r, s)"
    "\<And>p. r = Some p \<longleftrightarrow> (\<exists>x. rts s p = Some x \<and> dest_addr x = dest_addr e)"
    using scan_bucket [OF INV_table [OF wf_INV [OF w]], of "\<lambda>x. dest_addr x = dest_addr e" "dest_addr e"] by auto
  then show ?thesis using e by (auto simp: rt_table_insert_def hashing_def)
qed

theorem rt_table_insert_duplicate_witness:
  "run_state (rt_table_insert 10 20 3 9 3000 VALID 0) one_route = (None, one_route)"
  using rt_table_insert_duplicate [OF one_route_simps(1), of 0 _ 20 3 9 3000 VALID 0]
  by (simp add: one_route_simps new_entry_def)





section \<open>A route without a timer\<close>

lemma used_nl [frame_rule]:
  "frame timers (nl_send k msg)" "frame timers (nl_kernel_route act fl i d g nm mt)"
  "frame timers (nl_send_add_route_msg d nh m l f i)"
  unfolding nl_send_def nl_kernel_route_def nl_send_add_route_msg_def Let_def
  by (auto intro!: frame_rule split: nlsock.split prod.split)

definition unarmed :: "timer_id \<Rightarrow> node \<Rightarrow> bool" where
  "unarmed t s \<longleftrightarrow> \<not> t_used (timers s t)"

lemma unarmed_negative:
  "m < 0 \<Longrightarrow> spec (unarmed t) (timer_set_timeout t m) (\<lambda>_. unarmed t)"
  by (rule specI) (auto simp: timer_set_timeout_def unarmed_def)

lemma unarmed_seek: "spec (unarmed (Rt_timer p)) (seek_list_remove x) (\<lambda>_. unarmed (Rt_timer p))"
  by (rule specI) (auto simp: seek_list_remove_def timer_remove_def unarmed_def split: option.splits if_splits)

lemma unarmed_start:
  assumes "st \<noteq> INVALID" and "sint (lifetime :: u32) \<le> 0"
  shows "spec (unarmed (Rt_timer p)) (rt_entry_start p dest nh hops lifetime st flags) (\<lambda>_. unarmed (Rt_timer p))"
proof -
  have fr: "spec (unarmed (Rt_timer p)) m (\<lambda>_. unarmed (Rt_timer p))" if "frame timers m" for m :: "'a daemon"
    using frame_spec [OF that, of "\<lambda>tm. \<not> t_used (tm (Rt_timer p))"]
    by (simp add: unarmed_def [abs_def])
  have set: "spec (unarmed (Rt_timer p)) (only_if (lifetime \<noteq> 0) (timer_set_timeout (Rt_timer p) (sint lifetime)))
      (\<lambda>_. unarmed (Rt_timer p))"
  proof (cases "lifetime = 0")
    case False
    then have "sint lifetime \<noteq> 0" by (metis signed_0 signed_word_eqI)
    then have "sint lifetime < 0" using assms(2) by simp
    then show ?thesis using False unarmed_negative by (simp add: only_if_def)
  qed (simp add: spec_def)
  have check: "frame timers (seek_list_check dest)"
    unfolding seek_list_check_def by (auto intro!: frame_rule)
  show ?thesis unfolding rt_entry_start_def
    by (simp only: assms(1) if_False)
      (rule split_binds | rule spec_bind set unarmed_seek spec_only_if fr frame_rule check | simp)+
qed

lemma unarmed_new:
  "unarmed (Rt_timer (brk s)) (snd (run_state (rt_entry_new dest nh hops seqno st flags) s))"
  by (simp add: rt_entry_new_def hashing_def timer_init_def unarmed_def case_prod_beta)

text \<open>
  A route can be valid and have no timer. If the lifetime given to
  \<^verbatim>\<open>rt_table_insert\<close> is 0, or at least \<open>2 ^ 31\<close> milliseconds and so negative as
  the \<^verbatim>\<open>long\<close> that \<^verbatim>\<open>timer_set_timeout\<close> takes, the new route is valid and
  announced to the kernel, but its timer is not armed: it does not expire.
\<close>

theorem rt_table_insert_without_timer:
  assumes w: "wf s" and no: "absent dest s" and life: "sint (lifetime :: u32) \<le> 0"
  shows "let s' = snd (run_state (rt_table_insert dest nh hops seqno lifetime VALID flags) s) in
    rts s' (brk s) = Some (new_entry dest nh hops seqno VALID flags) \<and> \<not> attached s' (Rt_timer (brk s))"
proof -
  note inv = wf_INV [OF w]
  obtain r s' where r: "run_state (rt_table_insert dest nh hops seqno lifetime VALID flags) s = (r, s')"
    by (metis surj_pair)
  let ?s1 = "snd (run_state (rt_entry_new dest nh hops seqno VALID flags) s)"
  have "s' = snd (run_state (rt_entry_start (brk s) dest nh hops lifetime VALID flags) ?s1)"
    using r by (simp add: run_insert [OF inv no] case_prod_beta rts_entry_new(2))
  then have "unarmed (Rt_timer (brk s)) s'"
    using spec_snd [OF unarmed_start unarmed_new] life by simp
  moreover obtain p where "INV {Rt p} (Suc (length (all_rts (tbl s)))) s'"
    using specD [OF rt_table_insert_keeps [of "{}" "length (all_rts (tbl s))"] _ r] inv no by auto
  then have "attached s' (Rt_timer (brk s)) \<Longrightarrow> t_used (timers s' (Rt_timer (brk s)))"
    using INV_timers [of "{Rt p}" "Suc (length (all_rts (tbl s)))" s'] by (simp add: wf_timers_def attached_def)
  ultimately show ?thesis
    using insert_rts [OF inv no, of nh hops seqno lifetime VALID flags] r by (auto simp: unarmed_def)
qed

theorem rt_table_insert_without_timer_witness:
  "\<not> attached (snd (run_state (rt_table_insert 10 20 2 5 0xfffffffe VALID 0) node0)) (Rt_timer 0)"
proof -
  have "sint (0xfffffffe :: u32) \<le> 0" by simp
  then show ?thesis
    using rt_table_insert_without_timer [OF INV_wf [OF node0_INV] node0_absent, of "0xfffffffe" 10 20 2 5 0]
    by (simp add: node0_def globals_def Let_def)
qed

text \<open>
  Precursors form a set. Adding a neighbour twice is adding it once, and removing one that was
  new gives the entry back as it was; the other routes are not touched.
\<close>

theorem precursor_add_remove:
  assumes "rts s rt = Some e"
  shows "let s1 = snd (run_state (precursor_add (Some rt) a) s) in
    (\<exists>e1. rts s1 = (rts s)(rt \<mapsto> e1) \<and> set (precursors e1) = insert a (set (precursors e)))
    \<and> snd (run_state (precursor_add (Some rt) a) s1) = s1
    \<and> (a \<notin> set (precursors e) \<longrightarrow> snd (run_state (precursor_remove (Some rt) a) s1) = s)"
proof (cases "a \<in> set (precursors e)")
  case True
  moreover have "\<exists>e1. rts s = (rts s)(rt \<mapsto> e1) \<and> set (precursors e1) = set (precursors e)"
    using assms by (intro exI [of _ e]) (simp add: fun_upd_idem)
  ultimately show ?thesis using assms by (simp add: precursor_add_def insert_absorb)
next
  case False
  then show ?thesis using assms by (auto simp: precursor_add_def precursor_remove_def fun_upd_idem)
qed

theorem precursor_add_remove_witness:
  "snd (run_state (precursor_remove (Some 0) 20) (snd (run_state (precursor_add (Some 0) 20) one_route))) = one_route"
  using precursor_add_remove [of one_route 0 _ 20] by (simp add: one_route_simps new_entry_def blank_rt_def Let_def)

end
