(* ===== verification/Rerr.thy ===== *)
theory Rerr
  imports Aodv_Socket Routing_Table
begin

text \<open>
  \<^verbatim>\<open>aodv_rerr.c\<close>: the route error message, built in \<^verbatim>\<open>send_buf\<close> and
  received in \<^verbatim>\<open>recv_buf\<close>. The first 12 bytes hold one unreachable destination, each
  further one takes 8; the flag \<^verbatim>\<open>n\<close> is bit 0 of byte 1, the number of destinations
  is byte 3. A pointer to a message under construction is always \<^verbatim>\<open>send_buf\<close>, so only
  whether it is \<^verbatim>\<open>NULL\<close> is kept.
\<close>

section \<open>The message\<close>

abbreviation (input) RERR_NODELETE :: u8 where "RERR_NODELETE \<equiv> 128"
abbreviation (input) RERR_SIZE :: u32 where "RERR_SIZE \<equiv> 12"
abbreviation (input) RERR_UDEST_SIZE :: nat where "RERR_UDEST_SIZE \<equiv> 8"

text \<open>In the unsigned arithmetic of \<^verbatim>\<open>sizeof\<close>, so a count of zero gives 4.\<close>

definition RERR_CALC_SIZE :: "u8 \<Rightarrow> u32" where
  "RERR_CALC_SIZE dest_count = RERR_SIZE + (ucast dest_count - 1) * 8"

definition rerr_create :: "u8 \<Rightarrow> u32 \<Rightarrow> u32 \<Rightarrow> unit daemon" where
  "rerr_create flags dest seqno = do {
     aodv_socket_new_msg;
     put_msg 0 [AODV_RERR];
     put_msg 1 [if has flags RERR_NODELETE then 1 else 0];
     put_msg 2 [0];
     put_msg 4 (le32 dest);
     put_msg 8 (le32 (htonl seqno));
     put_msg 3 [1] }"

definition rerr_add_udest :: "u32 \<Rightarrow> u32 \<Rightarrow> unit daemon" where
  "rerr_add_udest udest seqno = do {
     c \<leftarrow> reads (\<lambda>s. send_buf s ! 3);
     let ud = unat (RERR_CALC_SIZE c);
     put_msg ud (le32 udest);
     put_msg (ud + 4) (le32 (htonl seqno));
     c \<leftarrow> reads (\<lambda>s. send_buf s ! 3);
     put_msg 3 [c + 1] }"

text \<open>Fields of the received message, with the bounds of the buffer.\<close>

definition get8 :: "nat \<Rightarrow> u8 daemon" where
  "get8 i = do { b \<leftarrow> reads recv_buf; demand (i < length b); return (b ! i) }"

definition get32 :: "nat \<Rightarrow> u32 daemon" where
  "get32 i = do { b \<leftarrow> reads recv_buf; demand (i + 4 \<le> length b); return (peek32 i b) }"

definition set_recv :: "nat \<Rightarrow> u8 list \<Rightarrow> unit daemon" where
  "set_recv i bs = do {
     n \<leftarrow> reads (\<lambda>s. length (recv_buf s));
     demand (i + length bs \<le> n);
     modify (\<lambda>s. s\<lparr>recv_buf := poke i bs (recv_buf s)\<rparr>) }"

text \<open>\<^verbatim>\<open>FIRST_PREC\<close>, dereferenced.\<close>

definition first_prec :: "rt_entry \<Rightarrow> u32 daemon" where
  "first_prec e = (case precursors e of a # _ \<Rightarrow> return a | [] \<Rightarrow> do { crash; return 0 })"

text \<open>
  The single destination the RERR can be unicast to, or 0: it is given up when a precursor
  list has somebody else on it.
\<close>

definition narrow_unicast :: "rt_entry \<Rightarrow> u32 \<Rightarrow> u32" where
  "narrow_unicast e uni = (if uni \<noteq> 0 \<and> (\<exists>a \<in> set (precursors e). a \<noteq> uni) then 0 else uni)"

text \<open>
  Reporting the route \<open>e\<close>: the first one starts the message, the others are added. The code
  has these lines in \<^verbatim>\<open>rerr_process\<close> and in \<^verbatim>\<open>neighbor_link_break\<close>. The
  variables are whether the message exists and \<^verbatim>\<open>rerr_unicast_dest\<close>.
\<close>

definition rerr_mention :: "u8 \<Rightarrow> rt_entry \<Rightarrow> bool \<times> u32 \<Rightarrow> (bool \<times> u32) daemon" where
  "rerr_mention flags e = (\<lambda>(made, uni).
     if \<not> made then do {
       rerr_create flags (dest_addr e) (dest_seqno e);
       (if nprecursor e = 1 then do { u \<leftarrow> first_prec e; return (True, u) } else return (True, uni)) }
     else do {
       rerr_add_udest (dest_addr e) (dest_seqno e);
       return (True, narrow_unicast e uni) })"

section \<open>Receiving\<close>

text \<open>The route \<open>rt\<close> is lost; \<open>n\<close> is the byte with the N flag of the received RERR.\<close>

definition rerr_lost :: "ptr \<Rightarrow> u32 \<Rightarrow> u8 \<Rightarrow> bool \<times> u32 \<Rightarrow> (bool \<times> u32) daemon" where
  "rerr_lost rt rerr_dest_seqno n acc = do {
     only_if (\<not> has n 1) (do { rt_table_invalidate (Some rt); return () });
     rt_upd rt (\<lambda>e. e\<lparr>dest_seqno := rerr_dest_seqno\<rparr>);
     e \<leftarrow> rt_at rt;
     acc \<leftarrow>
       (if nprecursor e \<noteq> 0 \<and> \<not> has (rt_flags e) RT_REPAIR
        then rerr_mention (if has n 1 then RERR_NODELETE else 0) e acc
        else return acc);
     only_if (rt_state e = INVALID) (precursor_list_destroy (Some rt));
     return acc }"

text \<open>
  The body of the \<^verbatim>\<open>while\<close> loop for the destination at offset \<open>off\<close>.
\<close>

definition rerr_udest :: "nat \<Rightarrow> u32 \<Rightarrow> bool \<times> u32 \<Rightarrow> (bool \<times> u32) daemon" where
  "rerr_udest off ip_src acc = do {
     udest \<leftarrow> get32 off;
     sq \<leftarrow> get32 (off + 4);
     let rerr_dest_seqno = ntohl sq;
     r \<leftarrow> rt_table_check udest;
     case r of
       None \<Rightarrow> return acc
     | Some rt \<Rightarrow> do {
         e \<leftarrow> rt_at rt;
         if \<not> (rt_state e = VALID \<and> next_hop e = ip_src) then return acc
         else if seqno_gt (dest_seqno e) rerr_dest_seqno then return acc
         else do { n \<leftarrow> get8 1; rerr_lost rt rerr_dest_seqno n acc } } }"

text \<open>Each turn decrements the count in the received message, a byte: 255 turns are enough.\<close>

fun rerr_udests :: "nat \<Rightarrow> nat \<Rightarrow> u32 \<Rightarrow> bool \<times> u32 \<Rightarrow> (bool \<times> u32) daemon" where
  "rerr_udests 0 off ip_src acc = return acc"
| "rerr_udests (Suc fuel) off ip_src acc = do {
     c \<leftarrow> get8 3;
     if c = 0 then return acc
     else do {
       acc \<leftarrow> rerr_udest off ip_src acc;
       c \<leftarrow> get8 3;
       set_recv 3 [c - 1];
       rerr_udests fuel (off + RERR_UDEST_SIZE) ip_src acc } }"

definition rerr_finish :: "bool \<Rightarrow> u32 \<Rightarrow> unit daemon" where
  "rerr_finish made uni = only_if made (do {
     c \<leftarrow> reads (\<lambda>s. send_buf s ! 3);
     if uni \<noteq> 0 then do {
       rt \<leftarrow> rt_table_check uni;
       case rt of None \<Rightarrow> return ()
       | Some _ \<Rightarrow> aodv_socket_send uni (unat (RERR_CALC_SIZE c)) 1 }
     else aodv_socket_send AODV_BROADCAST (unat (RERR_CALC_SIZE c)) 1 })"

definition rerr_process :: "int \<Rightarrow> u32 \<Rightarrow> u32 \<Rightarrow> unit daemon" where
  "rerr_process len ip_src ip_dest = do {
     c \<leftarrow> get8 3;
     if len < sint (RERR_CALC_SIZE c) then return ()
     else do {
       (made, uni) \<leftarrow> rerr_udests 255 4 ip_src (False, 0);
       rerr_finish made uni } }"

section \<open>Sizes\<close>

lemma CALC_SIZE: "unat (RERR_CALC_SIZE c) = 4 + 8 * unat c"
proof -
  have "12 + (x - 1) * 8 = 4 + 8 * x" for x :: u32 by (simp add: algebra_simps)
  then have "RERR_CALC_SIZE c = of_nat (4 + 8 * unat c)" by (simp add: RERR_CALC_SIZE_def)
  then show ?thesis using unat8_less [of c] by (simp add: unat_of_nat take_bit_eq_mod del: of_nat_add of_nat_mult)
qed

lemma sint_CALC_SIZE: "sint (RERR_CALC_SIZE c) = 4 + 8 * int (unat c)"
proof -
  have "sint (RERR_CALC_SIZE c) = signed_take_bit 31 (int (unat (RERR_CALC_SIZE c)))"
    by (simp add: sint_uint)
  also have "\<dots> = signed_take_bit 31 (int (4 + 8 * m))" if "m = unat c" for m
    using that by (simp only: CALC_SIZE)
  also have "signed_take_bit 31 (int (4 + 8 * m)) = int (4 + 8 * m)" if "m < 256" for m
    by (rule signed_take_bit_int_eq_self) (use that in simp_all)
  finally show ?thesis using unat8_less [of c] by simp
qed

section \<open>What a message says\<close>

text \<open>The destinations a RERR in a buffer lists, as a receiver reads them.\<close>

definition udest_list :: "buffer \<Rightarrow> (u32 \<times> u32) list" where
  "udest_list b = map (\<lambda>k. (peek32 (4 + 8 * k) b, ntohl (peek32 (8 + 8 * k) b))) [0..<unat (b ! 3)]"

lemma run_put_msg:
  "i + length bs \<le> length (send_buf s) \<Longrightarrow>
   run_state (put_msg i bs) s = ((), s\<lparr>send_buf := poke i bs (send_buf s)\<rparr>)"
  by (simp add: put_msg_def)

definition rerr_image :: "u8 \<Rightarrow> u32 \<Rightarrow> u32 \<Rightarrow> buffer" where
  "rerr_image flags dest seqno = poke 3 [1] (poke 8 (le32 (htonl seqno)) (poke 4 (le32 dest) (poke 2 [0]
     (poke 1 [if has flags RERR_NODELETE then 1 else 0] (poke 0 [AODV_RERR] (replicate BUF_SIZE 0))))))"

lemma run_rerr_create: "run_state (rerr_create fl d sq) s = ((), s\<lparr>send_buf := rerr_image fl d sq\<rparr>)"
  by (simp add: rerr_create_def aodv_socket_new_msg_def run_put_msg rerr_image_def)

lemma length_rerr_image [simp]: "length (rerr_image fl d sq) = 1024"
  by (simp add: rerr_image_def)

lemma rerr_image_bytes:
  "rerr_image fl d sq ! 0 = AODV_RERR" "rerr_image fl d sq ! 3 = 1"
  "has (rerr_image fl d sq ! 1) 1 \<longleftrightarrow> has fl RERR_NODELETE"
  by (simp_all add: rerr_image_def nth_poke has_def)

lemma rerr_image_udests: "udest_list (rerr_image fl d sq) = [(d, sq)]"
proof -
  have "peek32 4 (rerr_image fl d sq) = d"
    unfolding rerr_image_def by (simp add: peek32_poke_other peek32_le32)
  moreover have "peek32 8 (rerr_image fl d sq) = htonl sq"
    unfolding rerr_image_def by (simp add: peek32_poke_other peek32_le32)
  ultimately show ?thesis by (simp add: udest_list_def rerr_image_bytes)
qed

definition add_image :: "buffer \<Rightarrow> u32 \<Rightarrow> u32 \<Rightarrow> buffer" where
  "add_image b d sq = poke 3 [b ! 3 + 1] (poke (8 + 8 * unat (b ! 3)) (le32 (htonl sq))
     (poke (4 + 8 * unat (b ! 3)) (le32 d) b))"

lemma run_rerr_add:
  assumes "length (send_buf s) = 1024" and "unat (send_buf s ! 3) \<le> 126"
  shows "run_state (rerr_add_udest d sq) s = ((), s\<lparr>send_buf := add_image (send_buf s) d sq\<rparr>)"
  using assms by (simp add: rerr_add_udest_def run_put_msg CALC_SIZE add_image_def nth_poke add.commute)

lemma add_image_bytes:
  assumes "length b = 1024" and "unat (b ! 3) \<le> 126"
  shows "length (add_image b d sq) = 1024" "add_image b d sq ! 0 = b ! 0" "add_image b d sq ! 1 = b ! 1"
    "unat (add_image b d sq ! 3) = Suc (unat (b ! 3))"
proof -
  have "unat (b ! 3 + 1) = Suc (unat (b ! 3))" using assms(2) by (simp add: unat_word_ariths)
  then show "length (add_image b d sq) = 1024" "add_image b d sq ! 0 = b ! 0" "add_image b d sq ! 1 = b ! 1"
    "unat (add_image b d sq ! 3) = Suc (unat (b ! 3))"
    using assms by (simp_all add: add_image_def nth_poke)
qed

lemma add_image_udests:
  assumes "length b = 1024" and "unat (b ! 3) \<le> 126"
  shows "udest_list (add_image b d sq) = udest_list b @ [(d, sq)]"
proof -
  let ?c = "unat (b ! 3)"
  have "peek32 (4 + 8 * k) (add_image b d sq) = (if k = ?c then d else peek32 (4 + 8 * k) b)"
    "peek32 (8 + 8 * k) (add_image b d sq) = (if k = ?c then htonl sq else peek32 (8 + 8 * k) b)"
    if "k \<le> ?c" for k
    using assms that unfolding add_image_def by (auto simp: peek32_poke_other peek32_le32)
  then show ?thesis using assms by (simp add: udest_list_def add_image_bytes)
qed

section \<open>What it keeps\<close>

text \<open>
  While a RERR is under construction: its count is at least one and at most \<open>k\<close>, so it has not
  outgrown the buffer as long as \<open>k \<le> 127\<close>.
\<close>

definition MSG :: "bool \<Rightarrow> nat \<Rightarrow> obj set \<Rightarrow> nat \<Rightarrow> node \<Rightarrow> bool" where
  "MSG made k L n s \<longleftrightarrow> INV L n s \<and> (made \<longrightarrow> 1 \<le> unat (send_buf s ! 3) \<and> unat (send_buf s ! 3) \<le> k)"

lemma INV_send_buf: "INV L n s \<Longrightarrow> length b = BUF_SIZE \<Longrightarrow> INV L n (s\<lparr>send_buf := b\<rparr>)"
  by (simp add: INV_def wf_def wf_socket_def)

lemma INV_recv_buf: "INV L n s \<Longrightarrow> length b = BUF_SIZE \<Longrightarrow> INV L n (s\<lparr>recv_buf := b\<rparr>)"
  by (simp add: INV_def wf_def wf_socket_def)

lemma MSG_create: "spec (MSG made k L n) (rerr_create fl d sq) (\<lambda>_. MSG True (Suc k) L n)"
  by (rule specI) (auto simp: run_rerr_create MSG_def rerr_image_bytes INV_send_buf)

lemma MSG_add: "k \<le> 126 \<Longrightarrow> spec (MSG True k L n) (rerr_add_udest d sq) (\<lambda>_. MSG True (Suc k) L n)"
  by (rule specI) (use INV_buffers in \<open>fastforce simp: run_rerr_add MSG_def add_image_bytes INV_send_buf\<close>)

lemma MSG_keeps [keeps_rule]:
  "spec (INV L n) m (\<lambda>_. INV L n) \<Longrightarrow> frame bufs m \<Longrightarrow> spec (MSG made k L n) m (\<lambda>_. MSG made k L n)"
  unfolding MSG_def
  by (rule keeps_bufs [where Q = "\<lambda>b _. made \<longrightarrow> 1 \<le> unat (b ! 3) \<and> unat (b ! 3) \<le> k"])

lemma MSG_mono: "MSG made k L n s \<Longrightarrow> k \<le> k' \<Longrightarrow> L' \<subseteq> L \<Longrightarrow> n \<le> n' \<Longrightarrow> MSG made k' L' n' s"
  by (auto simp: MSG_def intro: INV_mono)

lemma MSG_bind_check:
  assumes "n < 2 ^ 32" and none: "spec (MSG made k L n) (f None) Q"
    and some: "\<And>p. spec (MSG made k (insert (Rt p) L) n) (f (Some p)) Q"
  shows "spec (MSG made k L n) (State_Monad.bind (rt_table_check d) f) Q"
proof (rule specI)
  fix s a s' assume m: "MSG made k L n s" and r: "run_state (State_Monad.bind (rt_table_check d) f) s = (a, s')"
  have inv: "INV L n s" using m by (simp add: MSG_def)
  obtain x where x: "run_state (rt_table_check d) s = (x, s)"
    "\<And>p. x = Some p \<longleftrightarrow> (\<exists>e. rts s p = Some e \<and> dest_addr e = d)"
    using run_rt_check [OF inv assms(1)] by blast
  show "Q a s'"
  proof (cases x)
    case None
    then show ?thesis using specD [OF none m, of a s'] r x(1) by simp
  next
    case (Some p)
    then obtain e where "rts s p = Some e" using x(2) by blast
    then have "MSG made k (insert (Rt p) L) n s" using m INV_add_live by (auto simp: MSG_def)
    then show ?thesis using specD [OF some, of p s a s'] r x(1) Some by simp
  qed
qed

lemma MSG_bind_rt_at:
  assumes "Rt p \<in> L" and "\<And>e. entry_ok e \<Longrightarrow> spec (MSG made k L n) (f e) Q"
  shows "spec (MSG made k L n) (State_Monad.bind (rt_at p) f) Q"
proof (rule specI)
  fix s a s' assume m: "MSG made k L n s" and r: "run_state (State_Monad.bind (rt_at p) f) s = (a, s')"
  obtain e where "rts s p = Some e" "entry_ok e" using INV_rt [of L n s p] m assms(1) by (auto simp: MSG_def)
  then show "Q a s'" using specD [OF assms(2), of e s a s'] m r by simp
qed

lemma keeps_get [keeps_rule]:
  "i < BUF_SIZE \<Longrightarrow> spec (INV L n) (get8 i) (\<lambda>_. INV L n)"
  "j + 4 \<le> BUF_SIZE \<Longrightarrow> spec (INV L n) (get32 j) (\<lambda>_. INV L n)"
  unfolding get8_def get32_def
  by (rule keeps_first | rule keeps_rule | simp)+

lemma bufs_get [frame_rule]: "frame bufs (get8 i)" "frame bufs (get32 i)"
  unfolding get8_def get32_def by (auto intro!: frame_rule)

lemma keeps_first_prec [keeps_rule]:
  "entry_ok e \<Longrightarrow> nprecursor e = 1 \<Longrightarrow> spec P (first_prec e) (\<lambda>_. P)"
  unfolding first_prec_def by (cases "precursors e") (auto simp: entry_ok_def spec_return_keep)

lemma mention_keeps:
  assumes "k \<le> 126" and "entry_ok e"
  shows "spec (MSG made k L n) (rerr_mention fl e (made, uni)) (\<lambda>(m, u). MSG m (Suc k) L n)"
proof (cases made)
  case True
  then show ?thesis unfolding rerr_mention_def using assms(1)
    by (auto intro!: spec_bind [OF MSG_add] spec_return)
next
  case False
  have "spec (MSG True (Suc k) L n) (if nprecursor e = 1 then do { u \<leftarrow> first_prec e; return (True, u) }
      else return (True, uni)) (\<lambda>(m, u). MSG m (Suc k) L n)"
    by (auto intro!: spec_return keeps_bind [OF keeps_first_prec] simp: assms(2))
  then show ?thesis unfolding rerr_mention_def using False by (auto intro: spec_bind [OF MSG_create])
qed

lemma bufs_rt_upd: "frame bufs (rt_upd p f)"
  by (rule frame_rule; simp)

text \<open>After \<open>rerr_mention\<close>, or without it, the count may have grown by one.\<close>

lemma bind_mention:
  assumes "k \<le> 126" and "b \<Longrightarrow> entry_ok e" and f: "\<And>m u. spec (MSG m (Suc k) L n) (f (m, u)) Q"
  shows "spec (MSG made k L n) (State_Monad.bind
    (if b then rerr_mention fl e (made, uni) else return (made, uni)) f) Q"
proof (rule spec_bind [where R = "\<lambda>(m, u). MSG m (Suc k) L n"])
  show "spec (MSG made k L n) (if b then rerr_mention fl e (made, uni) else return (made, uni))
      (\<lambda>(m, u). MSG m (Suc k) L n)"
  proof (cases b)
    case True
    then show ?thesis using mention_keeps [OF assms(1)] assms(2) by simp
  next
    case False
    then show ?thesis by (auto intro!: spec_return elim: MSG_mono)
  qed
  show "spec ((\<lambda>(m, u). MSG m (Suc k) L n) a) (f a) Q" for a
    using f by (cases a) simp
qed

lemma MSG_return [keeps_rule]:
  "MSG made k L n \<le> MSG made k' L' n' \<Longrightarrow> spec (MSG made k L n) (return (made, u)) (\<lambda>(m, u). MSG m k' L' n')"
  by (rule spec_return) auto

lemma MSG_le: "k \<le> k' \<Longrightarrow> L' \<subseteq> L \<Longrightarrow> n \<le> n' \<Longrightarrow> MSG made k L n \<le> MSG made k' L' n'"
  by (auto intro: MSG_mono)

lemma rerr_udest_keeps:
  assumes "n < 2 ^ 32" and "k \<le> 126" and "off + 8 \<le> BUF_SIZE"
  shows "spec (MSG made k L n) (rerr_udest off src (made, uni)) (\<lambda>(m, u). MSG m (Suc k) L n)"
  unfolding rerr_udest_def rerr_lost_def prod.case
  by (insert assms)
    (rule MSG_bind_check | rule MSG_bind_rt_at | rule bind_mention | rule keeps_bind
      | rule keeps_rule | rule frame_rule | rule MSG_le | rule subset_insertI | simp)+

lemma recv_of_bufs: "frame bufs m \<Longrightarrow> frame recv_buf m"
  by (simp add: frame_def)

lemma recv_put_msg [frame_rule]: "frame recv_buf (put_msg i bs)" "frame recv_buf aodv_socket_new_msg"
  unfolding put_msg_def aodv_socket_new_msg_def by (auto intro!: frame_rule)

lemma recv_rerr [frame_rule]:
  "frame recv_buf (rerr_create fl d sq)" "frame recv_buf (rerr_add_udest d sq)" "frame recv_buf (first_prec e)"
  unfolding rerr_create_def rerr_add_udest_def first_prec_def crash_def
  by (auto intro!: frame_rule)

lemma recv_mention [frame_rule]: "frame recv_buf (rerr_mention fl e acc)"
  unfolding rerr_mention_def by (auto intro!: frame_rule split: prod.splits)

lemma recv_udest: "frame recv_buf (rerr_udest off src acc)"
  unfolding rerr_udest_def rerr_lost_def Let_def
  by (auto intro!: recv_rerr recv_mention frame_bind frame_only_if frame_case_option frame_if
      frame_return recv_of_bufs [OF bufs_table(1)] recv_of_bufs [OF bufs_get(1)] recv_of_bufs [OF bufs_get(2)]
      recv_of_bufs [OF bufs_table_ops(2)] recv_of_bufs [OF bufs_table_ops(4)] recv_of_bufs [OF bufs_rt_upd]
      frame_heap split: prod.splits)

lemma run_set_recv:
  "i + length bs \<le> length (recv_buf s) \<Longrightarrow>
   run_state (set_recv i bs) s = ((), s\<lparr>recv_buf := poke i bs (recv_buf s)\<rparr>)"
  by (simp add: set_recv_def)

lemma run_get8: "i < length (recv_buf s) \<Longrightarrow> run_state (get8 i) s = (recv_buf s ! i, s)"
  by (simp add: get8_def)

lemma run_get32: "i + 4 \<le> length (recv_buf s) \<Longrightarrow> run_state (get32 i) s = (peek32 i (recv_buf s), s)"
  by (simp add: get32_def)

lemma MSG_INV: "MSG made k L n s \<Longrightarrow> INV L n s"
  by (simp add: MSG_def)

lemma rerr_udests_keeps:
  assumes "n < 2 ^ 32"
  shows "k + c \<le> 127 \<Longrightarrow> off + 8 * c \<le> BUF_SIZE \<Longrightarrow>
    spec (\<lambda>s. MSG made k L n s \<and> unat (recv_buf s ! 3) = c) (rerr_udests fuel off src (made, uni))
      (\<lambda>(m, u). MSG m 127 L n)"
proof (induction fuel arbitrary: k c off made uni)
  case 0
  then show ?case by (auto intro!: spec_return elim: MSG_mono)
next
  case (Suc fuel)
  show ?case
  proof (rule specI, elim conjE)
    fix s a s' assume m: "MSG made k L n s" and c: "unat (recv_buf s ! 3) = c"
      and r: "run_state (rerr_udests (Suc fuel) off src (made, uni)) s = (a, s')"
    have len: "length (recv_buf s) = 1024" using INV_buffers [OF MSG_INV [OF m]] by simp
    show "(case a of (m, u) \<Rightarrow> MSG m 127 L n) s'"
    proof (cases "recv_buf s ! 3 = 0")
      case True
      then show ?thesis using r m len Suc.prems by (auto simp: run_get8 elim: MSG_mono)
    next
      case False
      then have c0: "0 < c" using c unat_gt_0 by blast
      obtain m1 u1 s1 where b: "run_state (rerr_udest off src (made, uni)) s = ((m1, u1), s1)"
        by (metis surj_pair)
      have "MSG m1 (Suc k) L n s1"
        using specD [OF rerr_udest_keeps [OF assms] m b] Suc.prems c0 by simp
      moreover have rb: "recv_buf s1 = recv_buf s" using frameD [OF recv_udest] b by (metis snd_conv)
      moreover define s2 where "s2 = s1\<lparr>recv_buf := poke 3 [recv_buf s ! 3 - 1] (recv_buf s)\<rparr>"
      ultimately have m2: "MSG m1 (Suc k) L n s2"
        using len by (simp add: MSG_def INV_recv_buf)
      have c2: "unat (recv_buf s2 ! 3) = c - 1"
        using c False len by (simp add: s2_def nth_poke unat_minus_one)
      have "run_state (rerr_udests fuel (off + 8) src (m1, u1)) s2 = (a, s')"
        using r b False len rb by (simp add: run_get8 run_set_recv s2_def)
      moreover have "Suc k + (c - 1) \<le> 127" "off + 8 + 8 * (c - 1) \<le> BUF_SIZE"
        using Suc.prems c0 by (cases c; simp)+
      ultimately show ?thesis using specD [OF Suc.IH [where k = "Suc k" and c = "c - 1" and off = "off + 8" and made = m1 and uni = u1]] m2 c2 by blast
    qed
  qed
qed

lemma MSG_start: "INV L n s \<Longrightarrow> MSG False 0 L n s"
  by (simp add: MSG_def)

lemma MSG_send_size:
  assumes m: "MSG True 127 L n s"
  shows "INV L n (snd (run_state (aodv_socket_send d (unat (RERR_CALC_SIZE (send_buf s ! 3))) 1) s))"
proof -
  have "unat (RERR_CALC_SIZE (send_buf s ! 3)) \<le> 1024" using m by (simp add: MSG_def CALC_SIZE)
  then show ?thesis by (rule spec_snd [OF keeps_socket_send MSG_INV [OF m]])
qed

lemma MSG_finish:
  assumes "n < 2 ^ 32" shows "spec (MSG made 127 L n) (rerr_finish made uni) (\<lambda>_. INV L n)"
proof (rule specI)
  fix s a s' assume m: "MSG made 127 L n s" and r: "run_state (rerr_finish made uni) s = (a, s')"
  obtain x where "run_state (rt_table_check uni) s = (x, s)" using run_rt_check [OF MSG_INV [OF m] assms] by blast
  then show "INV L n s'" using r MSG_send_size [of L n s uni] MSG_send_size [of L n s AODV_BROADCAST] m MSG_INV [OF m]
    by (cases x; cases made) (auto simp: rerr_finish_def split: if_splits)
qed

theorem keeps_rerr_process [keeps_rule]:
  assumes "n < 2 ^ 32" and "len \<le> int BUF_SIZE"
  shows "spec (INV L n) (rerr_process len src dst) (\<lambda>_. INV L n)"
proof (rule specI)
  fix s a s' assume inv: "INV L n s" and r: "run_state (rerr_process len src dst) s = (a, s')"
  let ?c = "recv_buf s ! 3"
  have lb: "length (recv_buf s) = 1024" using INV_buffers [OF inv] by simp
  show "INV L n s'"
  proof (cases "len < 4 + 8 * int (unat ?c)")
    case True
    then show ?thesis using r inv lb by (simp add: rerr_process_def run_get8 sint_CALC_SIZE)
  next
    case False
    then have c: "4 + 8 * unat ?c \<le> 1024" using assms(2) by linarith
    obtain m1 u1 s1 where b: "run_state (rerr_udests 255 4 src (False, 0)) s = ((m1, u1), s1)"
      by (metis surj_pair)
    have "MSG m1 127 L n s1"
      using specD [OF rerr_udests_keeps [OF assms(1), where k = 0 and c = "unat ?c" and off = 4 and made = False and uni = 0 and L = L and fuel = 255 and src = src], where s = s and a = "(m1, u1)" and s' = s1]
        c b MSG_start [OF inv] by simp
    then show ?thesis using specD [OF MSG_finish [OF assms(1), of m1 L u1], of s1 a s'] r b False lb
      by (simp add: rerr_process_def run_get8 sint_CALC_SIZE)
  qed
qed

section \<open>Properties\<close>

lemma adds_image:
  "length (send_buf s) = 1024 \<Longrightarrow> unat (send_buf s ! 3) + length us \<le> 127 \<Longrightarrow>
   \<exists>b. run_state (for_each (\<lambda>(d, q). rerr_add_udest d q) us) s = ((), s\<lparr>send_buf := b\<rparr>)
     \<and> length b = 1024 \<and> udest_list b = udest_list (send_buf s) @ us
     \<and> unat (b ! 3) = unat (send_buf s ! 3) + length us \<and> b ! 0 = send_buf s ! 0 \<and> b ! 1 = send_buf s ! 1"
proof (induction us arbitrary: s)
  case Nil
  then show ?case by (intro exI [of _ "send_buf s"]) simp
next
  case (Cons u us)
  obtain d q where u: "u = (d, q)" by force
  let ?s1 = "s\<lparr>send_buf := add_image (send_buf s) d q\<rparr>"
  have c: "unat (send_buf s ! 3) \<le> 126" using Cons.prems by simp
  note im = add_image_bytes [OF Cons.prems(1) c, of d q] add_image_udests [OF Cons.prems(1) c, of d q]
  obtain b where "run_state (for_each (\<lambda>(d, q). rerr_add_udest d q) us) ?s1 = ((), ?s1\<lparr>send_buf := b\<rparr>)"
    and "length b = 1024" and "udest_list b = udest_list (send_buf ?s1) @ us"
    and "unat (b ! 3) = unat (send_buf ?s1 ! 3) + length us"
    and "b ! 0 = send_buf ?s1 ! 0" and "b ! 1 = send_buf ?s1 ! 1"
    using Cons.IH [of ?s1] Cons.prems im by auto
  then show ?case using u im run_rerr_add [OF Cons.prems(1) c, of d q] by (intro exI [of _ b]) simp
qed

text \<open>
  C36: a RERR round trip. After \<^verbatim>\<open>rerr_create\<close> for one destination and
  \<^verbatim>\<open>rerr_add_udest\<close> for up to 126 more, the message in the send buffer is a RERR whose
  destinations and sequence numbers, read as a receiver reads them, are exactly these in order;
  \<^verbatim>\<open>RERR_CALC_SIZE\<close> covers them, and no byte outside the buffer is written.
\<close>

theorem rerr_roundtrip:
  assumes "length us \<le> 126"
  shows "let s' = snd (run_state (do { rerr_create fl d sq; for_each (\<lambda>(d, q). rerr_add_udest d q) us }) s) in
    send_buf s' ! 0 = AODV_RERR \<and> (has (send_buf s' ! 1) 1 \<longleftrightarrow> has fl RERR_NODELETE)
    \<and> udest_list (send_buf s') = (d, sq) # us
    \<and> unat (RERR_CALC_SIZE (send_buf s' ! 3)) = 4 + 8 * Suc (length us) \<and> fault s' = fault s"
proof -
  let ?s1 = "s\<lparr>send_buf := rerr_image fl d sq\<rparr>"
  obtain b where "run_state (for_each (\<lambda>(d, q). rerr_add_udest d q) us) ?s1 = ((), ?s1\<lparr>send_buf := b\<rparr>)"
    "udest_list b = udest_list (rerr_image fl d sq) @ us" "unat (b ! 3) = 1 + length us"
    "b ! 0 = rerr_image fl d sq ! 0" "b ! 1 = rerr_image fl d sq ! 1"
    using adds_image [of ?s1 us] assms by (auto simp: rerr_image_bytes)
  then show ?thesis
    using rerr_image_bytes(3) [of fl d sq] by (simp add: run_rerr_create rerr_image_bytes(1,2) rerr_image_udests CALC_SIZE)
qed

theorem rerr_roundtrip_witness:
  "udest_list (send_buf (snd (run_state (do { rerr_create 0 10 3; for_each (\<lambda>(d, q). rerr_add_udest d q) [(11, 7)] }) node0)))
     = [(10, 3), (11, 7)]"
  using rerr_roundtrip [of "[(11, 7)]" 0 10 3 node0] by (simp add: Let_def)

text \<open>
  C37: the limit of that. The 128th destination does not fit: \<^verbatim>\<open>rerr_add_udest\<close> does not
  test the count, and from 127 destinations on it writes past the 1024 bytes of the send buffer.
\<close>

theorem rerr_add_udest_overflow:
  assumes "length (send_buf s) = BUF_SIZE" and "127 \<le> unat (send_buf s ! 3)"
  shows "fault (snd (run_state (rerr_add_udest d sq) s))"
  using assms by (simp add: rerr_add_udest_def put_msg_def CALC_SIZE case_prod_beta)

theorem rerr_add_udest_overflow_witness:
  "fault (snd (run_state (rerr_add_udest 10 3) (node0\<lparr>send_buf := (replicate 1024 0)[3 := 127]\<rparr>)))"
  using rerr_add_udest_overflow [of "node0\<lparr>send_buf := (replicate 1024 0)[3 := 127]\<rparr>"] by simp

lemma rts_put [frame_rule]: "frame rts (put_msg i bs)" "frame rts aodv_socket_new_msg"
  "frame rts (rerr_create fl d sq)" "frame rts (rerr_add_udest d sq)" "frame rts (first_prec e)"
  unfolding put_msg_def aodv_socket_new_msg_def rerr_create_def rerr_add_udest_def first_prec_def
  by (auto intro!: frame_rule simp: crash_def split: list.split)

lemma rts_mention [frame_rule]: "frame rts (rerr_mention fl e acc)"
  unfolding rerr_mention_def by (auto intro!: frame_rule split: prod.split)


lemma rerr_lost_rts:
  assumes h: "h rt = Some e" and ok: "entry_ok e" and v: "rt_state e = VALID"
  shows "spec (\<lambda>s. rts s = h) (rerr_lost rt sq n acc) (\<lambda>_ s. rts s = h(rt \<mapsto>
      if has n 1 then e\<lparr>dest_seqno := sq\<rparr>
      else e\<lparr>rt_state := INVALID, hello_cnt := 0, dest_seqno := sq, last_hello_time := zero_time,
        precursors := [], nprecursor := 0\<rparr>))"
proof (cases "has n 1")
  case True
  show ?thesis unfolding rerr_lost_def
    apply (simp only: only_if_def True not_True_eq_False if_False if_True)
    apply (rule bind_return)
    apply (rule table_upd, rule h)
    apply (rule table_at, rule fun_upd_same)
    apply (rule table_keep, intro frame_if frame_rule)
    by (simp add: spec_def v)
next
  case False
  let ?e1 = "e\<lparr>rt_state := INVALID, hello_cnt := 0, dest_seqno := seqno_incr (dest_seqno e),
        last_hello_time := zero_time\<rparr>"
  let ?e2 = "?e1\<lparr>dest_seqno := sq\<rparr>"
  have ok2: "entry_ok ?e2" using ok by simp
  have inv: "spec (\<lambda>s. rts s = h) (rt_table_invalidate (Some rt)) (\<lambda>_ s. rts s = h(rt \<mapsto> ?e1))"
    by (rule spec_post [OF invalidate_valid [where h = h, OF h]]) (use v in simp_all)
  have destroy: "spec (\<lambda>s. rts s = h(rt \<mapsto> ?e2)) (do { precursor_list_destroy (Some rt); return acc })
      (\<lambda>_ s. rts s = h(rt \<mapsto> ?e2\<lparr>precursors := [], nprecursor := 0\<rparr>))" for acc :: "bool \<times> u32"
    using run_precursor_list_destroy [OF _ ok2, of _ rt] by (auto simp: spec_def)
  have st: "rt_state ?e2 = INVALID" by simp
  have eq: "?e2\<lparr>precursors := [], nprecursor := 0\<rparr> = e\<lparr>rt_state := INVALID, hello_cnt := 0, dest_seqno := sq,
      last_hello_time := zero_time, precursors := [], nprecursor := 0\<rparr>" by (cases e) simp
  show ?thesis unfolding rerr_lost_def
    apply (simp only: only_if_def False not_False_eq_True if_False if_True)
    apply (rule bind_assoc, rule spec_bind [OF inv], rule bind_return)
    apply (rule table_upd, rule fun_upd_same)
    apply (rule table_at, rule fun_upd_same)
    apply (rule table_keep, intro frame_if frame_rule)
    using destroy by (simp only: fun_upd_upd eq st if_True simp_thms)
qed

text \<open>
  C17: one destination of a received RERR. Only a valid route through the sender, whose sequence
  number is not greater than the one reported, is affected, and no other entry: it takes the
  reported sequence number, and unless the RERR has the N flag it becomes invalid and loses its
  precursors. In every other case nothing at all changes.
\<close>

theorem rerr_udest_effect:
  assumes w: "wf s" and n: "length (all_rts (tbl s)) < 2 ^ 32" and off: "off + 8 \<le> length (recv_buf s)"
    and e: "rts s rt = Some e" and d: "dest_addr e = peek32 off (recv_buf s)"
  shows "let s' = snd (run_state (rerr_udest off ip_src acc) s); sq = ntohl (peek32 (off + 4) (recv_buf s)) in
    if rt_state e = VALID \<and> next_hop e = ip_src \<and> \<not> seqno_gt (dest_seqno e) sq
    then rts s' = (rts s)(rt \<mapsto> if has (recv_buf s ! 1) 1 then e\<lparr>dest_seqno := sq\<rparr>
      else e\<lparr>rt_state := INVALID, hello_cnt := 0, dest_seqno := sq, last_hello_time := zero_time,
        precursors := [], nprecursor := 0\<rparr>)
    else s' = s"
proof -
  obtain r where "run_state (rt_table_check (peek32 off (recv_buf s))) s = (r, s)" "r = Some rt"
    using run_rt_check [OF wf_INV [OF w] n, of "peek32 off (recv_buf s)"] e d by blast
  then have c: "run_state (rt_table_check (peek32 off (recv_buf s))) s = (Some rt, s)" by simp
  have g: "run_state (get32 off) s = (peek32 off (recv_buf s), s)"
    "run_state (get32 (off + 4)) s = (peek32 (off + 4) (recv_buf s), s)"
    "run_state (get8 1) s = (recv_buf s ! 1, s)"
    using off by (simp_all add: run_get32 run_get8)
  have ok: "entry_ok e" by (rule table_entry_ok [OF INV_table [OF wf_INV [OF w]] e])
  let ?sq = "ntohl (peek32 (off + 4) (recv_buf s))"
  show ?thesis
  proof (cases "rt_state e = VALID \<and> next_hop e = ip_src \<and> \<not> seqno_gt (dest_seqno e) ?sq")
    case True
    then have v: "rt_state e = VALID" by simp
    note lost = spec_snd [OF rerr_lost_rts [where h = "rts s", OF e ok v], of s ?sq "recv_buf s ! 1" acc, OF refl]
    show ?thesis using True c g e lost by (simp add: rerr_udest_def Let_def)
  next
    case False
    then show ?thesis using c g e by (auto simp: rerr_udest_def Let_def)
  qed
qed

theorem rerr_udest_effect_witness:
  "map_option rt_state (rts (snd (run_state (rerr_udest 4 10 (False, 0))
     (one_route\<lparr>recv_buf := poke 8 (le32 (htonl 6)) (poke 4 (le32 10) (replicate 1024 0))\<rparr>))) 0) = Some INVALID"
proof -
  let ?b = "poke 8 (le32 (htonl 6)) (poke 4 (le32 10) (replicate 1024 0))"
  let ?s = "one_route\<lparr>recv_buf := ?b\<rparr>"
  have "wf ?s" using one_route_simps(1) by (simp add: wf_def wf_socket_def)
  moreover have "peek32 4 ?b = 10" "peek32 8 ?b = htonl 6" "?b ! 1 = 0"
    by (simp_all add: peek32_poke_other peek32_le32 nth_poke)
  ultimately show ?thesis
    using rerr_udest_effect [of ?s 4 0 "new_entry 10 10 1 5 VALID 0" 10 "(False, 0)"] one_route_simps(3)
    by (simp add: one_route_simps(2) Let_def) (simp add: new_entry_def seqno_gt_def has_def)
qed

end
