(* ===== verification/Neighbor.thy ===== *)
theory Neighbor
  imports Rerr
begin

text \<open>
  \<^verbatim>\<open>aodv_neighbor.c\<close>, \<^verbatim>\<open>rt_table_update\<close> of \<^verbatim>\<open>routing_table.c\<close> and
  \<^verbatim>\<open>hello_update_timeout\<close>: what happens when a neighbour is heard or lost. Losing one
  invalidates every route through it and reports them in one RERR, built in
  \<^verbatim>\<open>send_buf\<close>; it fits while the table has at most 126 entries.
\<close>

section \<open>Operations\<close>

definition hello_update_timeout :: "ptr \<Rightarrow> timeval \<Rightarrow> int \<Rightarrow> unit daemon" where
  "hello_update_timeout rt now time = do {
     timer_set_timeout (Hello_timer rt) (time + HELLO_DELAY);
     rt_upd rt (\<lambda>e. e\<lparr>last_hello_time := now\<rparr>) }"

text \<open>The body of the loop of \<^verbatim>\<open>neighbor_link_break\<close> for the entry \<open>rt_u\<close>.\<close>

definition link_break_entry :: "ptr \<Rightarrow> ptr \<Rightarrow> bool \<times> u32 \<Rightarrow> (bool \<times> u32) daemon" where
  "link_break_entry rt rt_u acc = do {
     ue \<leftarrow> rt_at rt_u;
     e \<leftarrow> rt_at rt;
     if \<not> (rt_state ue = VALID \<and> next_hop ue = dest_addr e \<and> dest_addr ue \<noteq> dest_addr e) then return acc
     else if has (rt_flags e) RT_REPAIR \<and> int (unat (hopcnt ue)) \<le> MAX_REPAIR_TTL then do {
       rt_upd rt_u (\<lambda>e. e\<lparr>rt_flags := rt_flags e OR RT_REPAIR\<rparr>);
       rt_table_invalidate (Some rt_u);
       return acc }
     else do {
       rt_table_invalidate (Some rt_u);
       ue \<leftarrow> rt_at rt_u;
       acc \<leftarrow> (if nprecursor ue \<noteq> 0 then rerr_mention 0 ue acc else return acc);
       precursor_list_destroy (Some rt_u);
       return acc } }"

text \<open>
  The last part sends the RERR. The code looks the unicast destination up but then tests
  the pointer of the broken link, which is not \<^verbatim>\<open>NULL\<close>, so the result is not used.
\<close>

definition link_break_send :: "bool \<Rightarrow> u32 \<Rightarrow> unit daemon" where
  "link_break_send made uni = only_if made (do {
     c \<leftarrow> reads (\<lambda>s. send_buf s ! 3);
     if uni \<noteq> 0 then do {
       rt_u \<leftarrow> rt_table_check uni;
       aodv_socket_send uni (unat (RERR_CALC_SIZE c)) 1 }
     else aodv_socket_send AODV_BROADCAST (unat (RERR_CALC_SIZE c)) 1 })"

definition link_break_bucket :: "ptr \<Rightarrow> nat \<Rightarrow> bool \<times> u32 \<Rightarrow> (bool \<times> u32) daemon" where
  "link_break_bucket rt i acc = do {
     ps \<leftarrow> reads (\<lambda>s. tbl s i);
     fold_each (link_break_entry rt) ps acc }"

definition neighbor_link_break :: "ptr option \<Rightarrow> unit daemon" where
  "neighbor_link_break x = (case x of
       None \<Rightarrow> return ()
     | Some rt \<Rightarrow> do {
         e \<leftarrow> rt_at rt;
         if hopcnt e \<noteq> 1 then return ()
         else do {
           rt_table_invalidate (Some rt);
           e \<leftarrow> rt_at rt;
           acc \<leftarrow> (if nprecursor e \<noteq> 0 \<and> \<not> has (rt_flags e) RT_REPAIR then rerr_mention 0 e (False, 0)
                   else return (False, 0));
           only_if (\<not> has (rt_flags e) RT_REPAIR) (precursor_list_destroy (Some rt));
           (made, uni) \<leftarrow> fold_each (link_break_bucket rt) [0..<RT_TABLESIZE] acc;
           link_break_send made uni } })"

text \<open>
  \<^verbatim>\<open>rt_table_update\<close>, in parts: the kernel is told (the flags lose
  \<^verbatim>\<open>RT_REPAIR\<close> when the route becomes valid), a neighbour that moved away is given up,
  the fields are set.
\<close>

definition update_announce :: "rt_entry \<Rightarrow> int \<Rightarrow> u32 \<Rightarrow> u32 \<Rightarrow> u32 \<Rightarrow> u8 \<Rightarrow> u8 \<Rightarrow> u8 daemon" where
  "update_announce e ifindex next hops lifetime st flags =
     (if rt_state e = INVALID \<and> st = VALID then do {
        modify (\<lambda>s. s\<lparr>num_active := num_active s + 1\<rparr>);
        let flags = (if has (rt_flags e) RT_REPAIR then flags AND NOT RT_REPAIR else flags);
        nl_send_add_route_msg (dest_addr e) next hops lifetime flags ifindex;
        return flags }
      else if next_hop e \<noteq> 0 \<and> next_hop e \<noteq> next then do {
        nl_send_add_route_msg (dest_addr e) next hops lifetime flags ifindex;
        return flags }
      else return flags)"

definition update_fields :: "ptr \<Rightarrow> u32 \<Rightarrow> u32 \<Rightarrow> u32 \<Rightarrow> u32 \<Rightarrow> u32 \<Rightarrow> u8 \<Rightarrow> u8 \<Rightarrow> unit daemon" where
  "update_fields rt dest next hops seqno lifetime st flags = do {
     rt_upd rt (\<lambda>e. e\<lparr>rt_flags := flags, dest_seqno := seqno, next_hop := next, hopcnt := ucast hops\<rparr>);
     set_rt_handler rt Route_expire_timeout;
     only_if (\<not> has flags RT_INET_DEST)
       (do { rt_table_update_timeout (Some rt) lifetime; return () });
     rt_upd rt (\<lambda>e. e\<lparr>rt_state := st\<rparr>);
     only_if (st = VALID)
       (do { sk \<leftarrow> seek_list_check dest; seek_list_remove sk; return () }) }"

definition rt_table_update :: "ptr \<Rightarrow> u32 \<Rightarrow> u32 \<Rightarrow> u32 \<Rightarrow> u32 \<Rightarrow> u8 \<Rightarrow> u8 \<Rightarrow> ptr daemon" where
  "rt_table_update rt next hops seqno lifetime st flags = do {
     e \<leftarrow> rt_at rt;
     ifindex \<leftarrow> reads dev_ifindex;
     flags \<leftarrow> update_announce e ifindex next hops lifetime st flags;
     only_if (hops > 1 \<and> hopcnt e = 1) (do {
       rt_upd rt (\<lambda>e. e\<lparr>last_hello_time := zero_time, hello_cnt := 0\<rparr>);
       timer_remove (Hello_timer rt);
       neighbor_link_break (Some rt) });
     update_fields rt (dest_addr e) next hops seqno lifetime st flags;
     return rt }"

definition neighbor_add :: "u32 \<Rightarrow> unit daemon" where
  "neighbor_add src = do {
     now \<leftarrow> gettimeofday;
     r \<leftarrow> rt_table_check src;
     art \<leftarrow> reads (\<lambda>s. of_int (active_route_timeout s));
     x \<leftarrow> (case r of
         None \<Rightarrow> do { p \<leftarrow> rt_table_insert src src 1 0 art VALID 0; rt \<leftarrow> deref p; return (Some rt) }
       | Some rt \<Rightarrow> do {
           e \<leftarrow> rt_at rt;
           if has (rt_flags e) RT_UNIDIR then return None
           else do {
             rt_table_update rt src 1 (dest_seqno e) art VALID (rt_flags e);
             return (Some rt) } });
     case x of None \<Rightarrow> return ()
     | Some rt \<Rightarrow> do {
         used \<leftarrow> hello_timer_used rt;
         only_if used (hello_update_timeout rt now (ALLOWED_HELLO_LOSS * HELLO_INTERVAL)) } }"

section \<open>Losing a neighbour\<close>

lemma frame_tbl_timer [frame_rule]:
  "frame tbl (upd_timer t g)" "frame tbl (timer_remove t)" "frame tbl (timer_add t)"
  unfolding timer_remove_def timer_add_def upd_timer_def by (auto intro!: frame_rule)

lemma frame_tbl_timer_set [frame_rule]: "frame tbl (timer_set_timeout t m)" "frame tbl (set_rt_handler p h)"
  unfolding timer_set_timeout_def set_rt_handler_def by (auto intro!: frame_rule)

lemma frame_tbl_nl [frame_rule]: "frame tbl (nl_send_del_route_msg d nh m)"
  using tbl_stays [OF tbl_free_nl_del] by (simp add: frame_def)

lemma frame_tbl_put [frame_rule]: "frame tbl (put_msg i bs)" "frame tbl aodv_socket_new_msg"
  unfolding put_msg_def aodv_socket_new_msg_def by (auto intro!: frame_rule)

lemma frame_tbl_rerr [frame_rule]:
  "frame tbl (rerr_create fl d sq)" "frame tbl (rerr_add_udest d sq)" "frame tbl (first_prec e)"
  unfolding rerr_create_def rerr_add_udest_def first_prec_def crash_def Let_def by (auto intro!: frame_rule)

lemma frame_tbl_mention [frame_rule]: "frame tbl (rerr_mention fl e acc)"
  unfolding rerr_mention_def by (auto intro!: frame_rule split: prod.splits)

lemma frame_tbl_invalidate [frame_rule]:
  "frame tbl (rt_table_invalidate x)" "frame tbl (precursor_list_destroy x)"
  unfolding rt_table_invalidate_def precursor_list_destroy_def by (auto intro!: frame_rule)

lemma frame_tbl_entry: "frame tbl (link_break_entry rt u acc)"
  unfolding link_break_entry_def by (auto intro!: frame_rule)

lemma link_break_entry_keeps:
  assumes "k \<le> 126" and "Rt rt \<in> L" and "Rt u \<in> L"
  shows "spec (MSG made k L n) (link_break_entry rt u (made, uni)) (\<lambda>(m, u). MSG m (Suc k) L n)"
  unfolding link_break_entry_def
  by (insert assms)
    (rule MSG_bind_rt_at | rule bind_mention | rule keeps_bind
      | rule keeps_rule | rule frame_rule | rule MSG_le | simp)+

lemma link_break_entries_keep:
  assumes "Rt rt \<in> L"
  shows "k + length ps \<le> 127 \<Longrightarrow> Rt ` set ps \<subseteq> L \<Longrightarrow>
    spec (MSG made k L n) (fold_each (link_break_entry rt) ps (made, uni))
      (\<lambda>(m, u). MSG m (k + length ps) L n)"
proof (induction ps arbitrary: k made uni)
  case Nil
  then show ?case by (auto intro!: spec_return)
next
  case (Cons p ps)
  have "spec (MSG made k L n) (link_break_entry rt p (made, uni)) (\<lambda>(m, u). MSG m (Suc k) L n)"
    using Cons.prems by (intro link_break_entry_keeps assms) auto
  moreover have "spec (MSG m (Suc k) L n) (fold_each (link_break_entry rt) ps (m, u))
      (\<lambda>(m, u). MSG m (k + length (p # ps)) L n)" for m u
    using Cons.IH [of "Suc k" m u] Cons.prems by simp
  ultimately show ?case by (auto intro: spec_bind_pair)
qed

text \<open>The buckets one after the other; \<open>tb\<close> is the table, which the loop does not change.\<close>

lemma link_break_buckets_keep:
  assumes "Rt rt \<in> L"
  shows "k + length (concat (map tb ix)) \<le> 127 \<Longrightarrow> Rt ` set (concat (map tb ix)) \<subseteq> L \<Longrightarrow>
    spec (\<lambda>s. MSG made k L n s \<and> tbl s = tb) (fold_each (link_break_bucket rt) ix (made, uni))
      (\<lambda>(m, u) s. MSG m 127 L n s)"
proof (induction ix arbitrary: k made uni)
  case Nil
  then show ?case by (auto intro!: spec_return elim: MSG_mono)
next
  case (Cons i ix)
  have step: "spec (\<lambda>s. MSG made k L n s \<and> tbl s = tb) (link_break_bucket rt i (made, uni))
      (\<lambda>(m, u) s. MSG m (k + length (tb i)) L n s \<and> tbl s = tb)"
  proof (rule specI, elim conjE)
    fix s a s' assume m: "MSG made k L n s" and t: "tbl s = tb"
      and r: "run_state (link_break_bucket rt i (made, uni)) s = (a, s')"
    have r': "run_state (fold_each (link_break_entry rt) (tb i) (made, uni)) s = (a, s')"
      using r t by (simp add: link_break_bucket_def)
    have "(case a of (m, u) \<Rightarrow> MSG m (k + length (tb i)) L n) s'"
      using specD [OF link_break_entries_keep [OF assms] m r'] Cons.prems by auto
    moreover have "tbl s' = tb"
    proof -
      have "frame tbl (fold_each (link_break_entry rt) (tb i) (made, uni))"
        by (rule frame_fold_each) (rule frame_tbl_entry)
      then show ?thesis using frameD [of tbl _ s] r' t by fastforce
    qed
    ultimately show "(case a of (m, u) \<Rightarrow> \<lambda>s. MSG m (k + length (tb i)) L n s \<and> tbl s = tb) s'"
      by (cases a) simp
  qed
  have "spec ((\<lambda>(m, u) s. MSG m (k + length (tb i)) L n s \<and> tbl s = tb) acc)
      (fold_each (link_break_bucket rt) ix acc) (\<lambda>(m, u) s. MSG m 127 L n s)" for acc
    using Cons.IH [of "k + length (tb i)" "fst acc" "snd acc"] Cons.prems by (cases acc) (simp add: image_Un)
  then show ?case by (simp add: spec_bind [OF step])
qed

lemma MSG_link_break_send:
  assumes "n < 2 ^ 32" shows "spec (MSG made 127 L n) (link_break_send made uni) (\<lambda>_. INV L n)"
proof (rule specI)
  fix s a s' assume m: "MSG made 127 L n s" and r: "run_state (link_break_send made uni) s = (a, s')"
  obtain x where "run_state (rt_table_check uni) s = (x, s)" using run_rt_check [OF MSG_INV [OF m] assms] by blast
  then show "INV L n s'" using r MSG_send_size [of L n s uni] MSG_send_size [of L n s AODV_BROADCAST] m MSG_INV [OF m]
    by (cases made) (auto simp: link_break_send_def split: if_splits)
qed

text \<open>
  While the table is walked every entry is held: \<open>L\<close> is extended by all of them, which the
  invariant allows at any time.
\<close>

lemma INV_all_rts:
  assumes "INV L n s" shows "INV (Rt ` set (all_rts (tbl s)) \<union> L) n s"
proof -
  have "set (all_rts (tbl s)) = dom (rts s)" using INV_table [OF assms] by (simp add: wf_table_def)
  then show ?thesis using assms by (auto simp: INV_def objs_def)
qed

lemma INV_size: "INV L n s \<Longrightarrow> length (all_rts (tbl s)) \<le> n"
  by (simp add: INV_def)

lemma link_break_loop_keeps:
  assumes "n \<le> 126" and "Rt rt \<in> L"
  shows "spec (MSG made (Suc 0) L n) (do {
      (made, uni) \<leftarrow> fold_each (link_break_bucket rt) [0..<RT_TABLESIZE] (made, uni);
      link_break_send made uni }) (\<lambda>_. INV L n)"
proof (rule specI)
  fix s a s' assume m: "MSG made (Suc 0) L n s" and r: "run_state (do {
      (made, uni) \<leftarrow> fold_each (link_break_bucket rt) [0..<RT_TABLESIZE] (made, uni);
      link_break_send made uni }) s = (a, s')"
  let ?L = "Rt ` set (all_rts (tbl s)) \<union> L"
  have m': "MSG made (Suc 0) ?L n s" using m INV_all_rts by (auto simp: MSG_def)
  obtain m1 u1 s1 where b: "run_state (fold_each (link_break_bucket rt) [0..<RT_TABLESIZE] (made, uni)) s = ((m1, u1), s1)"
    by (metis surj_pair)
  have len: "1 + length (all_rts (tbl s)) \<le> 127" using INV_size [OF MSG_INV [OF m]] assms(1) by simp
  have "MSG m1 127 ?L n s1"
    using specD [OF link_break_buckets_keep [where tb = "tbl s" and ix = "[0..<64]" and k = "Suc 0"], OF _ _ _ _ b]
      assms(2) len m' by (simp add: all_rts_def)
  moreover have "n < 2 ^ 32" using assms(1) by simp
  ultimately have "INV ?L n s'" using specD [OF MSG_link_break_send] r b by simp
  then show "INV L n s'" by (rule INV_mono) auto
qed

theorem keeps_link_break [keeps_rule]:
  assumes "n \<le> 126" and "Rt ` set_option x \<subseteq> L"
  shows "spec (INV L n) (neighbor_link_break x) (\<lambda>_. INV L n)"
proof -
  have loop: "spec (MSG m (Suc 0) L n) (do {
      only_if b (precursor_list_destroy (Some rt));
      (made, uni) \<leftarrow> fold_each (link_break_bucket rt) [0..<RT_TABLESIZE] (m, u);
      link_break_send made uni }) (\<lambda>_. INV L n)" if "Rt rt \<in> L" for rt m u b
    by (rule keeps_bind, rule keeps_rule, rule keeps_rule, rule keeps_rule)
      (use that in \<open>auto intro!: frame_rule link_break_loop_keeps assms(1)\<close>)
  have rest: "spec (INV L n) (do {
      e \<leftarrow> rt_at rt;
      acc \<leftarrow> (if nprecursor e \<noteq> 0 \<and> \<not> has (rt_flags e) RT_REPAIR then rerr_mention 0 e (False, 0)
              else return (False, 0));
      only_if (\<not> has (rt_flags e) RT_REPAIR) (precursor_list_destroy (Some rt));
      (made, uni) \<leftarrow> fold_each (link_break_bucket rt) [0..<RT_TABLESIZE] acc;
      link_break_send made uni }) (\<lambda>_. INV L n)" if "Rt rt \<in> L" for rt
  proof (rule spec_pre [OF MSG_bind_rt_at [where k = 0 and made = False]])
    show "Rt rt \<in> L" by (rule that)
    show "MSG False 0 L n s" if "INV L n s" for s by (rule MSG_start [OF that])
  qed (rule bind_mention, simp, simp, rule loop, rule that)
  show ?thesis unfolding neighbor_link_break_def
    by (insert assms(2)) (rule rest | rule keeps_first | rule keeps_rule | simp)+
qed

section \<open>Updating a route\<close>

theorem keeps_rt_table_update [keeps_rule]:
  assumes "n \<le> 126" and "Rt rt \<in> L" and "\<And>p. Seek p \<notin> L"
  shows "spec (INV L n) (rt_table_update rt nh hops seqno lifetime st flags) (\<lambda>_. INV L n)"
  unfolding rt_table_update_def update_announce_def update_fields_def
  by (insert assms) (rule keeps_first | rule keeps_rule | simp)+

lemma keeps_hello_update_timeout [keeps_rule]:
  "Rt rt \<in> L \<Longrightarrow> spec (INV L n) (hello_update_timeout rt now t) (\<lambda>_. INV L n)"
  unfolding hello_update_timeout_def
  by (rule keeps_first | rule keeps_rule | simp)+

text \<open>A lookup that inserts where it finds nothing, and goes on with the entry.\<close>

lemma spec_absent: "spec (INV L n) m Q \<Longrightarrow> spec (\<lambda>s. INV L n s \<and> absent d s) m Q"
  by (erule spec_pre) simp

lemma rt_at_absent [keeps_first]:
  "spec (INV L n) (State_Monad.bind (rt_at p) f) Q \<Longrightarrow>
   spec (\<lambda>s. INV L n s \<and> absent d s) (State_Monad.bind (rt_at p) f) Q"
  by (rule spec_absent)

lemma bind_reads_absent [keeps_first]:
  "(\<And>a. spec (\<lambda>s. INV L n s \<and> absent d s) (f a) Q) \<Longrightarrow>
   spec (\<lambda>s. INV L n s \<and> absent d s) (State_Monad.bind (reads g) f) Q"
  by (rule spec_bind, rule spec_reads)

theorem keeps_neighbor_add [keeps_rule]:
  assumes "n < 126" and "\<And>p. Seek p \<notin> L"
  shows "spec (INV L n) (neighbor_add src) (\<lambda>_. INV L (Suc n))"
  unfolding neighbor_add_def
  by (insert assms) (rule bind_rt_check | rule keeps_first | rule split_binds | rule bind_insert | rule keeps_rule
    | rule keeps_forget | simp)+

section \<open>What losing a neighbour does to the table\<close>

text \<open>
  The operations of a link break only degrade routes: \<open>degrades ps m\<close> says that \<open>m\<close> changes
  entries of \<open>ps\<close> only, that every route keeps its destination, next hop and hop count, and that
  its state stays or becomes \<^verbatim>\<open>INVALID\<close>.
\<close>

definition lowered :: "rt_entry \<Rightarrow> rt_entry \<Rightarrow> bool" where
  "lowered e e' \<longleftrightarrow> dest_addr e' = dest_addr e \<and> next_hop e' = next_hop e \<and> hopcnt e' = hopcnt e
     \<and> (rt_state e' = rt_state e \<or> rt_state e' = INVALID)"

definition degraded :: "ptr set \<Rightarrow> (ptr \<Rightarrow> rt_entry option) \<Rightarrow> (ptr \<Rightarrow> rt_entry option) \<Rightarrow> bool" where
  "degraded ps h h' \<longleftrightarrow> dom h' = dom h \<and> (\<forall>p. p \<notin> ps \<longrightarrow> h' p = h p)
     \<and> (\<forall>p e e'. h p = Some e \<longrightarrow> h' p = Some e' \<longrightarrow> lowered e e')"

lemma lowered_refl [simp]: "lowered e e"
  by (simp add: lowered_def)

lemma lowered_trans: "lowered e e1 \<Longrightarrow> lowered e1 e' \<Longrightarrow> lowered e e'"
  by (auto simp: lowered_def)

definition degrades :: "ptr set \<Rightarrow> 'a daemon \<Rightarrow> bool" where
  "degrades ps m \<longleftrightarrow> (\<forall>s. degraded ps (rts s) (rts (snd (run_state m s))))"

lemma degraded_refl [simp]: "degraded ps h h"
  by (simp add: degraded_def)

lemma degraded_fields: "degraded ps h h' \<Longrightarrow> h p = Some e \<Longrightarrow> h' p = Some e' \<Longrightarrow> lowered e e'"
  unfolding degraded_def by blast

lemma degraded_dom: "degraded ps h h' \<Longrightarrow> h p = None \<longleftrightarrow> h' p = None"
  unfolding degraded_def by blast

lemma degraded_trans:
  assumes 1: "degraded ps h h1" and 2: "degraded ps h1 h2"
  shows "degraded ps h h2"
proof -
  have "lowered e e'" if e: "h p = Some e" "h2 p = Some e'" for p e e'
  proof -
    obtain e1 where e1: "h1 p = Some e1" using degraded_dom [OF 1, of p] e(1) by (cases "h1 p") auto
    show ?thesis by (rule lowered_trans [OF degraded_fields [OF 1 e(1) e1] degraded_fields [OF 2 e1 e(2)]])
  qed
  moreover have "h2 p = h p" if "p \<notin> ps" for p using 1 2 that by (simp add: degraded_def)
  moreover have "dom h2 = dom h" using 1 2 by (simp add: degraded_def)
  ultimately show ?thesis unfolding degraded_def by blast
qed

named_theorems degrade_rule \<open>operations that only degrade routes\<close>

lemma degrades_frame [degrade_rule]: "frame rts m \<Longrightarrow> degrades ps m"
  by (simp add: degrades_def frame_def)

lemma degrades_bind [degrade_rule]:
  "degrades ps m \<Longrightarrow> (\<And>a. degrades ps (f a)) \<Longrightarrow> degrades ps (State_Monad.bind m f)"
  unfolding degrades_def by (auto simp: case_prod_beta intro: degraded_trans)

lemma degrades_control [degrade_rule]:
  "degrades ps m \<Longrightarrow> degrades ps m' \<Longrightarrow> degrades ps (if b then m else m')"
  "degrades ps u \<Longrightarrow> degrades ps (only_if b u)"
  "(\<And>x. degrades ps (g x)) \<Longrightarrow> degrades ps (for_each g xs)"
proof -
  show "(\<And>x. degrades ps (g x)) \<Longrightarrow> degrades ps (for_each g xs)"
    by (induction xs) (auto intro: degrades_bind degrades_frame frame_rule)
qed (simp_all add: degrades_def)

lemma degrades_upd [degrade_rule]:
  "p \<in> ps \<Longrightarrow> (\<And>e. lowered e (u e)) \<Longrightarrow> degrades ps (rt_upd p u)"
  by (auto simp: degrades_def degraded_def rt_upd_def split: option.splits)

lemma degrades_invalidate [degrade_rule]: "p \<in> ps \<Longrightarrow> degrades ps (rt_table_invalidate (Some p))"
  unfolding rt_table_invalidate_def option.case
  by (intro degrades_bind degrades_control degrades_upd degrades_frame frame_rule) (simp_all add: lowered_def)

lemma degrades_destroy [degrade_rule]: "p \<in> ps \<Longrightarrow> degrades ps (precursor_list_destroy (Some p))"
  unfolding precursor_list_destroy_def option.case
  by (intro degrades_bind degrades_control degrades_upd degrades_frame frame_rule) (simp_all add: lowered_def)

lemma rts_rate [frame_rule]: "frame rts (rate_check ty now)"
  unfolding rate_check_def by (auto intro!: frame_rule split: option.splits)

lemma rts_send [frame_rule]: "frame rts (aodv_socket_send d len ttl)" "frame rts (rt_table_check d)"
  unfolding aodv_socket_send_def rt_table_check_def Let_def
  by (auto intro!: frame_rule split: prod.splits)

lemma rts_link_break_send [frame_rule]: "frame rts (link_break_send made uni)"
  unfolding link_break_send_def by (auto intro!: frame_rule)

lemma invalidate_makes_invalid:
  assumes "rts s p = Some e"
  shows "\<exists>e'. rts (snd (run_state (rt_table_invalidate (Some p)) s)) p = Some e' \<and> rt_state e' = INVALID"
proof (cases "rt_state e = INVALID")
  case True
  then show ?thesis using assms by (simp add: rt_table_invalidate_def)
next
  case False
  obtain r s' where "run_state (rt_table_invalidate (Some p)) s = (r, s')" by (metis surj_pair)
  then show ?thesis using specD [OF invalidate_valid [where h = "rts s", OF assms False] refl] by auto
qed

lemma degrades_snd: "degrades ps m \<Longrightarrow> degraded ps (rts s) (rts (snd (run_state m s)))"
  by (simp add: degrades_def)

lemma degraded_invalid:
  "degraded ps h h' \<Longrightarrow> h p = Some e \<Longrightarrow> rt_state e = INVALID \<Longrightarrow> \<exists>e'. h' p = Some e' \<and> rt_state e' = INVALID"
proof -
  assume dg: "degraded ps h h'" and e: "h p = Some e" "rt_state e = INVALID"
  obtain e' where "h' p = Some e'" using degraded_dom [OF dg, of p] e(1) by (cases "h' p") auto
  then show ?thesis using degraded_fields [OF dg e(1)] e(2) by (auto simp: lowered_def)
qed

text \<open>A route that does not lead through the neighbour \<open>d\<close>, or is not valid.\<close>

definition off :: "u32 \<Rightarrow> rt_entry \<Rightarrow> bool" where
  "off d e \<longleftrightarrow> \<not> (rt_state e = VALID \<and> next_hop e = d \<and> dest_addr e \<noteq> d)"

definition all_off :: "u32 \<Rightarrow> ptr set \<Rightarrow> (ptr \<Rightarrow> rt_entry option) \<Rightarrow> bool" where
  "all_off d ps h \<longleftrightarrow> (\<forall>p \<in> ps. \<forall>e. h p = Some e \<longrightarrow> off d e)"

lemma all_off_degraded: "degraded qs h h' \<Longrightarrow> all_off d ps h \<Longrightarrow> all_off d ps h'"
  unfolding all_off_def
proof (intro ballI allI impI)
  fix p e' assume dg: "degraded qs h h'" and o: "\<forall>p \<in> ps. \<forall>e. h p = Some e \<longrightarrow> off d e"
    and p: "p \<in> ps" "h' p = Some e'"
  obtain e where e: "h p = Some e" using degraded_dom [OF dg, of p] p(2) by (cases "h p") auto
  show "off d e'" using degraded_fields [OF dg e p(2)] o p(1) e by (auto simp: off_def lowered_def)
qed

lemma degrades_entry_tail:
  assumes "rt_u \<in> ps"
  shows "degrades ps (do {
     ue \<leftarrow> rt_at rt_u;
     acc \<leftarrow> (if nprecursor ue \<noteq> 0 then rerr_mention 0 ue acc else return acc);
     precursor_list_destroy (Some rt_u);
     return acc })"
  by (insert assms) (rule degrade_rule frame_rule | simp)+

lemma link_break_entry_off:
  assumes rt: "rts s rt = Some e" and u: "rts s p = Some ue"
  shows "degraded {q. q = p \<and> \<not> off (dest_addr e) ue} (rts s) (rts (snd (run_state (link_break_entry rt p acc) s)))
    \<and> all_off (dest_addr e) {p} (rts (snd (run_state (link_break_entry rt p acc) s)))"
proof (cases "off (dest_addr e) ue")
  case True
  then have "snd (run_state (link_break_entry rt p acc) s) = s"
    using rt u by (auto simp: link_break_entry_def off_def)
  then show ?thesis using True u by (simp add: all_off_def)
next
  case False
  define up where "up = (if has (rt_flags e) RT_REPAIR \<and> int (unat (hopcnt ue)) \<le> MAX_REPAIR_TTL
    then rt_upd p (\<lambda>e. e\<lparr>rt_flags := rt_flags e OR RT_REPAIR\<rparr>) else return ())"
  define tail where "tail = (if has (rt_flags e) RT_REPAIR \<and> int (unat (hopcnt ue)) \<le> MAX_REPAIR_TTL
    then return acc else do {
     ue \<leftarrow> rt_at p;
     acc \<leftarrow> (if nprecursor ue \<noteq> 0 then rerr_mention 0 ue acc else return acc);
     precursor_list_destroy (Some p);
     return acc })"
  let ?s1 = "snd (run_state up s)" let ?s2 = "snd (run_state (rt_table_invalidate (Some p)) ?s1)"
  have s': "snd (run_state (link_break_entry rt p acc) s) = snd (run_state tail ?s2)"
    using False rt u by (auto simp: link_break_entry_def off_def up_def tail_def case_prod_beta)
  have d1: "degraded {p} (rts s) (rts ?s1)"
    unfolding up_def by (rule degrades_snd) (rule degrade_rule frame_rule | simp add: lowered_def)+
  have d2: "degraded {p} (rts ?s1) (rts ?s2)" by (rule degrades_snd) (simp add: degrade_rule)
  have d3: "degraded {p} (rts ?s2) (rts (snd (run_state tail ?s2)))"
    unfolding tail_def by (rule degrades_snd) (rule degrades_entry_tail degrade_rule frame_rule | simp)+
  obtain e1 where "rts ?s1 p = Some e1" using degraded_dom [OF d1, of p] u by (cases "rts ?s1 p") auto
  then obtain e2 where "rts ?s2 p = Some e2" "rt_state e2 = INVALID" using invalidate_makes_invalid by blast
  then obtain e3 where "rts (snd (run_state tail ?s2)) p = Some e3" "rt_state e3 = INVALID"
    using degraded_invalid [OF d3] by blast
  moreover have "degraded {p} (rts s) (rts (snd (run_state tail ?s2)))"
    using degraded_trans [OF degraded_trans [OF d1 d2] d3] .
  moreover have "{q. q = p \<and> \<not> off (dest_addr e) ue} = {p}" using False by auto
  ultimately show ?thesis unfolding s' by (simp add: all_off_def off_def)
qed

text \<open>\<open>broken d rt h h'\<close>: only routes through \<open>d\<close>, and the entry \<open>rt\<close>, have been degraded.\<close>

definition broken :: "u32 \<Rightarrow> ptr \<Rightarrow> (ptr \<Rightarrow> rt_entry option) \<Rightarrow> (ptr \<Rightarrow> rt_entry option) \<Rightarrow> bool" where
  "broken d rt h h' \<longleftrightarrow> degraded UNIV h h'
     \<and> (\<forall>p e. h p = Some e \<longrightarrow> p \<noteq> rt \<longrightarrow> off d e \<longrightarrow> h' p = Some e)"

lemma broken_trans: "broken d rt h h1 \<Longrightarrow> broken d rt h1 h2 \<Longrightarrow> broken d rt h h2"
  unfolding broken_def by (auto intro: degraded_trans)

lemma broken_refl: "broken d rt h h"
  by (simp add: broken_def)

lemma broken_entry:
  assumes "rts s rt = Some e" and "rts s p = Some ue"
  shows "broken (dest_addr e) rt (rts s) (rts (snd (run_state (link_break_entry rt p acc) s)))"
proof -
  let ?h = "rts (snd (run_state (link_break_entry rt p acc) s))"
  have d: "degraded {q. q = p \<and> \<not> off (dest_addr e) ue} (rts s) ?h"
    using link_break_entry_off [OF assms] by blast
  have "?h q = Some x" if "rts s q = Some x" "off (dest_addr e) x" for q x
  proof -
    have "q \<notin> {q. q = p \<and> \<not> off (dest_addr e) ue}" using that assms(2) by auto
    then show ?thesis using d that(1) by (simp add: degraded_def)
  qed
  then show ?thesis using d by (auto simp: broken_def degraded_def)
qed

lemma broken_dest:
  assumes "broken d rt h h'" and "h p = Some e"
  shows "\<exists>e'. h' p = Some e' \<and> dest_addr e' = dest_addr e"
proof -
  have dg: "degraded UNIV h h'" using assms(1) by (simp add: broken_def)
  then obtain e' where "h' p = Some e'" using degraded_dom [OF dg, of p] assms(2) by (cases "h' p") auto
  then show ?thesis using degraded_fields [OF dg assms(2)] by (simp add: lowered_def)
qed

lemma broken_all_off: "broken d' rt h h' \<Longrightarrow> all_off d ps h \<Longrightarrow> all_off d ps h'"
  by (rule all_off_degraded [of UNIV h]) (simp_all add: broken_def)

lemma broken_entries:
  "rts s rt = Some e \<Longrightarrow> set ps \<subseteq> dom (rts s) \<Longrightarrow>
   broken (dest_addr e) rt (rts s) (rts (snd (run_state (fold_each (link_break_entry rt) ps acc) s)))
   \<and> all_off (dest_addr e) (set ps) (rts (snd (run_state (fold_each (link_break_entry rt) ps acc) s)))"
proof (induction ps arbitrary: s acc e)
  case Nil
  then show ?case by (simp add: broken_refl all_off_def)
next
  case (Cons p ps)
  obtain ue where u: "rts s p = Some ue" using Cons.prems(2) by auto
  let ?r = "run_state (link_break_entry rt p acc) s"
  have b: "broken (dest_addr e) rt (rts s) (rts (snd ?r))" by (rule broken_entry [OF Cons.prems(1) u])
  obtain e1 where e1: "rts (snd ?r) rt = Some e1" "dest_addr e1 = dest_addr e"
    using broken_dest [OF b Cons.prems(1)] by blast
  have dm: "set ps \<subseteq> dom (rts (snd ?r))" using b Cons.prems(2) by (auto simp: broken_def degraded_def)
  have off: "all_off (dest_addr e) {p} (rts (snd ?r))" using link_break_entry_off [OF Cons.prems(1) u] by blast
  note ih = Cons.IH [OF e1(1) dm, of "fst ?r", unfolded e1(2)]
  show ?case using ih broken_trans [OF b] broken_all_off [OF _ off]
    by (simp add: case_prod_beta) (auto simp: all_off_def)
qed

lemma broken_buckets:
  "rts s rt = Some e \<Longrightarrow> (\<forall>i \<in> set is. set (tbl s i) \<subseteq> dom (rts s)) \<Longrightarrow>
   broken (dest_addr e) rt (rts s) (rts (snd (run_state (fold_each (link_break_bucket rt) is acc) s)))
   \<and> all_off (dest_addr e) (\<Union>i \<in> set is. set (tbl s i))
       (rts (snd (run_state (fold_each (link_break_bucket rt) is acc) s)))"
proof (induction "is" arbitrary: s acc e)
  case Nil
  then show ?case by (simp add: broken_refl all_off_def)
next
  case (Cons i "is")
  let ?r = "run_state (link_break_bucket rt i acc) s"
  have run: "?r = run_state (fold_each (link_break_entry rt) (tbl s i) acc) s" by (simp add: link_break_bucket_def)
  have b: "broken (dest_addr e) rt (rts s) (rts (snd ?r))"
    and off: "all_off (dest_addr e) (set (tbl s i)) (rts (snd ?r))"
    unfolding run using broken_entries [OF Cons.prems(1)] Cons.prems(2) by auto
  obtain e1 where e1: "rts (snd ?r) rt = Some e1" "dest_addr e1 = dest_addr e"
    using broken_dest [OF b Cons.prems(1)] by blast
  have tb: "tbl (snd ?r) = tbl s" unfolding run by (intro frameD frame_fold_each frame_tbl_entry)
  have dm: "\<forall>j \<in> set is. set (tbl (snd ?r) j) \<subseteq> dom (rts (snd ?r))"
    using b Cons.prems(2) tb by (auto simp: broken_def degraded_def)
  note ih = Cons.IH [OF e1(1) dm, of "fst ?r", unfolded e1(2) tb]
  show ?case using ih broken_trans [OF b] broken_all_off [OF _ off]
    by (simp add: case_prod_beta) (auto simp: all_off_def)
qed

lemma link_break_start:
  assumes "rts s rt = Some e" and "hopcnt e = 1"
  shows "\<exists>s3 acc. degraded {rt} (rts s) (rts s3) \<and> tbl s3 = tbl s
    \<and> (\<exists>e3. rts s3 rt = Some e3 \<and> rt_state e3 = INVALID)
    \<and> run_state (neighbor_link_break (Some rt)) s =
      run_state (do { (made, uni) \<leftarrow> fold_each (link_break_bucket rt) [0..<RT_TABLESIZE] acc; link_break_send made uni }) s3"
proof -
  define m where "m = (do {
     e \<leftarrow> rt_at rt;
     acc \<leftarrow> (if nprecursor e \<noteq> 0 \<and> \<not> has (rt_flags e) RT_REPAIR then rerr_mention 0 e (False, 0)
             else return (False, 0));
     only_if (\<not> has (rt_flags e) RT_REPAIR) (precursor_list_destroy (Some rt));
     return acc })"
  let ?s1 = "snd (run_state (rt_table_invalidate (Some rt)) s)"
  have run: "run_state (neighbor_link_break (Some rt)) s =
      run_state (do { (made, uni) \<leftarrow> fold_each (link_break_bucket rt) [0..<RT_TABLESIZE] (fst (run_state m ?s1));
        link_break_send made uni }) (snd (run_state m ?s1))"
    using assms by (simp add: neighbor_link_break_def m_def case_prod_beta)
  have d1: "degraded {rt} (rts s) (rts ?s1)" by (rule degrades_snd) (simp add: degrade_rule)
  have d2: "degraded {rt} (rts ?s1) (rts (snd (run_state m ?s1)))"
    unfolding m_def by (rule degrades_snd) (rule degrade_rule frame_rule | simp)+
  have "frame tbl m" unfolding m_def precursor_list_destroy_def
    by (auto intro!: frame_rule frame_tbl_invalidate)
  then have "tbl (snd (run_state m ?s1)) = tbl s"
    using frameD [of tbl m] frameD [OF frame_tbl_invalidate(1)] by metis
  moreover obtain e1 where "rts ?s1 rt = Some e1" "rt_state e1 = INVALID"
    using invalidate_makes_invalid [of s rt e] assms(1) by blast
  then have "\<exists>e3. rts (snd (run_state m ?s1)) rt = Some e3 \<and> rt_state e3 = INVALID"
    by (rule degraded_invalid [OF d2])
  ultimately show ?thesis using degraded_trans [OF d1 d2] run by blast
qed

lemma degraded_broken: "degraded {rt} h h' \<Longrightarrow> broken d rt h h'"
  by (auto simp: broken_def degraded_def)

section \<open>Properties\<close>

text \<open>
  C2: losing a neighbour. \<^verbatim>\<open>neighbor_link_break\<close> on the route to a neighbour \<open>d\<close> leaves
  no valid route with next hop \<open>d\<close> in the table, whichever bucket it is in; the route to \<open>d\<close> is
  invalid. No route is lost or gets another destination or next hop, and a route that was not
  a valid one through \<open>d\<close> is not touched.
\<close>

theorem link_break_invalidates:
  assumes w: "wf s" and rt: "rts s rt = Some e" and hop: "hopcnt e = 1"
  shows "let s' = snd (run_state (neighbor_link_break (Some rt)) s) in
    broken (dest_addr e) rt (rts s) (rts s')
    \<and> (\<forall>p e'. rts s' p = Some e' \<longrightarrow> \<not> (rt_state e' = VALID \<and> next_hop e' = dest_addr e))
    \<and> (\<exists>e'. rts s' rt = Some e' \<and> rt_state e' = INVALID)"
proof -
  let ?d = "dest_addr e" let ?s' = "snd (run_state (neighbor_link_break (Some rt)) s)"
  note tab = INV_table [OF wf_INV [OF w]]
  obtain s3 acc e3 where s3: "degraded {rt} (rts s) (rts s3)" "tbl s3 = tbl s" "rts s3 rt = Some e3" "rt_state e3 = INVALID"
    and run: "run_state (neighbor_link_break (Some rt)) s =
      run_state (do { (made, uni) \<leftarrow> fold_each (link_break_bucket rt) [0..<RT_TABLESIZE] acc; link_break_send made uni }) s3"
    using link_break_start [OF rt hop] by blast
  let ?s4 = "snd (run_state (fold_each (link_break_bucket rt) [0..<RT_TABLESIZE] acc) s3)"
  have d3: "dest_addr e3 = ?d" using degraded_fields [OF s3(1) rt s3(3)] by (simp add: lowered_def)
  have dm: "dom (rts s3) = dom (rts s)" using s3(1) by (simp add: degraded_def)
  then have "\<forall>i \<in> set [0..<RT_TABLESIZE]. set (tbl s3 i) \<subseteq> dom (rts s3)"
    using bucket_live [OF tab] s3(2) by simp
  note loop = broken_buckets [OF s3(3) this, of acc, unfolded d3]
  have r4: "rts ?s' = rts ?s4"
    unfolding run by (simp add: case_prod_beta frameD [OF rts_link_break_send])
  have b: "broken ?d rt (rts s) (rts ?s')"
    unfolding r4 using broken_trans [OF degraded_broken [OF s3(1)]] loop by blast
  obtain e' where e': "rts ?s' rt = Some e'" "rt_state e' = INVALID"
    unfolding r4 using degraded_invalid [of UNIV "rts s3" "rts ?s4" rt e3] loop s3(3,4) by (auto simp: broken_def)
  have "\<not> (rt_state x = VALID \<and> next_hop x = ?d)" if x: "rts ?s' p = Some x" for p x
  proof
    assume v: "rt_state x = VALID \<and> next_hop x = ?d"
    have dg: "degraded UNIV (rts s) (rts ?s')" using b by (simp add: broken_def)
    obtain x0 where x0: "rts s p = Some x0" using degraded_dom [OF dg, of p] x by (cases "rts s p") auto
    then have "p \<in> (\<Union>i \<in> set [0..<RT_TABLESIZE]. set (tbl s3 i))"
      using bucket_member [OF tab x0] hash_index_less [of "dest_addr x0"] s3(2) by auto
    then have "off ?d x" using loop x unfolding r4 all_off_def by blast
    then have "dest_addr x = ?d" using v by (simp add: off_def)
    then have "dest_addr x0 = ?d" using degraded_fields [OF dg x0 x] by (simp add: lowered_def)
    then have "p = rt" using table_unique [OF tab x0 rt] by simp
    then show False using x v e' by simp
  qed
  then show ?thesis unfolding Let_def using b e' by blast
qed

text \<open>The state of the witness: a route through the neighbour of \<open>one_route\<close>.\<close>

definition two_routes :: node where
  "two_routes = snd (run_state (rt_table_insert 20 10 2 7 3000 VALID 0) one_route)"

lemma two_routes_simps:
  "wf two_routes" "rts two_routes 0 = Some (new_entry 10 10 1 5 VALID 0)"
  "rts two_routes (brk one_route) = Some (new_entry 20 10 2 7 VALID 0)"
proof -
  have i: "INV {} 1 one_route" using one_route_simps(1,3) by (simp add: INV_def)
  have a: "absent 20 one_route" by (auto simp: absent_def one_route_simps new_entry_def)
  have b: "brk one_route \<noteq> 0" using INV_fresh [OF i] by (auto simp: one_route_simps)
  obtain r s' where r: "run_state (rt_table_insert 20 10 2 7 3000 VALID 0) one_route = (r, s')" by (metis surj_pair)
  then have "\<exists>p. INV {Rt p} 2 s'"
    using specD [OF rt_table_insert_keeps [of "{}" 1] _ r] i a by (auto simp: numeral_2_eq_2)
  then show "wf two_routes" using r by (auto simp: two_routes_def INV_def)
  show "rts two_routes 0 = Some (new_entry 10 10 1 5 VALID 0)"
    "rts two_routes (brk one_route) = Some (new_entry 20 10 2 7 VALID 0)"
    using insert_rts [OF i a, of 10 2 7 3000 VALID 0] b by (simp_all add: two_routes_def one_route_simps(2))
qed

theorem link_break_invalidates_witness:
  "let s' = snd (run_state (neighbor_link_break (Some 0)) two_routes) in
    map_option rt_state (rts s' 0) = Some INVALID
    \<and> map_option rt_state (rts s' (brk one_route)) = Some INVALID"
proof -
  let ?s' = "snd (run_state (neighbor_link_break (Some 0)) two_routes)"
  have e: "hopcnt (new_entry 10 10 1 5 VALID 0) = 1" "dest_addr (new_entry 10 10 1 5 VALID 0) = 10"
    by (simp_all add: new_entry_def)
  note lb = link_break_invalidates [OF two_routes_simps(1,2) e(1), unfolded e(2) Let_def]
  have dg: "degraded UNIV (rts two_routes) (rts ?s')" using lb by (simp add: broken_def)
  obtain x where x: "rts ?s' (brk one_route) = Some x"
    using degraded_dom [OF dg, of "brk one_route"] two_routes_simps(3) by (cases "rts ?s' (brk one_route)") auto
  have "lowered (new_entry 20 10 2 7 VALID 0) x" by (rule degraded_fields [OF dg two_routes_simps(3) x])
  then have "next_hop x = 10" "rt_state x = VALID \<or> rt_state x = INVALID" by (simp_all add: lowered_def new_entry_def)
  then have "rt_state x = INVALID" using lb x by blast
  then show ?thesis using lb x by (auto simp: Let_def)
qed

lemma rts_update_timeout [frame_rule]: "frame rts (rt_table_update_timeout x l)"
  unfolding rt_table_update_timeout_def Let_def by (auto intro!: frame_rule)

lemma route_timer_seek: "frame (\<lambda>s. timers s (Rt_timer p)) (seek_list_remove x)"
  unfolding frame_def
  by (auto simp: seek_list_remove_def timer_remove_def split: option.split)

lemma route_timer_check: "frame (\<lambda>s. timers s (Rt_timer p)) (seek_list_check d)"
  unfolding seek_list_check_def by (auto intro!: frame_rule)



end
