(* ===== verification/Rrep.thy ===== *)
theory Rrep
  imports Neighbor
begin

text \<open>
  \<^verbatim>\<open>aodv_rrep.c\<close>: the route reply and its acknowledgement. A reply received is in
  \<^verbatim>\<open>recv_buf\<close>, and the handlers change it there before it is copied to
  \<^verbatim>\<open>send_buf\<close> and forwarded; one that is created is in \<^verbatim>\<open>send_buf\<close>. Byte 1
  holds the flags \<^verbatim>\<open>r\<close> (bit 0) and \<^verbatim>\<open>a\<close> (bit 1), byte 2 the prefix in its
  upper five bits.
\<close>

abbreviation (input) RREP_SIZE :: nat where "RREP_SIZE \<equiv> 20"
abbreviation (input) RREP_REPAIR :: u8 where "RREP_REPAIR \<equiv> 128"
abbreviation (input) RREP_ACK :: u8 where "RREP_ACK \<equiv> 64"

section \<open>Operations\<close>

definition rrep_create :: "u8 \<Rightarrow> u8 \<Rightarrow> u8 \<Rightarrow> u32 \<Rightarrow> u32 \<Rightarrow> u32 \<Rightarrow> u32 \<Rightarrow> unit daemon" where
  "rrep_create flags prefix hops dest seqno orig life = do {
     aodv_socket_new_msg;
     put_msg 0 [AODV_RREP];
     put_msg 2 [push_bit 3 (take_bit 5 prefix)];
     put_msg 3 [hops];
     put_msg 4 (le32 dest);
     put_msg 8 (le32 (htonl seqno));
     put_msg 12 (le32 orig);
     put_msg 16 (le32 (htonl life));
     put_msg 1 [(if has flags RREP_REPAIR then 1 else 0) OR (if has flags RREP_ACK then 2 else 0)] }"

definition rrep_ack_create :: "unit daemon" where
  "rrep_ack_create = do { aodv_socket_new_msg; put_msg 0 [AODV_RREP_ACK] }"

definition rrep_ack_process :: "u32 \<Rightarrow> unit daemon" where
  "rrep_ack_process ip_src = do {
     r \<leftarrow> rt_table_check ip_src;
     case r of None \<Rightarrow> return ()
     | Some rt \<Rightarrow> do { timer_remove (Ack_timer rt); return () } }"

definition ack_timer_used :: "ptr \<Rightarrow> bool daemon" where
  "ack_timer_used rt = reads (\<lambda>s. t_used (timers s (Ack_timer rt)))"

definition rrep_send :: "ptr option \<Rightarrow> ptr option \<Rightarrow> nat \<Rightarrow> unit daemon" where
  "rrep_send rev_rt fwd_rt len = (case rev_rt of
       None \<Rightarrow> return ()
     | Some rv \<Rightarrow> do {
         re \<leftarrow> rt_at rv;
         only_if (rt_state re = VALID \<and> has (rt_flags re) RT_UNIDIR) (do {
           r \<leftarrow> rt_table_check (next_hop re);
           case r of None \<Rightarrow> return ()
           | Some neighbor \<Rightarrow> do {
               ne \<leftarrow> rt_at neighbor;
               used \<leftarrow> ack_timer_used neighbor;
               only_if (rt_state ne = VALID \<and> \<not> used) (do {
                 rt_upd neighbor (\<lambda>e. e\<lparr>rt_flags := rt_flags e OR RT_UNIDIR\<rparr>);
                 timer_remove (Hello_timer neighbor);
                 neighbor_link_break (Some neighbor);
                 timer_set_timeout (Ack_timer neighbor) NEXT_HOP_WAIT }) } });
         re \<leftarrow> rt_at rv;
         aodv_socket_send (next_hop re) len MAXTTL;
         case fwd_rt of None \<Rightarrow> return ()
         | Some fw \<Rightarrow> do {
             precursor_add (Some fw) (next_hop re);
             fe \<leftarrow> rt_at fw;
             precursor_add (Some rv) (next_hop fe) } })"

definition rrep_forward :: "nat \<Rightarrow> ptr option \<Rightarrow> ptr option \<Rightarrow> int \<Rightarrow> unit daemon" where
  "rrep_forward len rev_rt fwd_rt ttl = (case fwd_rt of
       None \<Rightarrow> return ()
     | Some fw \<Rightarrow> (case rev_rt of
         None \<Rightarrow> return ()
       | Some rv \<Rightarrow> do {
           re \<leftarrow> rt_at rv;
           r \<leftarrow> (if dest_addr re \<noteq> next_hop re then rt_table_check (next_hop re) else return (Some rv));
           (case r of None \<Rightarrow> return ()
            | Some neighbor \<Rightarrow> do {
                used \<leftarrow> ack_timer_used neighbor;
                only_if (\<not> used) (do {
                  b \<leftarrow> get8 1;
                  set_recv 1 [b OR 2];
                  rt_upd neighbor (\<lambda>e. e\<lparr>rt_flags := rt_flags e OR RT_UNIDIR\<rparr>);
                  timer_set_timeout (Ack_timer neighbor) NEXT_HOP_WAIT }) });
           aodv_socket_queue_msg len;
           fe \<leftarrow> rt_at fw;
           put_msg 3 [hopcnt fe];
           re \<leftarrow> rt_at rv;
           aodv_socket_send (next_hop re) len ttl;
           precursor_add (Some fw) (next_hop re);
           fe \<leftarrow> rt_at fw;
           precursor_add (Some rv) (next_hop fe);
           art \<leftarrow> reads (\<lambda>s. of_int (active_route_timeout s));
           rt_table_update_timeout (Some rv) art;
           return () }))"

text \<open>
  \<^verbatim>\<open>rrep_process\<close> in three parts: the route to the destination is created or
  updated, or the message dropped (\<open>None\<close>); then a requested acknowledgement is sent; then the
  reply has arrived or is forwarded. \<open>pre_repair\<close> holds the hop count and flags the route had.
\<close>

definition rrep_fwd_route :: "ptr option \<Rightarrow> u32 \<Rightarrow> u32 \<Rightarrow> u32 \<Rightarrow> u32 \<Rightarrow> u32 \<Rightarrow> (ptr option \<times> u8 \<times> u8) option daemon" where
  "rrep_fwd_route fwd_rt rrep_dest ip_src new_hcnt rrep_seqno lifetime = (case fwd_rt of
       None \<Rightarrow> do {
         f \<leftarrow> rt_table_insert rrep_dest ip_src new_hcnt rrep_seqno lifetime VALID 0;
         return (Some (f, 0, 0)) }
     | Some fw \<Rightarrow> do {
         e \<leftarrow> rt_at fw;
         if dest_seqno e = 0 \<or> seqno_gt rrep_seqno (dest_seqno e)
            \<or> (rrep_seqno = dest_seqno e \<and> (rt_state e = INVALID \<or> has (rt_flags e) RT_UNIDIR
                \<or> new_hcnt < ucast (hopcnt e)))
         then do {
           rt_table_update fw ip_src new_hcnt rrep_seqno lifetime VALID (rt_flags e);
           return (Some (Some fw, hopcnt e, rt_flags e)) }
         else return None })"

definition rrep_send_ack :: "ptr option \<Rightarrow> unit daemon" where
  "rrep_send_ack fwd_rt = do {
     b \<leftarrow> get8 1;
     only_if (has b 2) (do {
       rrep_ack_create;
       fw \<leftarrow> deref fwd_rt;
       e \<leftarrow> rt_at fw;
       aodv_socket_send (next_hop e) (nat NEXT_HOP_WAIT) MAXTTL;
       set_recv 1 [b AND NOT 2] }) }"

definition rrep_arrived :: "ptr option \<Rightarrow> u8 \<Rightarrow> u8 \<Rightarrow> unit daemon" where
  "rrep_arrived fwd_rt pre_repair_hcnt pre_repair_flags = only_if (has pre_repair_flags RT_REPAIR) (do {
     fw \<leftarrow> deref fwd_rt;
     e \<leftarrow> rt_at fw;
     only_if (hopcnt e > pre_repair_hcnt) (do {
       rerr_create RERR_NODELETE (dest_addr e) (dest_seqno e);
       c \<leftarrow> reads (\<lambda>s. send_buf s ! 3);
       only_if (nprecursor e \<noteq> 0) (aodv_socket_send AODV_BROADCAST (unat (RERR_CALC_SIZE c)) 1) }) })"

definition rrep_process :: "int \<Rightarrow> u32 \<Rightarrow> u32 \<Rightarrow> int \<Rightarrow> unit daemon" where
  "rrep_process len ip_src ip_dest ip_ttl = do {
     rrep_dest \<leftarrow> get32 4;
     rrep_orig \<leftarrow> get32 12;
     sq \<leftarrow> get32 8;
     lt \<leftarrow> get32 16;
     hc \<leftarrow> get8 3;
     let rrep_seqno = ntohl sq;
     let rrep_lifetime = ntohl lt;
     let rrep_new_hcnt = ucast hc + 1;
     me \<leftarrow> reads dev_ipaddr;
     if len < int RREP_SIZE then return ()
     else if rrep_dest = me then return ()
     else do {
       fwd_rt \<leftarrow> rt_table_check rrep_dest;
       rev_rt \<leftarrow> rt_table_check rrep_orig;
       x \<leftarrow> rrep_fwd_route fwd_rt rrep_dest ip_src rrep_new_hcnt rrep_seqno rrep_lifetime;
       case x of
         None \<Rightarrow> return ()
       | Some (fwd_rt, pre_repair_hcnt, pre_repair_flags) \<Rightarrow> do {
           rrep_send_ack fwd_rt;
           if rrep_orig = me then rrep_arrived fwd_rt pre_repair_hcnt pre_repair_flags
           else (case rev_rt of
               None \<Rightarrow> return ()
             | Some rv \<Rightarrow> do {
                 re \<leftarrow> rt_at rv;
                 only_if (rt_state re = VALID) (rrep_forward (nat len) rev_rt fwd_rt (ip_ttl - 1)) }) } } }"

section \<open>What they keep\<close>

lemma keeps_set_recv [keeps_rule]:
  assumes "i + length bs \<le> BUF_SIZE" shows "spec (INV L n) (set_recv i bs) (\<lambda>_. INV L n)"
  by (rule specI) (use INV_buffers assms in \<open>fastforce simp: run_set_recv INV_recv_buf\<close>)

lemma keeps_rerr_create [keeps_rule]: "spec (INV L n) (rerr_create fl d sq) (\<lambda>_. INV L n)"
  by (rule specI) (auto simp: run_rerr_create INV_send_buf)

lemma keeps_rrep_create [keeps_rule]:
  "spec (INV L n) (rrep_create fl px h d sq og lf) (\<lambda>_. INV L n)"
  unfolding rrep_create_def by (rule keeps_first | rule keeps_rule | simp)+

lemma keeps_rrep_ack_create [keeps_rule]: "spec (INV L n) rrep_ack_create (\<lambda>_. INV L n)"
  unfolding rrep_ack_create_def by (rule keeps_first | rule keeps_rule | simp)+

lemma keeps_rrep_ack_process [keeps_rule]:
  "n < 2 ^ 32 \<Longrightarrow> spec (INV L n) (rrep_ack_process src) (\<lambda>_. INV L n)"
  unfolding rrep_ack_process_def by (rule keeps_first | rule keeps_rule | rule keeps_forget | simp)+

lemma keeps_ack_timer_used [keeps_rule]: "spec P (ack_timer_used p) (\<lambda>_. P)"
  unfolding ack_timer_used_def by (rule keeps_rule)

lemma keeps_rrep_send [keeps_rule]:
  assumes "n \<le> 126" and "Rt ` set_option x \<subseteq> L" and "Rt ` set_option y \<subseteq> L" and "len \<le> BUF_SIZE"
  shows "spec (INV L n) (rrep_send x y len) (\<lambda>_. INV L n)"
  unfolding rrep_send_def
  by (insert assms) (rule keeps_first | rule keeps_rule | rule keeps_forget | simp)+

lemma keeps_rrep_forward [keeps_rule]:
  assumes "n \<le> 126" and "Rt ` set_option x \<subseteq> L" and "Rt ` set_option y \<subseteq> L" and "len \<le> BUF_SIZE"
  shows "spec (INV L n) (rrep_forward len x y ttl) (\<lambda>_. INV L n)"
  unfolding rrep_forward_def
  by (insert assms) (rule keeps_first | rule split_binds | rule keeps_rule | rule keeps_forget | simp)+

text \<open>A RERR about one destination has twelve bytes.\<close>

lemma keeps_single_rerr:
  assumes "\<And>c. unat c = 1 \<Longrightarrow> spec (INV L n) (f c) Q"
  shows "spec (INV L n) (do {
     rerr_create fl d sq;
     c \<leftarrow> reads (\<lambda>s. send_buf s ! 3);
     f c }) Q"
proof (rule specI)
  fix s a s' assume inv: "INV L n s"
    and r: "run_state (do { rerr_create fl d sq; c \<leftarrow> reads (\<lambda>s. send_buf s ! 3); f c }) s = (a, s')"
  have "INV L n (s\<lparr>send_buf := rerr_image fl d sq\<rparr>)" by (rule INV_send_buf [OF inv]) simp
  moreover have "run_state (f 1) (s\<lparr>send_buf := rerr_image fl d sq\<rparr>) = (a, s')"
    using r by (simp add: run_rerr_create rerr_image_bytes)
  ultimately show "Q a s'" using specD [OF assms [of 1]] by simp
qed

lemma keeps_rrep_arrived [keeps_rule]:
  assumes "Rt p \<in> L" shows "spec (INV L n) (rrep_arrived (Some p) h fl) (\<lambda>_. INV L n)"
  unfolding rrep_arrived_def
  by (insert assms) (rule keeps_first | rule keeps_single_rerr | rule keeps_rule | simp add: CALC_SIZE)+

lemma keeps_rrep_send_ack [keeps_rule]:
  assumes "Rt p \<in> L" shows "spec (INV L n) (rrep_send_ack (Some p)) (\<lambda>_. INV L n)"
  unfolding rrep_send_ack_def
  by (insert assms) (rule keeps_first | rule keeps_rule | simp add: NEXT_HOP_WAIT_def)+

text \<open>A lookup changes nothing, so whatever else is known stays known.\<close>

lemma bind_check_and:
  assumes n: "n < 2 ^ 32"
    and none: "spec (\<lambda>s. INV L n s \<and> G s) (f None) Q"
    and some: "\<And>p. spec (\<lambda>s. INV (insert (Rt p) L) n s \<and> G s) (f (Some p)) Q"
  shows "spec (\<lambda>s. INV L n s \<and> G s) (State_Monad.bind (rt_table_check d') f) Q"
proof (rule specI, elim conjE)
  fix s a s' assume inv: "INV L n s" and ab: "G s"
    and r: "run_state (State_Monad.bind (rt_table_check d') f) s = (a, s')"
  obtain x where x: "run_state (rt_table_check d') s = (x, s)"
    "\<And>p. x = Some p \<longleftrightarrow> (\<exists>e. rts s p = Some e \<and> dest_addr e = d')"
    using run_rt_check [OF inv n] by blast
  show "Q a s'"
  proof (cases x)
    case None
    then show ?thesis using specD [OF none] inv ab r x(1) by simp
  next
    case (Some p)
    then obtain e where "rts s p = Some e" using x(2) by blast
    then have "INV (insert (Rt p) L) n s" using INV_add_live [OF inv] by simp
    then show ?thesis using specD [OF some, of p s a s'] r x(1) Some ab by simp
  qed
qed

theorem keeps_rrep_process [keeps_rule]:
  assumes "n < 126" and "len \<le> int BUF_SIZE" and "\<And>p. Seek p \<notin> L"
  shows "spec (INV L n) (rrep_process len src dst ttl) (\<lambda>_. INV L (Suc n))"
  unfolding rrep_process_def rrep_fwd_route_def
  by (insert assms)
    (rule bind_rt_check | rule bind_check_and | rule keeps_first | rule split_binds | rule bind_insert
      | rule keeps_rule | rule keeps_forget | simp)+

section \<open>Properties\<close>

text \<open>
  The RREP that \<^verbatim>\<open>rrep_create\<close> leaves in the send buffer, read back as a receiver
  reads it, has the fields it was given; \<^verbatim>\<open>RREP_SIZE\<close> covers them.
\<close>

theorem rrep_create_roundtrip:
  "let s' = snd (run_state (rrep_create flags prefix hops dest seqno orig life) s); b = send_buf s' in
    s' = s\<lparr>send_buf := b\<rparr> \<and> length b = BUF_SIZE \<and> b ! 0 = AODV_RREP \<and> b ! 3 = hops
    \<and> (has (b ! 1) 1 \<longleftrightarrow> has flags RREP_REPAIR) \<and> (has (b ! 1) 2 \<longleftrightarrow> has flags RREP_ACK)
    \<and> peek32 4 b = dest \<and> ntohl (peek32 8 b) = seqno \<and> peek32 12 b = orig \<and> ntohl (peek32 16 b) = life"
  by (simp add: rrep_create_def aodv_socket_new_msg_def run_put_msg Let_def peek32_poke_other peek32_le32 nth_poke)
    (simp add: has_def)

end
