(* ===== verification/Rreq.thy ===== *)
theory Rreq
  imports Rrep
begin

text \<open>
  \<^verbatim>\<open>aodv_rreq.c\<close>: creating, sending, forwarding and answering route requests, and the
  two functions that start a route discovery. Byte 1 of the message holds the flags
  \<^verbatim>\<open>j r g d u\<close> from bit 0 on.
\<close>

abbreviation (input) RREQ_SIZE :: nat where "RREQ_SIZE \<equiv> 24"
abbreviation (input) RREQ_JOIN :: u8 where "RREQ_JOIN \<equiv> 128"
abbreviation (input) RREQ_REPAIR :: u8 where "RREQ_REPAIR \<equiv> 64"
abbreviation (input) RREQ_GRATUITOUS :: u8 where "RREQ_GRATUITOUS \<equiv> 32"
abbreviation (input) RREQ_DEST_ONLY :: u8 where "RREQ_DEST_ONLY \<equiv> 16"
abbreviation (input) RREQ_UNKNOWN_SEQNO :: u8 where "RREQ_UNKNOWN_SEQNO \<equiv> 8"

section \<open>Creating and sending\<close>

definition rreq_flag_bits :: "u8 \<Rightarrow> u8" where
  "rreq_flag_bits flags =
     (if has flags RREQ_JOIN then 1 else 0) OR (if has flags RREQ_REPAIR then 2 else 0)
     OR (if has flags RREQ_GRATUITOUS then 4 else 0) OR (if has flags RREQ_DEST_ONLY then 8 else 0)
     OR (if has flags RREQ_UNKNOWN_SEQNO then 16 else 0)"

definition rreq_create :: "u8 \<Rightarrow> u32 \<Rightarrow> u32 \<Rightarrow> u32 \<Rightarrow> unit daemon" where
  "rreq_create flags dest seqno orig = do {
     aodv_socket_new_msg;
     put_msg 0 [AODV_RREQ];
     put_msg 2 [0];
     put_msg 3 [0];
     rid \<leftarrow> reads host_rreq_id;
     modify (\<lambda>s. s\<lparr>host_rreq_id := host_rreq_id s + 1\<rparr>);
     put_msg 4 (le32 (htonl rid));
     put_msg 8 (le32 dest);
     put_msg 12 (le32 (htonl seqno));
     put_msg 16 (le32 orig);
     modify (\<lambda>s. s\<lparr>host_seqno := seqno_incr (host_seqno s)\<rparr>);
     sq \<leftarrow> reads host_seqno;
     put_msg 20 (le32 (htonl sq));
     put_msg 1 [rreq_flag_bits flags] }"

definition rreq_send :: "u32 \<Rightarrow> u32 \<Rightarrow> int \<Rightarrow> u8 \<Rightarrow> unit daemon" where
  "rreq_send dest seqno ttl flags = do {
     en \<leftarrow> reads dev_enabled;
     only_if en (do {
       me \<leftarrow> reads dev_ipaddr;
       rreq_create flags dest seqno me;
       aodv_socket_send AODV_BROADCAST RREQ_SIZE ttl }) }"

definition rreq_forward :: "nat \<Rightarrow> int \<Rightarrow> unit daemon" where
  "rreq_forward len ttl = do {
     aodv_socket_queue_msg len;
     h \<leftarrow> reads (\<lambda>s. send_buf s ! 3);
     put_msg 3 [h + 1];
     aodv_socket_send AODV_BROADCAST len ttl }"

section \<open>Receiving\<close>

text \<open>
  \<^verbatim>\<open>rreq_process\<close>, in parts: the reverse route, then the answer or the forwarding
  (\<open>rreq_accept\<close>), behind the tests that drop a message.
\<close>

definition rreq_reverse_route :: "u32 \<Rightarrow> u32 \<Rightarrow> u32 \<Rightarrow> u32 \<Rightarrow> u32 \<Rightarrow> ptr option daemon" where
  "rreq_reverse_route rreq_orig ip_src new_hopcnt orig_seqno life = do {
     rev_rt \<leftarrow> rt_table_check rreq_orig;
     case rev_rt of
       None \<Rightarrow> rt_table_insert rreq_orig ip_src new_hopcnt orig_seqno life VALID 0
     | Some rv \<Rightarrow> do {
         e \<leftarrow> rt_at rv;
         if dest_seqno e = 0 \<or> seqno_gt orig_seqno (dest_seqno e)
            \<or> (orig_seqno = dest_seqno e \<and> (rt_state e = INVALID \<or> new_hopcnt < ucast (hopcnt e)))
         then do {
           p \<leftarrow> rt_table_update rv ip_src new_hopcnt orig_seqno life VALID (rt_flags e);
           return (Some rv) }
         else return (Some rv) } }"

definition rreq_answer :: "ptr option \<Rightarrow> u32 \<Rightarrow> unit daemon" where
  "rreq_answer rev_rt rreq_dest_seqno = do {
     sq \<leftarrow> reads host_seqno;
     only_if (rreq_dest_seqno \<noteq> 0)
       (if seqno_gt rreq_dest_seqno sq then modify (\<lambda>s. s\<lparr>host_seqno := rreq_dest_seqno\<rparr>)
        else only_if (sq = rreq_dest_seqno) (modify (\<lambda>s. s\<lparr>host_seqno := seqno_incr (host_seqno s)\<rparr>)));
     me \<leftarrow> reads dev_ipaddr;
     sq \<leftarrow> reads host_seqno;
     rv \<leftarrow> deref rev_rt;
     e \<leftarrow> rt_at rv;
     t \<leftarrow> reads active_route_timeout;
     rrep_create 0 0 0 me sq (dest_addr e) (of_int (2 * t));
     rrep_send rev_rt None RREP_SIZE }"

definition rreq_forward_or_drop :: "ptr option \<Rightarrow> u32 \<Rightarrow> nat \<Rightarrow> int \<Rightarrow> unit daemon" where
  "rreq_forward_or_drop fwd_rt rreq_dest_seqno len ip_ttl = only_if (ip_ttl > 1) (do {
     (case fwd_rt of None \<Rightarrow> return () | Some fw \<Rightarrow> do {
        e \<leftarrow> rt_at fw;
        only_if (\<not> has (rt_flags e) RT_INET_DEST \<and> seqno_gt (dest_seqno e) rreq_dest_seqno)
          (set_recv 12 (le32 (htonl (dest_seqno e)))) });
     rreq_forward len (ip_ttl - 1) })"

text \<open>An intermediate node with a fresh enough route answers, and tells the destination if asked to.\<close>

definition rreq_intermediate :: "ptr \<Rightarrow> ptr option \<Rightarrow> timeval \<Rightarrow> unit daemon" where
  "rreq_intermediate fw rev_rt now = do {
     fe \<leftarrow> rt_at fw;
     x \<leftarrow> reads (\<lambda>s. timers s (Rt_timer fw));
     let lifetime = of_int (timeval_diff (t_timeout x) now);
     rv \<leftarrow> deref rev_rt;
     re \<leftarrow> rt_at rv;
     rrep_create 0 0 (hopcnt fe) (dest_addr fe) (dest_seqno fe) (dest_addr re) lifetime;
     rrep_send rev_rt (Some fw) RREP_SIZE;
     b \<leftarrow> get8 1;
     only_if (has b 4) (do {
       re \<leftarrow> rt_at rv;
       fe \<leftarrow> rt_at fw;
       rrep_create 0 0 (hopcnt re) (dest_addr re) (dest_seqno re) (dest_addr fe) lifetime;
       rrep_send (Some fw) rev_rt RREP_SIZE }) }"

definition rreq_accept :: "u32 \<Rightarrow> u32 \<Rightarrow> u32 \<Rightarrow> u32 \<Rightarrow> u32 \<Rightarrow> u32 \<Rightarrow> int \<Rightarrow> u32 \<Rightarrow> int \<Rightarrow> unit daemon" where
  "rreq_accept rreq_dest rreq_orig rreq_id rreq_dest_seqno rreq_orig_seqno rreq_new_hopcnt len ip_src ip_ttl = do {
     rreq_record_insert rreq_orig rreq_id;
     let life = of_int PATH_DISCOVERY_TIME - 2 * rreq_new_hopcnt * of_int NODE_TRAVERSAL_TIME;
     rev_rt \<leftarrow> rreq_reverse_route rreq_orig ip_src rreq_new_hopcnt rreq_orig_seqno life;
     me \<leftarrow> reads dev_ipaddr;
     if rreq_dest = me then rreq_answer rev_rt rreq_dest_seqno
     else do {
       fwd_rt \<leftarrow> rt_table_check rreq_dest;
       case fwd_rt of
         None \<Rightarrow> rreq_forward_or_drop None rreq_dest_seqno (nat len) ip_ttl
       | Some fw \<Rightarrow> do {
           fe \<leftarrow> rt_at fw;
           fl \<leftarrow> get8 1;
           if rt_state fe = VALID \<and> \<not> has fl 8 then do {
             now \<leftarrow> gettimeofday;
             if dest_seqno fe \<noteq> 0 \<and> \<not> seqno_gt rreq_dest_seqno (dest_seqno fe)
             then rreq_intermediate fw rev_rt now
             else rreq_forward_or_drop fwd_rt rreq_dest_seqno (nat len) ip_ttl }
           else rreq_forward_or_drop fwd_rt rreq_dest_seqno (nat len) ip_ttl } } }"

definition rreq_process :: "int \<Rightarrow> u32 \<Rightarrow> u32 \<Rightarrow> int \<Rightarrow> unit daemon" where
  "rreq_process len ip_src ip_dest ip_ttl = do {
     rreq_dest \<leftarrow> get32 8;
     rreq_orig \<leftarrow> get32 16;
     i \<leftarrow> get32 4;
     ds \<leftarrow> get32 12;
     os \<leftarrow> get32 20;
     hc \<leftarrow> get8 3;
     let rreq_id = ntohl i;
     me \<leftarrow> reads dev_ipaddr;
     if rreq_orig = me then return ()
     else if len < int RREQ_SIZE then return ()
     else do {
       b \<leftarrow> rreq_blacklist_check ip_src;
       if b \<noteq> None then return ()
       else do {
         r \<leftarrow> rreq_record_check rreq_orig rreq_id;
         if r \<noteq> None then return ()
         else rreq_accept rreq_dest rreq_orig rreq_id (ntohl ds) (ntohl os) (ucast hc + 1) len ip_src ip_ttl } } }"

section \<open>Route discovery\<close>

text \<open>\<^verbatim>\<open>2 * NET_TRAVERSAL_TIME\<close>, the life a route gets while it is looked for.\<close>

abbreviation (input) seek_life :: int where "seek_life \<equiv> 2 * NET_TRAVERSAL_TIME"

definition extend_route :: "ptr \<Rightarrow> timeval \<Rightarrow> unit daemon" where
  "extend_route rt now = do {
     x \<leftarrow> reads (\<lambda>s. timers s (Rt_timer rt));
     only_if (timeval_diff (t_timeout x) now < seek_life)
       (do { rt_table_update_timeout (Some rt) (of_int seek_life); return () }) }"

definition rreq_route_discovery :: "u32 \<Rightarrow> u8 \<Rightarrow> unit daemon" where
  "rreq_route_discovery dest flags = do {
     now \<leftarrow> gettimeofday;
     c \<leftarrow> seek_list_check dest;
     if c \<noteq> None then return ()
     else do {
       r \<leftarrow> rt_table_check dest;
       ring \<leftarrow> reads expanding_ring_search;
       ts \<leftarrow> reads ttl_start;
       (seqno, ttl) \<leftarrow> (case r of
           None \<Rightarrow> return (0, if ring then ts else NET_DIAMETER)
         | Some rt \<Rightarrow> do {
             e \<leftarrow> rt_at rt;
             extend_route rt now;
             return (dest_seqno e, if ring then int (unat (hopcnt e)) + TTL_INCREMENT else NET_DIAMETER) });
       rreq_send dest seqno ttl flags;
       entry \<leftarrow> seek_list_insert dest seqno ttl flags;
       timer_set_timeout (Seek_timer entry) (if ring then RING_TRAVERSAL_TIME ttl else NET_TRAVERSAL_TIME) } }"

text \<open>
  The TTL is computed in \<^verbatim>\<open>double\<close> and truncated: half of the other hop count is rounded
  down where it is the larger of the two.
\<close>

definition rreq_local_repair :: "ptr option \<Rightarrow> u32 \<Rightarrow> unit daemon" where
  "rreq_local_repair x src_addr = (case x of
       None \<Rightarrow> return ()
     | Some rt \<Rightarrow> do {
         e \<leftarrow> rt_at rt;
         c \<leftarrow> seek_list_check (dest_addr e);
         if c \<noteq> None then return ()
         else if \<not> has (rt_flags e) RT_REPAIR then return ()
         else do {
           now \<leftarrow> gettimeofday;
           r \<leftarrow> rt_table_check src_addr;
           ttl \<leftarrow> (case r of
               None \<Rightarrow> return (int (unat (hopcnt e)) + LOCAL_ADD_TTL)
             | Some p \<Rightarrow> do {
                 se \<leftarrow> rt_at p;
                 return (max (int (unat (hopcnt e))) (int (unat (hopcnt se)) div 2) + LOCAL_ADD_TTL) });
           set_rt_handler rt Route_expire_timeout;
           extend_route rt now;
           rreq_send (dest_addr e) (dest_seqno e) ttl 0;
           entry \<leftarrow> seek_list_insert (dest_addr e) (dest_seqno e) ttl 0;
           ring \<leftarrow> reads expanding_ring_search;
           timer_set_timeout (Seek_timer entry)
             (if ring then 2 * ttl * NODE_TRAVERSAL_TIME else NET_TRAVERSAL_TIME) } })"

section \<open>What receiving keeps\<close>

lemma keeps_host [keeps_rule]:
  "spec (INV L n) (modify (\<lambda>s. s\<lparr>host_seqno := f s\<rparr>)) (\<lambda>_. INV L n)"
  "spec (INV L n) (modify (\<lambda>s. s\<lparr>host_rreq_id := f s\<rparr>)) (\<lambda>_. INV L n)"
  by (rule spec_modify, simp)+

lemma keeps_rreq_create [keeps_rule]: "spec (INV L n) (rreq_create fl d sq og) (\<lambda>_. INV L n)"
  unfolding rreq_create_def by (rule keeps_first | rule keeps_rule | simp)+

lemma keeps_rreq_send [keeps_rule]: "spec (INV L n) (rreq_send d sq ttl fl) (\<lambda>_. INV L n)"
  unfolding rreq_send_def by (rule keeps_first | rule keeps_rule | simp)+

lemma keeps_rreq_forward [keeps_rule]:
  "len \<le> BUF_SIZE \<Longrightarrow> spec (INV L n) (rreq_forward len ttl) (\<lambda>_. INV L n)"
  unfolding rreq_forward_def by (rule keeps_first | rule keeps_rule | simp)+

lemma keeps_forward_or_drop [keeps_rule]:
  assumes "Rt ` set_option x \<subseteq> L" and "len \<le> BUF_SIZE"
  shows "spec (INV L n) (rreq_forward_or_drop x sq len ttl) (\<lambda>_. INV L n)"
  unfolding rreq_forward_or_drop_def by (insert assms) (rule keeps_first | rule keeps_rule | simp)+

lemma keeps_rreq_answer [keeps_rule]:
  assumes "Rt p \<in> L" and "n \<le> 126" shows "spec (INV L n) (rreq_answer (Some p) sq) (\<lambda>_. INV L n)"
  unfolding rreq_answer_def by (insert assms) (rule keeps_first | rule keeps_rule | simp)+

lemma keeps_rreq_intermediate [keeps_rule]:
  assumes "Rt p \<in> L" and "Rt q \<in> L" and "n \<le> 126"
  shows "spec (INV L n) (rreq_intermediate q (Some p) now) (\<lambda>_. INV L n)"
  unfolding rreq_intermediate_def by (insert assms) (rule keeps_first | rule keeps_rule | simp)+

lemma keeps_rreq_checks [keeps_rule]:
  "spec (INV L n) (rreq_blacklist_check a) (\<lambda>_. INV L n)"
  "spec (INV L n) (rreq_record_check og i) (\<lambda>_. INV L n)"
  using bk.keeps_check rc.keeps_check [where k = "(og, i)"] by auto

lemma spec_Suc: "spec (INV L (Suc n)) m Q \<Longrightarrow> spec (INV L n) m Q"
  by (erule spec_pre) (auto elim: INV_mono)

lemma bind_reverse_route:
  assumes n: "n < 126" and L: "\<And>p. Seek p \<notin> L"
    and f: "\<And>p. spec (INV (insert (Rt p) L) (Suc n)) (f (Some p)) Q"
  shows "spec (INV L n) (State_Monad.bind (rreq_reverse_route og src hops sq life) f) Q"
proof -
  have old: "spec (INV (insert (Rt p) L) n) (State_Monad.bind (do {
         e \<leftarrow> rt_at p;
         if dest_seqno e = 0 \<or> seqno_gt sq (dest_seqno e)
            \<or> (sq = dest_seqno e \<and> (rt_state e = INVALID \<or> hops < ucast (hopcnt e)))
         then do {
           p' \<leftarrow> rt_table_update p src hops sq life VALID (rt_flags e);
           return (Some p) }
         else return (Some p) }) f) Q" for p
    by (insert n L) (rule f [THEN spec_Suc] | rule keeps_first | rule split_binds | rule keeps_rule | simp)+
  have new: "spec (\<lambda>s. INV L n s \<and> absent og s)
      (State_Monad.bind (rt_table_insert og src hops sq life VALID 0) f) Q"
    by (rule bind_insert [OF L f])
  show ?thesis unfolding rreq_reverse_route_def
    by (rule bind_assoc, rule bind_rt_check) (use n new old in simp_all)
qed

theorem keeps_rreq_process [keeps_rule]:
  assumes "n < 126" and "len \<le> int BUF_SIZE" and "\<And>p. Seek p \<notin> L"
  shows "spec (INV L n) (rreq_process len src dst ttl) (\<lambda>_. INV L (Suc n))"
  unfolding rreq_process_def rreq_accept_def
  by (insert assms)
    (rule bind_reverse_route | rule keeps_first | rule keeps_rule | rule keeps_forget | simp)+

section \<open>What starting a discovery keeps\<close>

text \<open>
  A discovery is started only where none for the address is under way, and nothing between
  the test and the insertion touches the seek entries.
\<close>

lemma seeks_timer [frame_rule]:
  "frame seeks (upd_timer t g)" "frame seeks (timer_remove t)" "frame seeks (timer_add t)"
  unfolding timer_remove_def timer_add_def upd_timer_def by (auto intro!: frame_rule)

lemma seeks_timer_set [frame_rule]: "frame seeks (timer_set_timeout t m)" "frame seeks (set_rt_handler p h)"
  unfolding timer_set_timeout_def set_rt_handler_def by (auto intro!: frame_rule)

lemma seeks_put_msg [frame_rule]: "frame seeks (put_msg i bs)" "frame seeks aodv_socket_new_msg"
  unfolding put_msg_def aodv_socket_new_msg_def by (auto intro!: frame_rule)

lemma seeks_rate [frame_rule]: "frame seeks (rate_check ty now)"
  unfolding rate_check_def by (auto intro!: frame_rule split: option.splits)

lemma seeks_send [frame_rule]: "frame seeks (aodv_socket_send d len ttl)"
  unfolding aodv_socket_send_def by (auto intro!: frame_rule)

lemma seeks_rreq_create [frame_rule]: "frame seeks (rreq_create fl d sq og)"
  unfolding rreq_create_def by (auto intro!: frame_rule)

lemma seeks_rreq_send [frame_rule]: "frame seeks (rreq_send d sq ttl fl)"
  unfolding rreq_send_def by (auto intro!: frame_rule)

lemma seeks_update_timeout [frame_rule]: "frame seeks (rt_table_update_timeout x l)"
  unfolding rt_table_update_timeout_def Let_def by (auto intro!: frame_rule)

lemma seeks_extend [frame_rule]: "frame seeks (extend_route rt now)"
  unfolding extend_route_def by (auto intro!: frame_rule)

definition unsought :: "u32 \<Rightarrow> node \<Rightarrow> bool" where
  "unsought d s \<longleftrightarrow> (\<forall>p e. seeks s p = Some e \<longrightarrow> sk_dest_addr e \<noteq> d)"

lemma bind_unsought:
  assumes "spec (INV L n) m (\<lambda>_. INV L n)" and "frame seeks m"
    and "\<And>a. spec (\<lambda>s. INV L n s \<and> unsought d s) (f a) Q"
  shows "spec (\<lambda>s. INV L n s \<and> unsought d s) (State_Monad.bind m f) Q"
  using keeps_frame [OF assms(1,2), of "\<lambda>h. \<forall>p e. h p = Some e \<longrightarrow> sk_dest_addr e \<noteq> d"] assms(3)
  by (auto simp: unsought_def intro: spec_bind)

lemma bind_seek_check:
  assumes "spec (\<lambda>s. INV L n s \<and> unsought d s) (f None) Q" and "\<And>p. spec (INV L n) (f (Some p)) Q"
  shows "spec (INV L n) (State_Monad.bind (seek_list_check d) f) Q"
  by (rule sk.bind_check) (use assms(1) in \<open>simp add: unsought_def\<close>, rule spec_pre [OF assms(2)], simp)

lemma unsought_return: "spec (\<lambda>s. INV L n s \<and> unsought d s) (return x) (\<lambda>_. INV L n)"
  by (rule spec_return) simp

lemma rt_at_and:
  assumes "Rt p \<in> L" and "\<And>e. entry_ok e \<Longrightarrow> spec (\<lambda>s. INV L n s \<and> G s) (f e) Q"
  shows "spec (\<lambda>s. INV L n s \<and> G s) (State_Monad.bind (rt_at p) f) Q"
proof (rule specI, elim conjE)
  fix s a s' assume inv: "INV L n s" and g: "G s" and r: "run_state (State_Monad.bind (rt_at p) f) s = (a, s')"
  obtain e where "rts s p = Some e" "entry_ok e" using INV_rt [OF inv assms(1)] by blast
  then show "Q a s'" using specD [OF assms(2), of e s a s'] inv g r by simp
qed

lemma bind_seek_insert:
  assumes "\<And>p. spec (INV (insert (Seek p) L) n) (f p) Q"
  shows "spec (\<lambda>s. INV L n s \<and> unsought d s) (State_Monad.bind (seek_list_insert d sq ttl fl) f) Q"
  unfolding unsought_def by (rule spec_bind [OF seek_list_insert_keeps assms])

lemma keeps_extend_route [keeps_rule]:
  "Rt p \<in> L \<Longrightarrow> spec (INV L n) (extend_route p now) (\<lambda>_. INV L n)"
  unfolding extend_route_def by (rule keeps_first | rule keeps_rule | simp)+

theorem keeps_route_discovery [keeps_rule]:
  assumes "n < 2 ^ 32" shows "spec (INV L n) (rreq_route_discovery d fl) (\<lambda>_. INV L n)"
  unfolding rreq_route_discovery_def
  by (insert assms)
    (rule unsought_return | rule bind_seek_check | rule bind_seek_insert | rule bind_check_and | rule rt_at_and | rule known_case
      | rule bind_known_case | rule split_binds | rule bind_unsought
      | rule keeps_first | rule keeps_rule | rule keeps_forget | rule frame_rule | simp)+

theorem keeps_local_repair [keeps_rule]:
  assumes "n < 2 ^ 32" and "Rt ` set_option x \<subseteq> L"
  shows "spec (INV L n) (rreq_local_repair x a) (\<lambda>_. INV L n)"
  unfolding rreq_local_repair_def
  by (insert assms)
    (rule unsought_return | rule bind_seek_check | rule bind_seek_insert | rule bind_check_and | rule rt_at_and | rule known_case
      | rule bind_known_case | rule split_binds | rule bind_unsought
      | rule keeps_first | rule keeps_rule | rule keeps_forget | rule frame_rule | simp)+

section \<open>Properties\<close>

text \<open>
  The RREQ that \<^verbatim>\<open>rreq_create\<close> leaves in the send buffer, read back as a receiver
  reads it: type, hop count 0, destination and its sequence number, originator and flags as
  given; the RREQ id, which is then incremented; and the own sequence number, incremented before.
  (A number that is 0 stays 0, and that is what the node starts with.)
\<close>

theorem rreq_create_roundtrip:
  "let s' = snd (run_state (rreq_create flags dest seqno orig) s); b = send_buf s' in
    length b = BUF_SIZE \<and> b ! 0 = AODV_RREQ \<and> b ! 1 = rreq_flag_bits flags \<and> b ! 3 = 0
    \<and> ntohl (peek32 4 b) = host_rreq_id s \<and> peek32 8 b = dest \<and> ntohl (peek32 12 b) = seqno
    \<and> peek32 16 b = orig \<and> ntohl (peek32 20 b) = seqno_incr (host_seqno s)
    \<and> host_rreq_id s' = host_rreq_id s + 1 \<and> host_seqno s' = seqno_incr (host_seqno s)
    \<and> rts s' = rts s \<and> fault s' = fault s"
  by (simp add: rreq_create_def aodv_socket_new_msg_def run_put_msg Let_def peek32_poke_other peek32_le32 nth_poke)

text \<open>
  The RREQs a node ignores. One that it sent itself, that is too short, whose sender is on
  the blacklist, or that is recorded as seen (same originator and id), changes nothing in
  \<^verbatim>\<open>rreq_process\<close>: no route is made, nothing is sent, no second record is kept.
\<close>

theorem rreq_process_ignores:
  assumes w: "wf s" and b: "b = recv_buf s"
    and ign: "peek32 16 b = dev_ipaddr s \<or> len < 24 \<or> (\<exists>p. bls s p = Some ip_src)
      \<or> (\<exists>p r. recs s p = Some r \<and> rec_orig_addr r = peek32 16 b \<and> rec_rreq_id r = ntohl (peek32 4 b))"
  shows "run_state (rreq_process len ip_src ip_dest ip_ttl) s = ((), s)"
proof -
  have l: "length b = 1024" using w b by (simp add: wf_def wf_socket_def)
  have g: "run_state (get32 i) s = (peek32 i b, s)" if "i \<le> 20" for i
    using that l b by (simp add: run_get32)
  have g8: "run_state (get8 3) s = (b ! 3, s)" using l b by (simp add: run_get8)
  obtain bl where bl: "run_state (rreq_blacklist_check ip_src) s = (bl, s)"
    using bk.check_state [OF w, of ip_src] by (metis prod.collapse)
  obtain rec where rec: "run_state (rreq_record_check (peek32 16 b) (ntohl (peek32 4 b))) s = (rec, s)"
    using rc.check_state [OF w, of "(peek32 16 b, ntohl (peek32 4 b))"] by (metis case_prod_conv prod.collapse)
  have hit: "bl = Some p" if "bls s p = Some ip_src" for p
    using bk.check_Some_iff [OF w, of ip_src p] bl that by simp
  have seen: "rec = Some p" if "recs s p = Some r" "rec_orig_addr r = peek32 16 b" "rec_rreq_id r = ntohl (peek32 4 b)" for p r
    using rc.check_Some_iff [OF w, of "(peek32 16 b, ntohl (peek32 4 b))" p] rec that by (auto simp: rec_key_def)
  consider "peek32 16 b = dev_ipaddr s" | "peek32 16 b \<noteq> dev_ipaddr s" "len < 24" | "bl \<noteq> None" | "rec \<noteq> None"
    using ign hit seen by blast
  then show ?thesis
    by cases (simp_all add: rreq_process_def g g8 bl rec Let_def)
qed

theorem rreq_process_ignores_witness:
  "let s = one_route\<lparr>dev_ipaddr := 77, recv_buf := poke 16 (le32 77) (replicate 1024 0)\<rparr>
   in run_state (rreq_process 24 10 255 3) s = ((), s)"
proof -
  let ?s = "one_route\<lparr>dev_ipaddr := 77, recv_buf := poke 16 (le32 77) (replicate 1024 0)\<rparr>"
  have "wf ?s" using one_route_simps(1) by (simp add: wf_def wf_socket_def)
  then show ?thesis using rreq_process_ignores [of ?s _ 24 10 255 3] by (simp add: peek32_le32 Let_def)
qed

end
