(* ===== verification/Hello.thy ===== *)
theory Hello
  imports Rreq
begin

text \<open>
  \<^verbatim>\<open>aodv_hello.c\<close>: sending HELLO messages (a RREP broadcast with TTL 1 about the
  sender itself) and receiving them.
\<close>

section \<open>Operations\<close>

definition hello_stop :: "unit daemon" where
  "hello_stop = do { timer_remove Hello_send_timer; return () }"

definition hello_send :: "unit daemon" where
  "hello_send = do {
     now \<leftarrow> gettimeofday;
     fwd \<leftarrow> reads last_forward_time;
     art \<leftarrow> reads active_route_timeout;
     if timeval_diff now fwd > art then hello_stop
     else do {
       bc \<leftarrow> reads last_broadcast_time;
       let time_diff = timeval_diff now bc;
       if time_diff \<ge> HELLO_INTERVAL then do {
         me \<leftarrow> reads dev_ipaddr;
         sq \<leftarrow> reads host_seqno;
         rrep_create 0 0 0 me sq me (of_int (ALLOWED_HELLO_LOSS * HELLO_INTERVAL));
         aodv_socket_send AODV_BROADCAST RREP_SIZE 1;
         timer_set_timeout Hello_send_timer HELLO_INTERVAL }
       else timer_set_timeout Hello_send_timer (wrap32 (HELLO_INTERVAL - time_diff)) } }"

definition hello_start :: "unit daemon" where
  "hello_start = do {
     used \<leftarrow> reads (\<lambda>s. t_used (timers s Hello_send_timer));
     if used then return ()
     else do {
       now \<leftarrow> gettimeofday;
       modify (\<lambda>s. s\<lparr>last_forward_time := now\<rparr>);
       timer_init Hello_send_timer Hello_send None;
       hello_send } }"

definition hello_process :: "unit daemon" where
  "hello_process = do {
     now \<leftarrow> gettimeofday;
     hello_dest \<leftarrow> get32 4;
     sq \<leftarrow> get32 8;
     let hello_seqno = ntohl sq;
     r \<leftarrow> rt_table_check hello_dest;
     nh \<leftarrow> reads receive_n_hellos;
     let st = (if nh \<noteq> 0 then INVALID else VALID);
     let timeout = of_int (ALLOWED_HELLO_LOSS * HELLO_INTERVAL + ROUTE_TIMEOUT_SLACK);
     case r of
       None \<Rightarrow> do {
         p \<leftarrow> rt_table_insert hello_dest hello_dest 1 hello_seqno timeout st 0;
         rt \<leftarrow> deref p;
         rt_upd rt (\<lambda>e. e\<lparr>hello_cnt := 1\<rparr>) }
     | Some rt \<Rightarrow> do {
         e \<leftarrow> rt_at rt;
         let flags = rt_flags e;
         if has flags RT_UNIDIR \<and> rt_state e = VALID \<and> hopcnt e > 1
         then hello_update_timeout rt now (ALLOWED_HELLO_LOSS * HELLO_INTERVAL)
         else if nh \<noteq> 0 \<and> int (unat (hello_cnt e)) < nh - 1 then
           rt_upd rt (\<lambda>e. e\<lparr>hello_cnt :=
               (if timeval_diff now (last_hello_time e) < HELLO_INTERVAL + HELLO_INTERVAL div 2
                then hello_cnt e + 1 else 1),
             last_hello_time := now\<rparr>)
         else do {
           rt_table_update rt hello_dest 1 hello_seqno timeout VALID flags;
           hello_update_timeout rt now (ALLOWED_HELLO_LOSS * HELLO_INTERVAL) } } }"

section \<open>What they keep\<close>

lemma keeps_hello_stop [keeps_rule]: "spec (INV L n) hello_stop (\<lambda>_. INV L n)"
  unfolding hello_stop_def by (rule keeps_rule)+

lemma keeps_hello_send [keeps_rule]: "spec (INV L n) hello_send (\<lambda>_. INV L n)"
  unfolding hello_send_def by (rule keeps_first | rule keeps_rule | simp)+

lemma bind_insert_deref [keeps_first]:
  assumes "\<And>p. Seek p \<notin> L" and "\<And>p. spec (INV (insert (Rt p) L) (Suc n)) (f (Some p)) Q"
  shows "spec (\<lambda>s. INV L n s \<and> absent d s)
    (State_Monad.bind (rt_table_insert d nh hops sq lt st fl) f) Q"
  by (rule bind_insert [OF assms])

theorem keeps_hello_process [keeps_rule]:
  assumes "n < 126" and "\<And>p. Seek p \<notin> L" shows "spec (INV L n) hello_process (\<lambda>_. INV L (Suc n))"
  unfolding hello_process_def
  by (insert assms)
    (rule bind_rt_check | rule keeps_first | rule keeps_rule | rule keeps_forget | simp)+

end
