(* ===== verification/Timeout.thy ===== *)
theory Timeout
  imports Hello
begin

text \<open>
  \<^verbatim>\<open>aodv_timeout.c\<close>: the functions the timers call. Those of the RREQ records and the
  blacklist are in \<^verbatim>\<open>Seek_List\<close>.
\<close>

section \<open>Handlers\<close>

definition local_repair_timeout :: "ptr option \<Rightarrow> unit daemon" where
  "local_repair_timeout x = (case x of
       None \<Rightarrow> return ()
     | Some rt \<Rightarrow> do {
         rt_upd rt (\<lambda>e. e\<lparr>rt_flags := rt_flags e AND NOT RT_REPAIR\<rparr>);
         e \<leftarrow> rt_at rt;
         nl_send_del_route_msg (dest_addr e) (next_hop e) (ucast (hopcnt e));
         only_if (nprecursor e \<noteq> 0) (do {
           rerr_create 0 (dest_addr e) (dest_seqno e);
           c \<leftarrow> reads (\<lambda>s. send_buf s ! 3);
           rerr_dest \<leftarrow> (if nprecursor e = 1 then first_prec e else return AODV_BROADCAST);
           aodv_socket_send rerr_dest (unat (RERR_CALC_SIZE c)) 1 });
         precursor_list_destroy (Some rt);
         set_rt_handler rt Route_delete_timeout;
         t \<leftarrow> reads delete_period;
         timer_set_timeout (Rt_timer rt) t })"

definition route_discovery_timeout :: "ptr option \<Rightarrow> unit daemon" where
  "route_discovery_timeout x = (case x of
       None \<Rightarrow> return ()
     | Some entry \<Rightarrow> do {
         now \<leftarrow> gettimeofday;
         e \<leftarrow> seek_at entry;
         if rreq_cnt e < RREQ_RETRIES then do {
           ring \<leftarrow> reads expanding_ring_search;
           (if ring then do {
              seek_upd entry (\<lambda>e. e\<lparr>sk_ttl :=
                if sk_ttl e < TTL_THRESHOLD then sk_ttl e + TTL_INCREMENT else NET_DIAMETER\<rparr>);
              e \<leftarrow> seek_at entry;
              timer_set_timeout (Seek_timer entry) (RING_TRAVERSAL_TIME (sk_ttl e)) }
            else timer_set_timeout (Seek_timer entry) (rreq_cnt e * 2 * NET_TRAVERSAL_TIME));
           e \<leftarrow> seek_at entry;
           r \<leftarrow> rt_table_check (sk_dest_addr e);
           (case r of None \<Rightarrow> return () | Some rt \<Rightarrow> extend_route rt now);
           rreq_send (sk_dest_addr e) (sk_dest_seqno e) (sk_ttl e) (sk_flags e);
           seek_upd entry (\<lambda>e. e\<lparr>rreq_cnt := rreq_cnt e + 1\<rparr>) }
         else do {
           nl_send_no_route_found_msg (sk_dest_addr e);
           r \<leftarrow> rt_table_check (sk_dest_addr e);
           seek_list_remove (Some entry);
           case r of None \<Rightarrow> return ()
           | Some rt \<Rightarrow> do {
               re \<leftarrow> rt_at rt;
               only_if (has (rt_flags re) RT_REPAIR) (local_repair_timeout (Some rt)) } } })"

definition route_expire_timeout :: "ptr option \<Rightarrow> unit daemon" where
  "route_expire_timeout x = (case x of
       None \<Rightarrow> return ()
     | Some rt \<Rightarrow> do {
         e \<leftarrow> rt_at rt;
         if hopcnt e = 1 then neighbor_link_break (Some rt)
         else do {
           rt_table_invalidate (Some rt);
           precursor_list_destroy (Some rt) } })"

definition route_delete_timeout :: "ptr option \<Rightarrow> unit daemon" where
  "route_delete_timeout x = (case x of None \<Rightarrow> return () | Some rt \<Rightarrow> rt_table_delete (Some rt))"

definition hello_timeout :: "ptr option \<Rightarrow> unit daemon" where
  "hello_timeout x = (case x of
       None \<Rightarrow> return ()
     | Some rt \<Rightarrow> do {
         now \<leftarrow> gettimeofday;
         e \<leftarrow> rt_at rt;
         only_if (rt_state e = VALID \<and> \<not> has (rt_flags e) RT_UNIDIR) (do {
           lr \<leftarrow> reads local_repair;
           only_if (lr \<and> int (unat (hopcnt e)) \<le> MAX_REPAIR_TTL)
             (rt_upd rt (\<lambda>e. e\<lparr>rt_flags := rt_flags e OR RT_REPAIR\<rparr>));
           neighbor_link_break (Some rt) }) })"

definition rrep_ack_timeout :: "ptr option \<Rightarrow> unit daemon" where
  "rrep_ack_timeout x = (case x of
       None \<Rightarrow> return ()
     | Some rt \<Rightarrow> do {
         e \<leftarrow> rt_at rt;
         rreq_blacklist_insert (dest_addr e);
         return () })"

definition wait_on_reboot_timeout :: "unit daemon" where
  "wait_on_reboot_timeout = modify (\<lambda>s. s\<lparr>wait_on_reboot := False\<rparr>)"

text \<open>
  \<^verbatim>\<open>print_rt_table\<close> of \<^verbatim>\<open>debug.c\<close> writes the table to a log file and arms its
  timer again; what it writes is in \<^verbatim>\<open>Debug_Log.thy\<close>.
\<close>

definition print_rt_table :: "unit daemon" where
  "print_rt_table = do {
     n \<leftarrow> reads num_entries;
     only_if (n \<noteq> 0) (do { now \<leftarrow> gettimeofday; return () });
     t \<leftarrow> reads rt_log_interval;
     timer_set_timeout Rt_log_timer t }"

section \<open>What they keep\<close>

lemma keeps_local_repair_timeout [keeps_rule]:
  assumes "Rt p \<in> L" shows "spec (INV L n) (local_repair_timeout (Some p)) (\<lambda>_. INV L n)"
  unfolding local_repair_timeout_def
  by (insert assms)
    (rule keeps_single_rerr | rule keeps_first | rule split_binds | rule keeps_rule | simp add: CALC_SIZE)+

lemma keeps_route_expire_timeout [keeps_rule]:
  assumes "Rt p \<in> L" and "n \<le> 126"
  shows "spec (INV L n) (route_expire_timeout (Some p)) (\<lambda>_. INV L n)"
  unfolding route_expire_timeout_def
  by (insert assms) (rule keeps_first | rule keeps_rule | simp)+

lemma keeps_hello_timeout [keeps_rule]:
  assumes "Rt p \<in> L" and "n \<le> 126"
  shows "spec (INV L n) (hello_timeout (Some p)) (\<lambda>_. INV L n)"
  unfolding hello_timeout_def
  by (insert assms) (rule keeps_first | rule keeps_rule | simp)+

lemma keeps_rrep_ack_timeout [keeps_rule]:
  assumes "Rt p \<in> L" shows "spec (INV L n) (rrep_ack_timeout (Some p)) (\<lambda>_. INV L n)"
  unfolding rrep_ack_timeout_def
  by (insert assms) (rule keeps_first | rule keeps_rule | simp)+

lemma keeps_route_delete_timeout:
  assumes "Rt p \<in> L"
  shows "spec (INV L n) (route_delete_timeout (Some p)) (\<lambda>_. INV (L - {Rt p}) n)"
  unfolding route_delete_timeout_def
  by (simp, rule spec_post [OF rt_table_delete_keeps [OF assms]]) (auto elim: INV_mono)

lemma keeps_print_rt_table [keeps_rule]: "spec (INV L n) print_rt_table (\<lambda>_. INV L n)"
  unfolding print_rt_table_def by (rule keeps_first | rule keeps_rule | simp)+

lemma keeps_route_discovery_timeout:
  assumes "n < 2 ^ 32"
  shows "spec (INV {Seek p, Waiting k} n) (route_discovery_timeout (Some p)) (\<lambda>_. INV {Waiting k} n)"
proof -
  have stop: "spec (INV L n) (State_Monad.bind (seek_list_remove (Some p)) f) Q"
    if "spec (INV (L - {Seek p}) n) (f 0) Q" and "\<And>i. f i = f 0" for L f and Q :: "unit \<Rightarrow> node \<Rightarrow> bool"
  proof (rule spec_bind [OF seek_list_remove_keeps])
    show "spec (INV (L - Seek ` set_option (Some p)) n) (f i) Q" for i
      using that by (metis image_empty image_insert option.set(2))
  qed
  show ?thesis unfolding route_discovery_timeout_def
    by (insert assms)
      (rule stop | rule keeps_first | rule keeps_rule | rule keeps_forget | simp add: insert_Diff_if)+
qed

section \<open>Properties\<close>

text \<open>Running a program over known seek entries \<open>h\<close>.\<close>

lemma seek_keep:
  "frame seeks m \<Longrightarrow> (\<And>a. spec (\<lambda>s. seeks s = h) (f a) Q) \<Longrightarrow> spec (\<lambda>s. seeks s = h) (State_Monad.bind m f) Q"
  by (rule spec_bind [OF frame_spec [where Q = "\<lambda>x. x = h"]])

lemma seek_step:
  "h p = Some e \<Longrightarrow> spec (\<lambda>s. seeks s = h(p \<mapsto> u e)) (f ()) Q \<Longrightarrow>
   spec (\<lambda>s. seeks s = h) (State_Monad.bind (seek_upd p u) f) Q"
proof (rule specI)
  fix s a s' assume "h p = Some e" and f: "spec (\<lambda>s. seeks s = h(p \<mapsto> u e)) (f ()) Q" and "seeks s = h"
    and "run_state (State_Monad.bind (seek_upd p u) f) s = (a, s')"
  then have "run_state (f ()) (s\<lparr>seeks := h(p \<mapsto> u e)\<rparr>) = (a, s')" by simp
  then show "Q a s'" by (rule specD [OF f, rotated]) simp
qed

lemma seek_read:
  "h p = Some e \<Longrightarrow> spec (\<lambda>s. seeks s = h) (f e) Q \<Longrightarrow> spec (\<lambda>s. seeks s = h) (State_Monad.bind (seek_at p) f) Q"
  by (simp add: spec_def)

lemma seeks_check [frame_rule]: "frame seeks (rt_table_check d)"
  unfolding rt_table_check_def Let_def by (auto intro!: frame_rule split: prod.splits)

definition next_ttl :: "int \<Rightarrow> int" where
  "next_ttl ttl = (if ttl < TTL_THRESHOLD then ttl + TTL_INCREMENT else NET_DIAMETER)"

lemma discovery_retries:
  assumes e: "h p = Some e" and few: "rreq_cnt e < RREQ_RETRIES"
  shows "spec (\<lambda>s. seeks s = h \<and> expanding_ring_search s = ring) (route_discovery_timeout (Some p))
    (\<lambda>_ s. seeks s = h(p \<mapsto> e\<lparr>sk_ttl := if ring then next_ttl (sk_ttl e) else sk_ttl e, rreq_cnt := rreq_cnt e + 1\<rparr>))"
proof -
  let ?e1 = "e\<lparr>sk_ttl := if ring then next_ttl (sk_ttl e) else sk_ttl e\<rparr>"
  have rest: "spec (\<lambda>s. seeks s = h(p \<mapsto> ?e1)) (do {
      e \<leftarrow> seek_at p;
      r \<leftarrow> rt_table_check (sk_dest_addr e);
      (case r of None \<Rightarrow> return () | Some rt \<Rightarrow> extend_route rt now);
      rreq_send (sk_dest_addr e) (sk_dest_seqno e) (sk_ttl e) (sk_flags e);
      seek_upd p (\<lambda>e. e\<lparr>rreq_cnt := rreq_cnt e + 1\<rparr>) })
    (\<lambda>_ s. seeks s = h(p \<mapsto> ?e1\<lparr>rreq_cnt := rreq_cnt e + 1\<rparr>))" for now
    apply (rule seek_read, rule fun_upd_same)
    apply (rule seek_keep, rule frame_rule)
    apply (rule seek_keep, intro frame_rule)
    apply (rule seek_keep, rule frame_rule)
    by (simp add: spec_def seek_upd_def)
  have timer: "spec (\<lambda>s. seeks s = h') (timer_set_timeout t m) (\<lambda>_ s. seeks s = h')" for h' t m
    by (rule frame_spec [where Q = "\<lambda>x. x = h'"]) (rule frame_rule)
  have ring: "spec (\<lambda>s. seeks s = h) (if ring then do {
        seek_upd p (\<lambda>e. e\<lparr>sk_ttl := if sk_ttl e < TTL_THRESHOLD then sk_ttl e + TTL_INCREMENT else NET_DIAMETER\<rparr>);
        e \<leftarrow> seek_at p;
        timer_set_timeout (Seek_timer p) (RING_TRAVERSAL_TIME (sk_ttl e)) }
      else timer_set_timeout (Seek_timer p) (rreq_cnt e * 2 * NET_TRAVERSAL_TIME)) (\<lambda>_ s. seeks s = h(p \<mapsto> ?e1))"
  proof (cases ring)
    case True
    show ?thesis
      apply (simp only: True if_True)
      apply (rule seek_step, rule e)
      apply (rule seek_read, rule fun_upd_same)
      using timer [of "h(p \<mapsto> e\<lparr>sk_ttl := next_ttl (sk_ttl e)\<rparr>)"] by (simp add: next_ttl_def)
  next
    case False
    then have "h(p \<mapsto> ?e1) = h" using e by (simp add: fun_upd_idem)
    then show ?thesis using False timer [of h] by simp
  qed
  show ?thesis
  proof (rule specI, elim conjE)
    fix s a s' assume h: "seeks s = h" and er: "expanding_ring_search s = ring"
      and r: "run_state (route_discovery_timeout (Some p)) s = (a, s')"
    note both = spec_bind [OF ring, OF rest [of "env_time s (tick s)"]]
    show "seeks s' = h(p \<mapsto> ?e1\<lparr>rreq_cnt := rreq_cnt e + 1\<rparr>)"
      by (rule specD [OF both, of "s\<lparr>tick := Suc (tick s)\<rparr>" a])
        (use r h er e few in \<open>simp_all add: route_discovery_timeout_def\<close>)
  qed
qed



text \<open>
  C35: a discovery that has used up its retries, for a destination without a route, ends: its
  entry and its timer are gone, the kernel module is told that there is no route, and no further
  RREQ is sent.
\<close>

theorem discovery_gives_up:
  assumes w: "wf s" and n: "length (all_rts (tbl s)) < 2 ^ 32" and e: "seeks s p = Some e"
    and many: "RREQ_RETRIES \<le> rreq_cnt e" and no: "absent (sk_dest_addr e) s"
    and env: "\<forall>k. 0 \<le> env_ret s k"
  shows "let s' = snd (run_state (route_discovery_timeout (Some p)) s) in
    seeks s' = (seeks s)(p := None) \<and> \<not> attached s' (Seek_timer p) \<and> sent s' = sent s \<and> wf s'
    \<and> (\<exists>m. nl_out s' = nl_out s @ [m] \<and> nlmsg_type m = KAODVM_NOROUTE_FOUND
        \<and> nl_body m = Rt_msg (blank_rt_msg\<lparr>m_dest := sk_dest_addr e\<rparr>))"
proof -
  let ?n = "length (all_rts (tbl s))"
  let ?s0 = "s\<lparr>tick := Suc (tick s)\<rparr>"
  let ?s1 = "snd (run_state (nl_send_no_route_found_msg (sk_dest_addr e)) ?s0)"
  let ?s' = "snd (run_state (seek_list_remove (Some p)) ?s1)"
  have "INV {} ?n ?s0" using wf_INV [OF w] by (simp add: INV_def wf_def)
  then have i1: "INV {} ?n ?s1" by (rule spec_snd [rotated]) (rule keeps_rule)
  have "\<not> env_ret s k < 0" for k using env by (simp add: not_less)
  then have s1: "rts ?s1 = rts s" "seeks ?s1 = seeks s" "sent ?s1 = sent s"
    "\<exists>m. nl_out ?s1 = nl_out s @ [m] \<and> nlmsg_type m = KAODVM_NOROUTE_FOUND
        \<and> nl_body m = Rt_msg (blank_rt_msg\<lparr>m_dest := sk_dest_addr e\<rparr>)"
    by (simp_all add: nl_send_no_route_found_msg_def nl_send_def aodv_msg_of_def)
  obtain r where r: "run_state (rt_table_check (sk_dest_addr e)) ?s1 = (r, ?s1)"
    "\<And>q. r = Some q \<longleftrightarrow> (\<exists>x. rts ?s1 q = Some x \<and> dest_addr x = sk_dest_addr e)"
    using run_rt_check [OF i1 n] by blast
  have "r = None" using r(2) no s1(1) by (cases r) (auto simp: absent_def)
  then have run: "snd (run_state (route_discovery_timeout (Some p)) s) = ?s'"
    using e many r(1) by (simp add: route_discovery_timeout_def case_prod_beta)
  have i': "INV {} ?n ?s'"
    using spec_snd [OF seek_list_remove_keeps [of "{}"] i1, of "Some p"] by simp
  have s': "seeks ?s' = (seeks s)(p := None)" "sent ?s' = sent ?s1" "nl_out ?s' = nl_out ?s1"
    using s1(2) by (simp_all add: seek_list_remove_def timer_remove_def)
  have "\<not> attached ?s' (Seek_timer p)" using attached_live [OF i', of "Seek_timer p"] s'(1) by auto
  then show ?thesis unfolding run Let_def using s' s1 INV_wf [OF i'] by simp
qed

definition sought :: node where
  "sought = snd (run_state (do { p \<leftarrow> seek_list_insert 20 0 4 0; seek_upd p (\<lambda>e. e\<lparr>rreq_cnt := 2\<rparr>) }) node0)"

lemma sought_simps:
  "wf sought" "rts sought = Map.empty" "all_rts (tbl sought) = []" "env_ret sought = (\<lambda>_. 0)"
  "seeks sought = [0 \<mapsto> \<lparr>sk_dest_addr = 20, sk_dest_seqno = 0, sk_flags = 0, rreq_cnt = 2, sk_ttl = 4\<rparr>]"
  "sent sought = []"
proof -
  have keeps: "spec (\<lambda>s. INV {} 0 s \<and> unsought 20 s) (do { p \<leftarrow> seek_list_insert 20 0 4 0; seek_upd p (\<lambda>e. e\<lparr>rreq_cnt := 2\<rparr>) })
      (\<lambda>_. INV {} 0)"
    by (rule bind_seek_insert) (rule keeps_forget keeps_seek_upd | simp)+
  have "unsought 20 node0" by (simp add: unsought_def node0_def globals_def)
  then have "INV {} 0 sought" unfolding sought_def by (intro spec_snd [OF keeps]) (simp add: node0_INV)
  then show "wf sought" by (rule INV_wf)
  show "rts sought = Map.empty" "all_rts (tbl sought) = []" "env_ret sought = (\<lambda>_. 0)"
    "seeks sought = [0 \<mapsto> \<lparr>sk_dest_addr = 20, sk_dest_seqno = 0, sk_flags = 0, rreq_cnt = 2, sk_ttl = 4\<rparr>]"
    "sent sought = []"
    by (simp_all add: sought_def seek_list_insert_def timer_init_def node0_def globals_def attached_def)
qed

theorem discovery_gives_up_witness:
  "let s' = snd (run_state (route_discovery_timeout (Some 0)) sought) in
    seeks s' = Map.empty \<and> sent s' = [] \<and> \<not> attached s' (Seek_timer 0) \<and> wf s'"
  using discovery_gives_up [OF sought_simps(1), of 0] by (simp add: sought_simps absent_def Let_def)

end
