(* ===== verification/Dispatch.thy ===== *)
theory Dispatch
  imports Timeout
begin

text \<open>
  The entry points of the daemon: the table of timer handlers, the receiving half of
  \<^verbatim>\<open>aodv_socket.c\<close>, the messages of the kernel module that \<^verbatim>\<open>nl.c\<close>
  receives, the start-up and the main loop of \<^verbatim>\<open>main.c\<close>. What \<^verbatim>\<open>recvmsg\<close>,
  \<^verbatim>\<open>recvfrom\<close> and \<^verbatim>\<open>select\<close> return are the events of the loop.
\<close>

section \<open>Timer handlers\<close>

text \<open>The functions the handlers stand for; their argument is the timer's \<^verbatim>\<open>data\<close>.\<close>

fun call :: "handler \<Rightarrow> ptr option \<Rightarrow> unit daemon" where
  "call Rreq_record_timeout d = (case d of Some p \<Rightarrow> rreq_record_timeout p | None \<Rightarrow> crash)"
| "call Rreq_blacklist_timeout d = (case d of Some p \<Rightarrow> rreq_blacklist_timeout p | None \<Rightarrow> crash)"
| "call Route_discovery_timeout d = route_discovery_timeout d"
| "call Local_repair_timeout d = local_repair_timeout d"
| "call Route_expire_timeout d = route_expire_timeout d"
| "call Route_delete_timeout d = route_delete_timeout d"
| "call Hello_timeout d = hello_timeout d"
| "call Rrep_ack_timeout d = rrep_ack_timeout d"
| "call Wait_on_reboot_timeout d = wait_on_reboot_timeout"
| "call Hello_send d = hello_send"
| "call Print_rt_table d = print_rt_table"

section \<open>Receiving a message\<close>

definition aodv_socket_package_process :: "int \<Rightarrow> u32 \<Rightarrow> u32 \<Rightarrow> int \<Rightarrow> unit daemon" where
  "aodv_socket_package_process len src dest ttl = do {
     ty \<leftarrow> get8 0;
     only_if (ty = AODV_RREP \<and> ttl = 1 \<and> dest = AODV_BROADCAST) (set_recv 0 [AODV_HELLO]);
     neighbor_add src;
     ty \<leftarrow> get8 0;
     if ty = AODV_HELLO then hello_process
     else if ty = AODV_RREQ then rreq_process len src dest ttl
     else if ty = AODV_RREP then rrep_process len src dest ttl
     else if ty = AODV_RERR then rerr_process len src dest
     else if ty = AODV_RREP_ACK then rrep_ack_process src
     else return () }"

text \<open>
  What \<^verbatim>\<open>recvmsg\<close> reports: an error, or the bytes of a datagram, its source and the
  control messages. The kernel writes at most the size of the buffer; one byte of the
  TTL is read.
\<close>

datatype cmsg = Cm_ttl u8 | Cm_pktinfo u32 | Cm_other

datatype recv_result = Recv_error | Received "u8 list" u32 "cmsg list"

fun scan_cmsgs :: "cmsg list \<Rightarrow> int \<times> u32 \<Rightarrow> int \<times> u32" where
  "scan_cmsgs [] acc = acc"
| "scan_cmsgs (Cm_ttl b # cs) (ttl, dest) = scan_cmsgs cs (int (unat b), dest)"
| "scan_cmsgs (Cm_pktinfo a # cs) (ttl, dest) = scan_cmsgs cs (ttl, a)"
| "scan_cmsgs (Cm_other # cs) acc = scan_cmsgs cs acc"

definition aodv_socket_read :: "recv_result \<Rightarrow> unit daemon" where
  "aodv_socket_read r = (case r of
       Recv_error \<Rightarrow> return ()
     | Received bytes src cmsgs \<Rightarrow> do {
         let bs = take BUF_SIZE bytes;
         set_recv 0 bs;
         let (ttl, dest) = scan_cmsgs cmsgs (- 1, 0xffffffff);
         if ttl < 0 then return ()
         else do {
           en \<leftarrow> reads dev_enabled;
           me \<leftarrow> reads dev_ipaddr;
           if en \<and> src = me then return ()
           else aodv_socket_package_process (int (length bs)) src dest ttl } })"

section \<open>Messages of the kernel module\<close>

text \<open>
  The message as \<^verbatim>\<open>nl_kaodv_callback\<close> reads it: its type, and the destination and
  source of its \<^verbatim>\<open>struct kaodv_rt_msg\<close>. Acknowledgements and debug messages are
  only logged.
\<close>

datatype kernel_msg = Km_error | Km_route int u32 u32

definition nl_send_rerr :: "u32 \<Rightarrow> u32 \<Rightarrow> unit daemon" where
  "nl_send_rerr dest src = do {
     fwd_rt \<leftarrow> rt_table_check dest;
     rev_rt \<leftarrow> rt_table_check src;
     dp \<leftarrow> reads delete_period;
     (d, sq) \<leftarrow> (case fwd_rt of
         None \<Rightarrow> return (dest, 0)
       | Some rt \<Rightarrow> do { e \<leftarrow> rt_at rt; return (dest_addr e, dest_seqno e) });
     rerr_create 0 d sq;
     c \<leftarrow> reads (\<lambda>s. send_buf s ! 3);
     (case fwd_rt of None \<Rightarrow> return ()
      | Some rt \<Rightarrow> do { rt_table_update_timeout (Some rt) (of_int dp); return () });
     rerr_dest \<leftarrow> (case rev_rt of
         None \<Rightarrow> return AODV_BROADCAST
       | Some rv \<Rightarrow> do { e \<leftarrow> rt_at rv; return (if rt_state e = VALID then next_hop e else AODV_BROADCAST) });
     aodv_socket_send rerr_dest (unat (RERR_CALC_SIZE c)) 1;
     wor \<leftarrow> reads wait_on_reboot;
     only_if wor (timer_set_timeout Worb_timer dp) }"

definition nl_kaodv_callback :: "kernel_msg option \<Rightarrow> unit daemon" where
  "nl_kaodv_callback x = (case x of
       None \<Rightarrow> return ()
     | Some Km_error \<Rightarrow> return ()
     | Some (Km_route ty dest src) \<Rightarrow>
         if ty = KAODVM_TIMEOUT then do {
           r \<leftarrow> rt_table_check dest;
           case r of None \<Rightarrow> return ()
           | Some rt \<Rightarrow> do { e \<leftarrow> rt_at rt; only_if (rt_state e = VALID) (route_expire_timeout (Some rt)) } }
         else if ty = KAODVM_ROUTE_REQ then rreq_route_discovery dest 0
         else if ty = KAODVM_REPAIR then do {
           r \<leftarrow> rt_table_check dest;
           case r of None \<Rightarrow> return () | Some rt \<Rightarrow> rreq_local_repair (Some rt) src }
         else if ty = KAODVM_ROUTE_UPDATE then do {
           bc \<leftarrow> reads dev_broadcast;
           if dest = AODV_BROADCAST \<or> dest = bc then return ()
           else do {
             fwd_rt \<leftarrow> rt_table_check dest;
             rev_rt \<leftarrow> rt_table_check src;
             rt_table_update_route_timeouts fwd_rt rev_rt } }
         else if ty = KAODVM_SEND_RERR then do {
           bc \<leftarrow> reads dev_broadcast;
           if dest = AODV_BROADCAST \<or> dest = bc then return ()
           else nl_send_rerr dest src }
         else return ())"

section \<open>The main loop\<close>

datatype event = Datagram recv_result | Kernel "kernel_msg option" | Kernel_route

definition handle :: "event \<Rightarrow> unit daemon" where
  "handle ev = (case ev of
       Datagram r \<Rightarrow> aodv_socket_read r
     | Kernel m \<Rightarrow> nl_kaodv_callback m
     | Kernel_route \<Rightarrow> return ())"

text \<open>One turn: the timers, then the callbacks of the descriptors that are ready.\<close>

definition main_turn :: "event list \<Rightarrow> unit daemon" where
  "main_turn evs = do { timer_age_queue call; for_each handle evs }"

section \<open>Start-up\<close>

definition log_rt_table_init :: "unit daemon" where
  "log_rt_table_init = do {
     timer_init Rt_log_timer Print_rt_table None;
     t \<leftarrow> reads rt_log_interval;
     timer_set_timeout Rt_log_timer t }"

definition host_init :: "int \<Rightarrow> u32 \<Rightarrow> u32 \<Rightarrow> unit daemon" where
  "host_init ifindex ipaddr broadcast = do {
     modify (\<lambda>s. s\<lparr>host_seqno := 0, host_rreq_id := 0, last_forward_time := zero_time\<rparr>);
     now \<leftarrow> gettimeofday;
     modify (\<lambda>s. s\<lparr>last_broadcast_time := now, dev_ifindex := ifindex, dev_ipaddr := ipaddr,
       dev_broadcast := broadcast, dev_enabled := True\<rparr>) }"

definition main_init :: "int \<Rightarrow> u32 \<Rightarrow> u32 \<Rightarrow> unit daemon" where
  "main_init ifindex ipaddr broadcast = do {
     log_rt_table_init;
     rt_table_init;
     host_init ifindex ipaddr broadcast;
     modify (\<lambda>s. s\<lparr>aodvnl_seqno := 0, rtnl_seqno := 0\<rparr>);
     nl_send_conf_msg;
     modify (\<lambda>s. s\<lparr>num_rreq := 0, num_rerr := 0\<rparr>) }"

section \<open>What the handlers keep\<close>

text \<open>Taking the first expired timer off its list.\<close>

lemma pop_expired:
  assumes inv: "INV {Waiting (Suc k)} n s" and q: "exptq s = t # q"
  defines "s1 \<equiv> s\<lparr>exptq := q, timers := (timers s)(t := (timers s t)\<lparr>t_used := False\<rparr>)\<rparr>"
  shows "INV {Waiting k} n s1" and "\<not> attached s1 t" and "live_timer (rts s1) (seeks s1) (recs s1) (bls s1) t"
    and "handler_ok t (t_handler (timers s1 t)) (t_data (timers s1 t))"
proof -
  note w = INV_timers [OF inv]
  have t: "t \<notin> set (tq s)" "t \<notin> set q" using w q by (auto simp: wf_timers_def)
  have l: "live_timer (rts s) (seeks s) (recs s) (bls s) t" using w q by (auto simp: wf_timers_def)
  have "wf_timers (remove1 t (tq s)) (remove1 t (exptq s)) ((timers s)(t := (timers s t)\<lparr>t_used := False\<rparr>))
      (live_timer (rts s) (seeks s) (recs s) (bls s))" by (rule wf_timers_remove [OF w])
  then have "wf_timers (tq s) q ((timers s)(t := (timers s t)\<lparr>t_used := False\<rparr>))
      (live_timer (rts s) (seeks s) (recs s) (bls s))" using q t by (simp add: remove1_idem)
  moreover have "length q \<le> k" using inv q by (simp add: INV_def waiting_ok_def)
  ultimately show "INV {Waiting k} n s1"
    using inv by (auto simp: s1_def INV_def wf_def waiting_ok_def objs_def)
  show "\<not> attached s1 t" using t by (simp add: s1_def attached_def)
  show "live_timer (rts s1) (seeks s1) (recs s1) (bls s1) t" using l by (simp add: s1_def)
  show "handler_ok t (t_handler (timers s1 t)) (t_data (timers s1 t))"
    using w l by (auto simp: s1_def wf_timers_def)
qed

lemma INV_hold:
  "INV L n s \<Longrightarrow> p \<in> dom (rts s) \<Longrightarrow> INV (insert (Rt p) L) n s"
  "INV L n s \<Longrightarrow> p \<in> dom (seeks s) \<Longrightarrow> INV (insert (Seek p) L) n s"
  by (auto simp: INV_def objs_def)

lemma call_rt:
  assumes "n \<le> 126" and "f \<in> {Route_expire_timeout, Route_delete_timeout, Local_repair_timeout,
    Hello_timeout, Rrep_ack_timeout}"
  shows "spec (INV {Rt p, Waiting k} n) (call f (Some p)) (\<lambda>_. INV {Waiting k} n)"
proof (cases "f = Route_delete_timeout")
  case True
  then show ?thesis by (auto intro: spec_post [OF keeps_route_delete_timeout] INV_mono)
next
  case False
  have "spec (INV {Rt p, Waiting k} n) (call f (Some p)) (\<lambda>_. INV {Rt p, Waiting k} n)"
    using assms False by (auto intro: keeps_rule)
  then show ?thesis by (rule keeps_forget)
qed

lemma call_keeps:
  assumes n: "n \<le> 126" and inv: "INV {Waiting k} n s" and na: "\<not> attached s t"
    and live: "live_timer (rts s) (seeks s) (recs s) (bls s) t"
    and h: "handler_ok t (Some f) d"
  shows "INV {Waiting k} n (snd (run_state (call f d) s))"
proof -
  have n32: "n < 2 ^ 32" using n by simp
  show ?thesis
  proof (cases t)
    case (Rt_timer p)
    then have "INV {Rt p, Waiting k} n s" using live by (intro INV_hold inv) simp
    then show ?thesis using h n Rt_timer by (auto intro: spec_snd [OF call_rt] simp del: call.simps)
  next
    case (Ack_timer p)
    then have "INV {Rt p, Waiting k} n s" using live by (intro INV_hold inv) simp
    then show ?thesis using h n Ack_timer by (auto intro: spec_snd [OF call_rt] simp del: call.simps)
  next
    case (Hello_timer p)
    then have "INV {Rt p, Waiting k} n s" using live by (intro INV_hold inv) simp
    then show ?thesis using h n Hello_timer by (auto intro: spec_snd [OF call_rt] simp del: call.simps)
  next
    case (Seek_timer p)
    then have "INV {Seek p, Waiting k} n s" using live by (intro INV_hold inv) simp
    then show ?thesis using h Seek_timer spec_snd [OF keeps_route_discovery_timeout [OF n32]] by simp
  next
    case (Rec_timer p)
    then show ?thesis using h live na inv spec_snd [OF rreq_record_timeout_keeps [of "{Waiting k}" n p]] by simp
  next
    case (Bl_timer p)
    then show ?thesis using h live na inv spec_snd [OF rreq_blacklist_timeout_keeps [of "{Waiting k}" n p]] by simp
  qed (use h inv in \<open>auto intro: spec_snd [OF keeps_hello_send] spec_snd [OF keeps_print_rt_table]\<close>)
qed

lemma move_expired_keeps:
  fixes now :: timeval
  assumes inv: "INV {Waiting 0} n s" and e: "exptq s = []"
  defines "P \<equiv> \<lambda>t. due now (timers s t)"
  shows "INV {Waiting (length (takeWhile P (tq s)))} n (snd (run_state (move_expired now) s))"
proof -
  note w = INV_timers [OF inv]
  have "set (dropWhile P (tq s)) \<union> set (takeWhile P (tq s)) = set (tq s)"
    by (metis set_append sup_commute takeWhile_dropWhile_id)
  moreover have "distinct (dropWhile P (tq s) @ takeWhile P (tq s))"
    using w e by (metis append_Nil2 distinct_append inf_commute takeWhile_dropWhile_id wf_timers_def)
  ultimately have "wf_timers (dropWhile P (tq s)) (takeWhile P (tq s)) (timers s)
      (live_timer (rts s) (seeks s) (recs s) (bls s))"
    using w e unfolding wf_timers_def by (simp add: set_eq_iff)
  then show ?thesis using inv
    by (simp add: move_expired_def INV_def wf_def objs_def waiting_ok_def P_def)
qed

lemma expiry_call: "n \<le> 126 \<Longrightarrow> expiry call (\<lambda>k. INV {Waiting k} n)"
proof
  fix k k' s assume "n \<le> 126" and i: "INV {Waiting k} n s"
  then show "length (exptq s) \<le> k" by (simp add: INV_def waiting_ok_def)
  show "INV {Waiting k'} n s" if "length (exptq s) \<le> k'"
    using i that by (auto simp: INV_def objs_def waiting_ok_def)
next
  fix s now assume "INV {Waiting 0} n s" and "exptq s = []"
  then show "INV {Waiting (length (takeWhile (\<lambda>t. due now (timers s t)) (tq s)))} n
      (snd (run_state (move_expired now) s))" by (rule move_expired_keeps)
next
  fix k s t q assume n: "n \<le> 126" and i: "INV {Waiting (Suc k)} n s" and q: "exptq s = t # q"
  let ?s1 = "s\<lparr>exptq := q, timers := (timers s)(t := (timers s t)\<lparr>t_used := False\<rparr>)\<rparr>"
  note p = pop_expired [OF i q]
  have r: "run_state (expire_timer call t) s = (case t_handler (timers s t) of
      None \<Rightarrow> ((), ?s1) | Some f \<Rightarrow> run_state (call f (t_data (timers s t))) ?s1)"
    using q by (simp add: expire_timer_def split: option.split)
  show "INV {Waiting k} n (snd (run_state (expire_timer call t) s))"
  proof (cases "t_handler (timers s t)")
    case None
    then show ?thesis using p(1) r by simp
  next
    case (Some f)
    then have "handler_ok t (Some f) (t_data (timers s t))" using p(4) by simp
    then show ?thesis using call_keeps [OF n p(1-3)] r Some by simp
  qed
qed

interpretation timer_client: expiry call "\<lambda>k. INV {Waiting k} 126"
  by (rule expiry_call) simp

lemma idle_exptq: "INV {Waiting 0} n s \<Longrightarrow> exptq s = []"
  by (simp add: INV_def waiting_ok_def)

lemma keeps_age_queue: "n \<le> 126 \<Longrightarrow> spec (INV {Waiting 0} n) (timer_age_queue call) (\<lambda>_. INV {Waiting 0} n)"
proof -
  assume n: "n \<le> 126"
  have t: "spec (INV {Waiting 0} n) (timer_timeout call now) (\<lambda>_. INV {Waiting 0} n)" for now
    by (rule specI) (metis expiry.timer_timeout_empties expiry_call n snd_conv)
  show ?thesis unfolding timer_age_queue_def
    by (rule t | rule keeps_first | rule keeps_rule | simp)+
qed

section \<open>What receiving keeps\<close>

text \<open>A message adds at most two entries: its sender and the node it is about.\<close>

theorem keeps_package_process:
  assumes "n < 125" and "len \<le> int BUF_SIZE" and "\<And>p. Seek p \<notin> L"
  shows "spec (INV L n) (aodv_socket_package_process len src dst ttl) (\<lambda>_. INV L (Suc (Suc n)))"
proof -
  have add: "spec (INV L n) (State_Monad.bind (neighbor_add src) f) Q"
    if "\<And>u. spec (INV L (Suc n)) (f u) Q" for f :: "unit \<Rightarrow> unit daemon" and Q
    by (rule spec_bind [OF keeps_neighbor_add]) (use assms that in auto)
  have up: "spec (INV L (Suc n)) m (\<lambda>_. INV L (Suc (Suc n)))"
    if "spec (INV L (Suc n)) m (\<lambda>_. INV L (Suc n))" for m :: "unit daemon"
    using that by (rule spec_post) (auto elim: INV_mono)
  show ?thesis unfolding aodv_socket_package_process_def
    by (insert assms)
      (rule add | rule keeps_first | rule keeps_rule | rule up | simp)+
qed

lemma keeps_socket_read:
  assumes "n < 125" and "\<And>p. Seek p \<notin> L"
  shows "spec (INV L n) (aodv_socket_read r) (\<lambda>_. INV L (Suc (Suc n)))"
proof (cases r)
  case Recv_error
  then show ?thesis by (auto simp: aodv_socket_read_def intro!: spec_return elim: INV_mono)
next
  case (Received bytes src cs)
  have "int (length (take BUF_SIZE bytes)) \<le> int BUF_SIZE" by simp
  note pp = keeps_package_process [OF assms(1) this assms(2)]
  show ?thesis unfolding aodv_socket_read_def Received
    by (insert assms) (simp only: recv_result.case, (rule pp | rule keeps_first | rule keeps_rule | rule keeps_forget | simp)+)
qed

lemma keeps_nl_send_rerr [keeps_rule]:
  assumes "n < 2 ^ 32" shows "spec (INV L n) (nl_send_rerr d a) (\<lambda>_. INV L n)"
  unfolding nl_send_rerr_def
  by (insert assms)
    (rule keeps_single_rerr | rule known_case | rule bind_known_case | rule split_binds | rule keeps_first
      | rule keeps_rule | rule keeps_forget | simp add: CALC_SIZE)+

theorem keeps_nl_callback:
  assumes "n \<le> 126" shows "spec (INV L n) (nl_kaodv_callback x) (\<lambda>_. INV L n)"
proof -
  consider "x = None" | "x = Some Km_error" | ty d a where "x = Some (Km_route ty d a)"
    by (metis kernel_msg.exhaust not_None_eq)
  then show ?thesis
  proof cases
    case 3
    show ?thesis unfolding nl_kaodv_callback_def 3
      by (insert assms) (simp only: option.case kernel_msg.case,
        (rule keeps_first | rule keeps_rule | rule keeps_forget | simp)+)
  qed (simp_all add: nl_kaodv_callback_def spec_return_keep)
qed

section \<open>Runs\<close>

lemma handle_keeps:
  assumes "n < 125" and "\<And>p. Seek p \<notin> L"
  shows "spec (INV L n) (handle ev) (\<lambda>_. INV L (Suc (Suc n)))"
proof (cases ev)
  case (Datagram r)
  then show ?thesis using keeps_socket_read [OF assms] by (simp add: handle_def)
next
  case (Kernel m)
  have "spec (INV L n) (nl_kaodv_callback m) (\<lambda>_. INV L n)" using assms by (intro keeps_nl_callback) simp
  then show ?thesis unfolding Kernel handle_def event.case by (rule keeps_forget)
next
  case Kernel_route
  then show ?thesis by (auto simp: handle_def intro!: spec_return elim: INV_mono)
qed

lemma handle_all_keep:
  assumes "\<And>p. Seek p \<notin> L"
  shows "n + 2 * length evs \<le> 126 \<Longrightarrow>
    spec (INV L n) (for_each handle evs) (\<lambda>_. INV L (n + 2 * length evs))"
proof (induction evs arbitrary: n)
  case Nil
  then show ?case by (simp add: spec_return_keep)
next
  case (Cons ev evs)
  have "n < 125" using Cons.prems by simp
  then have "spec (INV L n) (handle ev) (\<lambda>_. INV L (Suc (Suc n)))" using assms by (rule handle_keeps)
  moreover have "spec (INV L (Suc (Suc n))) (for_each handle evs) (\<lambda>_. INV L (n + 2 * length (ev # evs)))"
    using Cons.IH [of "Suc (Suc n)"] Cons.prems by simp
  ultimately show ?case by (auto intro: spec_bind)
qed

lemma main_turn_keeps:
  assumes "n + 2 * length evs \<le> 126"
  shows "spec (INV {Waiting 0} n) (main_turn evs) (\<lambda>_. INV {Waiting 0} (n + 2 * length evs))"
  unfolding main_turn_def
  by (rule spec_bind [OF keeps_age_queue handle_all_keep]) (use assms in auto)

text \<open>
  The states between the turns of the main loop. A turn may start while the table has room for
  the entries it can add: a node with more destinations leaves what is proved here (the RERR it
  may have to build outgrows its buffer).
\<close>

inductive reachable :: "(nat \<Rightarrow> timeval) \<Rightarrow> (nat \<Rightarrow> int) \<Rightarrow> node \<Rightarrow> bool" for time ret where
  start: "reachable time ret (snd (run_state (main_init ifindex ip bc) (globals time ret pid)))"
| turn: "reachable time ret s \<Longrightarrow> length (all_rts (tbl s)) + 2 * length evs \<le> 126 \<Longrightarrow>
    reachable time ret (snd (run_state (main_turn evs) s))"

inductive_cases reachable_cases: "reachable time ret s"

lemma rt_table_init_keeps: "spec (INV {Waiting 0} 0) rt_table_init (\<lambda>_. INV {Waiting 0} 0)"
proof (rule specI)
  fix s a s' assume i: "INV {Waiting 0} 0 s" and r: "run_state rt_table_init s = (a, s')"
  have e: "all_rts (tbl s) = []" using INV_size [OF i] by simp
  then have "dom (rts s) = {}" using INV_table [OF i] by (simp add: wf_table_def)
  then have "rts s = Map.empty" by blast
  moreover have "all_rts (\<lambda>i. if i < 64 then [] else tbl s i) = []" by (simp add: all_rts_def)
  ultimately show "INV {Waiting 0} 0 s'"
    using i r e by (auto simp: rt_table_init_def INV_def wf_def wf_table_def)
qed

lemma start_keeps: "INV {Waiting 0} 0 (snd (run_state (main_init ifindex ip bc) (globals time ret pid)))"
proof -
  let ?s = "globals time ret pid"
  have log: "INV {Waiting 0} 0 (snd (run_state log_rt_table_init ?s))"
  proof -
    let ?s1 = "?s\<lparr>timers := (timers ?s)(Rt_log_timer := fresh_timer Print_rt_table None)\<rparr>"
    have "INV {Waiting 0} 0 ?s1"
      using globals_wf [of time ret pid] by (simp add: INV_def wf_def wf_timers_handler globals_def)
    then have "INV {Waiting 0} 0 (snd (run_state (timer_set_timeout Rt_log_timer (rt_log_interval ?s1)) ?s1))"
      by (rule spec_snd [rotated]) (rule keeps_timer_set_timeout, simp)
    then show ?thesis
      by (simp add: log_rt_table_init_def run_timer_init attached_def globals_def case_prod_beta)
  qed
  have rest: "spec (INV {Waiting 0} 0) (do {
      rt_table_init;
      host_init ifindex ip bc;
      modify (\<lambda>s. s\<lparr>aodvnl_seqno := 0, rtnl_seqno := 0\<rparr>);
      nl_send_conf_msg;
      modify (\<lambda>s. s\<lparr>num_rreq := 0, num_rerr := 0\<rparr>) }) (\<lambda>_. INV {Waiting 0} 0)"
    unfolding host_init_def
    by (rule rt_table_init_keeps | rule keeps_bind | rule keeps_rule | rule spec_modify
        | simp add: INV_def wf_def wf_socket_def)+
  show ?thesis using spec_snd [OF rest log] by (simp add: main_init_def case_prod_beta)
qed

lemma reachable_INV:
  "reachable time ret s \<Longrightarrow> INV {Waiting 0} (length (all_rts (tbl s))) s"
proof (induction rule: reachable.induct)
  case (start ifindex ip bc pid)
  show ?case using start_keeps [of ifindex ip bc time ret pid] by (simp add: INV_def)
next
  case (turn s evs)
  show ?case using spec_snd [OF main_turn_keeps [OF turn.hyps(2)] turn.IH] by (simp add: INV_def)
qed

section \<open>Properties\<close>

text \<open>
  A datagram that came without its TTL, and one that the node sent itself, is read into
  the receive buffer and dropped. At most 1024 bytes are taken, and nothing else changes.
\<close>

theorem socket_read_drops:
  assumes "wf s" and "fst (scan_cmsgs cs (- 1, 0xffffffff)) < 0 \<or> dev_enabled s \<and> src = dev_ipaddr s"
  shows "run_state (aodv_socket_read (Received bytes src cs)) s =
    ((), s\<lparr>recv_buf := poke 0 (take BUF_SIZE bytes) (recv_buf s)\<rparr>)"
proof -
  have "length (recv_buf s) = 1024" using assms(1) by (simp add: wf_def wf_socket_def)
  then show ?thesis using assms(2)
    by (auto simp: aodv_socket_read_def set_recv_def Let_def case_prod_beta)
qed

theorem socket_read_drops_witness:
  "run_state (aodv_socket_read (Received [1, 0] 10 [Cm_other, Cm_pktinfo 255])) one_route =
     ((), one_route\<lparr>recv_buf := poke 0 [1, 0] (recv_buf one_route)\<rparr>)"
  using socket_read_drops [OF one_route_simps(1), of "[Cm_other, Cm_pktinfo 255]" 10 "[1, 0]"] by simp

end
