(* ===== verification/Kernel.thy ===== *)
theory Kernel
  imports Node
begin

text \<open>
  The state of the kernel module under \<^verbatim>\<open>kaodv/src\<close>: its static variables, and
  what it uses of the Linux kernel. Its functions are written in state-passing style, a function
  \<open>kernel \<Rightarrow> 'a \<times> kernel\<close> each. The linked lists are lists of entries: nobody keeps a
  pointer to an entry that is on a list. What the module asks of the kernel and what may fail
  (\<^verbatim>\<open>kmalloc\<close>, \<^verbatim>\<open>skb_copy_expand\<close>, \<^verbatim>\<open>nlmsg_new\<close>,
  \<^verbatim>\<open>proc_create\<close>, \<^verbatim>\<open>netlink_kernel_create\<close>,
  \<^verbatim>\<open>nf_register_hook\<close>) is a stream of answers \<open>k_ok\<close>, indexed by the number of
  such calls so far. What it does to packets and what it sends is recorded in \<open>k_out\<close>, in order.
  \<^verbatim>\<open>ip_send_check\<close> and \<^verbatim>\<open>ip_select_ident\<close>, functions of the kernel that
  change an IP header, are parameters.
\<close>

section \<open>Data\<close>

record expl_entry =
  x_expires :: u32
  x_flags :: u16
  x_daddr :: u32
  x_nhop :: u32
  x_ifindex :: int

text \<open>
  A socket buffer: the bytes from \<^verbatim>\<open>data\<close> to \<^verbatim>\<open>tail\<close>, the offset of the
  network header from \<^verbatim>\<open>data\<close>, and the socket that owns it.
\<close>

record sk_buff =
  sk_data :: buffer
  sk_nh :: nat
  sk_sock :: "nat option"

text \<open>The continuation \<^verbatim>\<open>okfn\<close> is a function pointer of the kernel, kept as an address.\<close>

record queue_entry =
  q_skb :: sk_buff
  q_okfn :: nat
  q_tos :: u8
  q_daddr :: u32
  q_saddr :: u32

text \<open>
  A network device: its index, its name and, if it has an \<^verbatim>\<open>in_device\<close>, the addresses
  on it (label, address, broadcast address).
\<close>

record net_device =
  dv_ifindex :: int
  dv_name :: string
  dv_addrs :: "(string \<times> u32 \<times> u32) list option"

record if_info =
  if_addr :: u32
  bc_addr :: u32
  if_dev :: net_device

datatype kevent =
    Kfree_skb sk_buff
  | Icmp_host_unreach sk_buff
  | Route_me_harder sk_buff
  | Okfn nat sk_buff
  | Broadcast int kaodv_rt_msg
  | Nl_ack int

text \<open>What the module registers with the kernel and has to give back.\<close>

datatype resource = Expl_proc | Queue_proc | Nl_notifier | Nl_socket | Hook nat

record kernel =
  k_ok :: "nat \<Rightarrow> bool"
  k_junk :: "nat \<Rightarrow> u32"
  ip_send_check :: "buffer \<Rightarrow> buffer"
  ip_select_ident :: "buffer \<Rightarrow> buffer"
  k_calls :: nat
  k_fault :: bool
  jiffies :: u32
  expl_len :: u32
  expl_list :: "expl_entry list"
  queue_list :: "queue_entry list"
  queue_total :: u32
  queue_maxlen :: u32
  peer_pid :: int
  k_active_route_timeout :: int
  ifihead :: "if_info list"
  dev_refs :: "int \<Rightarrow> int"
  held :: "resource list"
  k_out :: "kevent list"

abbreviation (input) HZ :: u32 where "HZ \<equiv> 100"
abbreviation (input) ENOMEM :: int where "ENOMEM \<equiv> 12"
abbreviation (input) EBUSY :: int where "EBUSY \<equiv> 16"
abbreviation (input) EINVAL :: int where "EINVAL \<equiv> 22"
abbreviation (input) ENOSPC :: int where "ENOSPC \<equiv> 28"
abbreviation (input) ECOMM :: int where "ECOMM \<equiv> 70"

text \<open>Calls that may fail; what fresh memory holds; traces; undefined behaviour.\<close>

definition kcall :: "kernel \<Rightarrow> bool \<times> kernel" where
  "kcall k = (k_ok k (k_calls k), k\<lparr>k_calls := Suc (k_calls k)\<rparr>)"

definition emit :: "kevent list \<Rightarrow> kernel \<Rightarrow> kernel" where
  "emit evs k = k\<lparr>k_out := k_out k @ evs\<rparr>"

definition kcheck :: "bool \<Rightarrow> kernel \<Rightarrow> kernel" where
  "kcheck b k = (if b then k else k\<lparr>k_fault := True\<rparr>)"

lemma kcheck_True [simp]: "kcheck True k = k"
  by (simp add: kcheck_def)

lemma emit_fields [simp]:
  "k_out (emit evs k) = k_out k @ evs" "expl_list (emit evs k) = expl_list k"
  "expl_len (emit evs k) = expl_len k" "queue_list (emit evs k) = queue_list k"
  "queue_total (emit evs k) = queue_total k" "k_calls (emit evs k) = k_calls k"
  "k_ok (emit evs k) = k_ok k" "ifihead (emit evs k) = ifihead k"
  by (simp_all add: emit_def)

lemma of_nat32_eq: "m < 2 ^ 32 \<Longrightarrow> n < 2 ^ 32 \<Longrightarrow> (of_nat m :: u32) = of_nat n \<longleftrightarrow> m = n"
  by (simp add: word_of_nat_eq_iff take_bit_nat_eq_self)

section \<open>A module at rest\<close>

definition kernel0 :: kernel where
  "kernel0 = \<lparr>k_ok = (\<lambda>_. True), k_junk = (\<lambda>_. 0), ip_send_check = id, ip_select_ident = id,
     k_calls = 0, k_fault = False, jiffies = 0, expl_len = 0, expl_list = [], queue_list = [],
     queue_total = 0, queue_maxlen = 1024, peer_pid = 0, k_active_route_timeout = 3000,
     ifihead = [], dev_refs = (\<lambda>_. 0), held = [], k_out = []\<rparr>"

lemma kernel0_simps [simp]:
  "k_ok kernel0 n" "k_calls kernel0 = 0" "jiffies kernel0 = 0" "expl_len kernel0 = 0"
  "expl_list kernel0 = []" "queue_list kernel0 = []" "queue_total kernel0 = 0"
  "queue_maxlen kernel0 = 1024" "peer_pid kernel0 = 0" "k_active_route_timeout kernel0 = 3000"
  "ifihead kernel0 = []" "held kernel0 = []" "k_out kernel0 = []" "\<not> k_fault kernel0"
  "ip_send_check kernel0 = id" "ip_select_ident kernel0 = id"
  by (simp_all add: kernel0_def)

end
