(* ===== verification/Kexpl.thy ===== *)
theory Kexpl
  imports Kernel
begin

text \<open>
  \<^verbatim>\<open>kaodv_expl.c\<close>: the module's copy of the routes, a list sorted by expiry time.
  Nothing defines \<^verbatim>\<open>EXPL_TIMER\<close>, so entries have an expiry time but no timer, and
  only the daemon deletes them. Between \<open>expl_len\<close> and the length of the list there is a gap
  once the table has been full; \<open>expl_ok\<close> is the invariant as long as it has not.
\<close>

section \<open>Operations\<close>

abbreviation (input) EXPL_MAX_LEN :: u32 where "EXPL_MAX_LEN \<equiv> 1024"

text \<open>The loop of \<^verbatim>\<open>__kaodv_expl_add\<close>: before the first entry that expires later.\<close>

fun expl_insert :: "expl_entry \<Rightarrow> expl_entry list \<Rightarrow> expl_entry list" where
  "expl_insert e [] = [e]"
| "expl_insert e (c # cs) =
     (if x_expires c > x_expires e then e # c # cs else c # expl_insert e cs)"

definition expl_add_entry :: "expl_entry \<Rightarrow> kernel \<Rightarrow> int \<times> kernel" where
  "expl_add_entry e k =
     (if expl_len k > EXPL_MAX_LEN then (- ENOSPC, k)
      else (1, k\<lparr>expl_list := expl_insert e (expl_list k)\<rparr>))"

definition expl_check :: "u32 \<Rightarrow> kernel \<Rightarrow> expl_entry option" where
  "expl_check daddr k = find (\<lambda>e. x_daddr e = daddr) (expl_list k)"

definition expl_del_entry :: "expl_entry option \<Rightarrow> kernel \<Rightarrow> int \<times> kernel" where
  "expl_del_entry x k = (case x of
       None \<Rightarrow> (0, k)
     | Some e \<Rightarrow> (1, k\<lparr>expl_list := remove1 e (expl_list k), expl_len := expl_len k - 1\<rparr>))"

definition kaodv_expl_del :: "u32 \<Rightarrow> kernel \<Rightarrow> int \<times> kernel" where
  "kaodv_expl_del daddr k =
     (case expl_check daddr k of None \<Rightarrow> (0, k) | Some e \<Rightarrow> expl_del_entry (Some e) k)"

text \<open>The result is 1 and the entry is copied where this is \<open>Some\<close>.\<close>

definition kaodv_expl_get :: "u32 \<Rightarrow> kernel \<Rightarrow> expl_entry option" where
  "kaodv_expl_get daddr k = expl_check daddr k"

definition expl_deadline :: "u32 \<Rightarrow> kernel \<Rightarrow> u32" where
  "expl_deadline time k = jiffies k + (time * HZ) div 1000"

definition kaodv_expl_add :: "u32 \<Rightarrow> u32 \<Rightarrow> u32 \<Rightarrow> u16 \<Rightarrow> int \<Rightarrow> kernel \<Rightarrow> int \<times> kernel" where
  "kaodv_expl_add daddr nhop time flags ifindex k =
     (if kaodv_expl_get daddr k \<noteq> None then (0, k)
      else let (mem, k) = kcall k in
        if \<not> mem then (- ENOMEM, k)
        else let (status, k) = expl_add_entry \<lparr>x_expires = expl_deadline time k, x_flags = flags,
                   x_daddr = daddr, x_nhop = nhop, x_ifindex = ifindex\<rparr> k
             in (status, if status \<noteq> 0 then k\<lparr>expl_len := expl_len k + 1\<rparr> else k))"

text \<open>The result of the second \<^verbatim>\<open>__kaodv_expl_add\<close> is not looked at.\<close>

definition kaodv_expl_update :: "u32 \<Rightarrow> u32 \<Rightarrow> u32 \<Rightarrow> u16 \<Rightarrow> int \<Rightarrow> kernel \<Rightarrow> int \<times> kernel" where
  "kaodv_expl_update daddr nhop time flags ifindex k =
     (case expl_check daddr k of
        None \<Rightarrow> (- 1, k)
      | Some e \<Rightarrow>
          (0, snd (expl_add_entry
             (e\<lparr>x_nhop := nhop, x_flags := flags, x_ifindex := ifindex, x_expires := expl_deadline time k\<rparr>)
             (k\<lparr>expl_list := remove1 e (expl_list k)\<rparr>))))"

definition kaodv_expl_flush :: "kernel \<Rightarrow> kernel" where
  "kaodv_expl_flush k =
     fold (\<lambda>e k. k\<lparr>expl_list := remove1 e (expl_list k), expl_len := expl_len k - 1\<rparr>) (expl_list k) k"

definition kaodv_expl_init :: "kernel \<Rightarrow> kernel" where
  "kaodv_expl_init k =
     (let (made, k) = kcall k in
      (if made then k\<lparr>held := Expl_proc # held k\<rparr> else k)\<lparr>expl_len := 0\<rparr>)"

definition kaodv_expl_finish :: "kernel \<Rightarrow> kernel" where
  "kaodv_expl_finish k = (let k = kaodv_expl_flush k in k\<lparr>held := remove1 Expl_proc (held k)\<rparr>)"

section \<open>The table as a map\<close>

text \<open>
  What the operations promise: they work on a map from destinations to routes, as long as the
  table has room. \<open>stamp\<close> is the entry the arguments of an operation describe.
\<close>

definition stamp :: "u32 \<Rightarrow> u32 \<Rightarrow> u32 \<Rightarrow> u16 \<Rightarrow> int \<Rightarrow> kernel \<Rightarrow> expl_entry" where
  "stamp daddr nhop time flags ifindex k = \<lparr>x_expires = expl_deadline time k, x_flags = flags,
     x_daddr = daddr, x_nhop = nhop, x_ifindex = ifindex\<rparr>"

definition routes :: "kernel \<Rightarrow> u32 \<Rightarrow> expl_entry option" where
  "routes k d = kaodv_expl_get d k"

definition expl_ok :: "kernel \<Rightarrow> bool" where
  "expl_ok k \<longleftrightarrow> sorted_wrt (\<lambda>a b. x_expires a \<le> x_expires b) (expl_list k)
     \<and> distinct (map x_daddr (expl_list k))
     \<and> expl_len k = of_nat (length (expl_list k)) \<and> length (expl_list k) \<le> 1025"

lemma set_expl_insert [simp]: "set (expl_insert e es) = insert e (set es)"
  by (induction es) auto

lemma length_expl_insert [simp]: "length (expl_insert e es) = Suc (length es)"
  by (induction es) auto

lemma sorted_expl_insert:
  "sorted_wrt (\<lambda>a b. x_expires a \<le> x_expires b) es \<Longrightarrow>
   sorted_wrt (\<lambda>a b. x_expires a \<le> x_expires b) (expl_insert e es)"
  by (induction es) (auto intro: less_imp_le order.trans simp: not_less)

lemma distinct_expl_insert:
  "distinct (map x_daddr (expl_insert e es)) \<longleftrightarrow> distinct (map x_daddr es) \<and> x_daddr e \<notin> x_daddr ` set es"
  by (induction es) auto

text \<open>In a list without duplicate destinations, finding one is looking up in a map.\<close>

lemma find_key:
  "distinct (map x_daddr es) \<Longrightarrow> find (\<lambda>e. x_daddr e = d) es = Some e \<longleftrightarrow> e \<in> set es \<and> x_daddr e = d"
  by (induction es) force+

lemma find_none: "find (\<lambda>e. x_daddr e = d) es = None \<longleftrightarrow> d \<notin> x_daddr ` set es"
  by (induction es) auto

lemma find_eqI:
  assumes "distinct (map x_daddr es)" and "distinct (map x_daddr es')"
    and "\<And>e. x_daddr e = d \<Longrightarrow> e \<in> set es \<longleftrightarrow> e \<in> set es'"
  shows "find (\<lambda>e. x_daddr e = d) es = find (\<lambda>e. x_daddr e = d) es'"
  using assms find_key [OF assms(1), of d] find_key [OF assms(2), of d]
  by (metis not_Some_eq)

lemma distinct_map_remove1: "distinct (map f xs) \<Longrightarrow> distinct (map f (remove1 x xs))"
  by (auto simp: distinct_map intro: inj_on_subset dest: set_remove1_subset [THEN subsetD])

lemma sorted_remove1: "sorted_wrt P xs \<Longrightarrow> sorted_wrt P (remove1 x xs)"
  by (induction xs) (auto dest: set_remove1_subset [THEN subsetD])

lemma distinct_remove1_key:
  "distinct (map f xs) \<Longrightarrow> x \<in> set xs \<Longrightarrow> f x \<notin> f ` set (remove1 x xs)"
  by (induction xs) (auto, metis imageI)

section \<open>What the operations keep and do\<close>

lemma expl_okD: "expl_ok k \<Longrightarrow> distinct (map x_daddr (expl_list k))"
  by (simp add: expl_ok_def)

lemma routes_Some: "expl_ok k \<Longrightarrow> routes k d = Some e \<longleftrightarrow> e \<in> set (expl_list k) \<and> x_daddr e = d"
  by (simp add: routes_def kaodv_expl_get_def expl_check_def find_key expl_okD)

lemma routes_None: "routes k d = None \<longleftrightarrow> d \<notin> x_daddr ` set (expl_list k)"
  by (simp add: routes_def kaodv_expl_get_def expl_check_def find_none)

text \<open>The table is the map of the entries on its list, so a map equation is one of sets.\<close>

lemma routes_eqI:
  assumes "expl_ok k" and "\<And>d e. m d = Some e \<longleftrightarrow> e \<in> set (expl_list k) \<and> x_daddr e = d"
  shows "routes k = m"
proof
  fix d
  show "routes k d = m d" using assms routes_Some by (metis not_Some_eq)
qed

lemma routes_cong: "expl_list k' = expl_list k \<Longrightarrow> routes k' = routes k"
  by (auto simp: routes_def kaodv_expl_get_def expl_check_def)

lemma expl_put_ok:
  assumes "sorted_wrt (\<lambda>a b. x_expires a \<le> x_expires b) es" and "distinct (map x_daddr es)"
    and "x_daddr e \<notin> x_daddr ` set es" and "n = of_nat (Suc (length es))" and "length es \<le> 1024"
  shows "expl_ok (k\<lparr>expl_list := expl_insert e es, expl_len := n\<rparr>)"
  using assms by (simp add: expl_ok_def sorted_expl_insert distinct_expl_insert)

lemma expl_len_nat: "expl_ok k \<Longrightarrow> unat (expl_len k) = length (expl_list k)"
  by (simp add: expl_ok_def unat_of_nat take_bit_nat_eq_self)

lemma add_effect:
  assumes ok: "expl_ok k" and room: "expl_len k \<le> EXPL_MAX_LEN" and new: "routes k d = None"
    and mem: "k_ok k (k_calls k)"
  shows "let (r, k') = kaodv_expl_add d nh t fl i k in
    r = 1 \<and> expl_ok k' \<and> routes k' = (routes k)(d \<mapsto> stamp d nh t fl i k)"
proof -
  let ?e = "stamp d nh t fl i k"
  let ?k = "k\<lparr>k_calls := Suc (k_calls k), expl_list := expl_insert ?e (expl_list k), expl_len := expl_len k + 1\<rparr>"
  have "unat (expl_len k) \<le> 1024" using room by (simp add: word_le_nat_alt)
  then have ok': "expl_ok ?k"
    using ok new expl_len_nat [OF ok]
    by (intro expl_put_ok [where k = "k\<lparr>k_calls := Suc (k_calls k)\<rparr>", simplified])
       (auto simp: expl_ok_def routes_None stamp_def)
  have "routes ?k = (routes k)(d \<mapsto> ?e)"
    using new by (intro routes_eqI [OF ok']) (auto simp: routes_Some [OF ok] stamp_def routes_None)
  moreover have "kaodv_expl_add d nh t fl i k = (1, ?k)"
    using new mem room
    by (simp add: kaodv_expl_add_def routes_def kcall_def expl_add_entry_def stamp_def expl_deadline_def Let_def)
  ultimately show ?thesis using ok' by simp
qed

lemma update_effect:
  assumes ok: "expl_ok k" and room: "expl_len k \<le> EXPL_MAX_LEN" and old: "routes k d = Some e"
  shows "let (r, k') = kaodv_expl_update d nh t fl i k in
    r = 0 \<and> expl_ok k' \<and> routes k' = (routes k)(d \<mapsto> stamp d nh t fl i k)"
proof -
  let ?e = "stamp d nh t fl i k"
  let ?k = "k\<lparr>expl_list := expl_insert ?e (remove1 e (expl_list k))\<rparr>"
  have e: "e \<in> set (expl_list k)" "x_daddr e = d" using old by (auto simp: routes_Some [OF ok])
  then have *: "Suc (length (expl_list k) - 1) = length (expl_list k)" by (cases "expl_list k") auto
  have "unat (expl_len k) \<le> 1024" using room by (simp add: word_le_nat_alt)
  then have "expl_ok (k\<lparr>expl_list := expl_insert ?e (remove1 e (expl_list k)), expl_len := expl_len k\<rparr>)"
    using ok e expl_len_nat [OF ok] distinct_remove1_key [OF expl_okD [OF ok] e(1)] *
    by (intro expl_put_ok)
       (auto simp: expl_ok_def stamp_def sorted_remove1 distinct_map_remove1 length_remove1)
  then have ok': "expl_ok ?k" by simp
  have "distinct (expl_list k)" using expl_okD [OF ok] by (simp add: distinct_map)
  then have "routes ?k = (routes k)(d \<mapsto> ?e)"
    using e expl_okD [OF ok]
    by (intro routes_eqI [OF ok']) (auto simp: routes_Some [OF ok] stamp_def distinct_map dest: inj_onD)
  moreover have "kaodv_expl_update d nh t fl i k = (0, ?k)"
    using old room e(2)
    by (cases e) (simp add: kaodv_expl_update_def routes_def kaodv_expl_get_def expl_add_entry_def stamp_def
        expl_deadline_def)
  ultimately show ?thesis using ok' by simp
qed

lemma del_effect:
  assumes ok: "expl_ok k" and old: "routes k d = Some e"
  shows "let (r, k') = kaodv_expl_del d k in r = 1 \<and> expl_ok k' \<and> routes k' = (routes k)(d := None)"
proof -
  let ?k = "k\<lparr>expl_list := remove1 e (expl_list k), expl_len := expl_len k - 1\<rparr>"
  have e: "e \<in> set (expl_list k)" "x_daddr e = d" using old by (auto simp: routes_Some [OF ok])
  have len: "length (expl_list k) = Suc (length (remove1 e (expl_list k)))"
    using length_pos_if_in_set [OF e(1)] by (simp add: length_remove1 e(1))
  have ok': "expl_ok ?k"
    using ok unfolding expl_ok_def len
    by (simp add: sorted_remove1 distinct_map_remove1)
  have "distinct (expl_list k)" using expl_okD [OF ok] by (simp add: distinct_map)
  then have "routes ?k = (routes k)(d := None)"
    using e expl_okD [OF ok]
    by (intro routes_eqI [OF ok']) (auto simp: routes_Some [OF ok] distinct_map dest: inj_onD)
  then show ?thesis using ok' old
    by (simp add: kaodv_expl_del_def expl_del_entry_def routes_def kaodv_expl_get_def)
qed

lemma flush_effect:
  "kaodv_expl_flush k = k\<lparr>expl_list := [], expl_len := expl_len k - of_nat (length (expl_list k))\<rparr>"
proof -
  have "fold (\<lambda>e k. k\<lparr>expl_list := remove1 e (expl_list k), expl_len := expl_len k - 1\<rparr>) es k =
    k\<lparr>expl_list := [], expl_len := expl_len k - of_nat (length es)\<rparr>" if "expl_list k = es" for es k
    using that by (induction es arbitrary: k) (simp_all add: algebra_simps)
  then show ?thesis by (simp add: kaodv_expl_flush_def)
qed

section \<open>The interface its clients use\<close>

text \<open>
  What the packet hook relies on: updating a known route, while there is room, writes exactly its
  entry, and what it writes does not depend on earlier updates. The hook prolongs the life of the
  routes a packet uses with \<open>touch\<close>: of the route to an address and of the route to its next hop.
\<close>

definition touch :: "(u32 \<Rightarrow> 's \<Rightarrow> expl_entry option) \<Rightarrow>
    (u32 \<Rightarrow> u32 \<Rightarrow> u32 \<Rightarrow> u16 \<Rightarrow> int \<Rightarrow> 's \<Rightarrow> int \<times> 's) \<Rightarrow> u32 \<Rightarrow> u32 \<Rightarrow> int \<Rightarrow> 's \<Rightarrow> 's" where
  "touch get update d time ifindex s = (case get d s of
       None \<Rightarrow> s
     | Some e \<Rightarrow>
         let s = snd (update (x_daddr e) (x_nhop e) time (x_flags e) ifindex s) in
         if x_nhop e \<noteq> x_daddr e then
           (case get (x_nhop e) s of
              None \<Rightarrow> s
            | Some e \<Rightarrow> snd (update (x_daddr e) (x_nhop e) time (x_flags e) ifindex s))
         else s)"

definition refreshed :: "(u32 \<Rightarrow> u32 \<Rightarrow> u16 \<Rightarrow> expl_entry) \<Rightarrow> u32 set \<Rightarrow>
    (u32 \<Rightarrow> expl_entry option) \<Rightarrow> u32 \<Rightarrow> expl_entry option" where
  "refreshed mk D m = (\<lambda>x. map_option (\<lambda>e. if x \<in> D then mk (x_daddr e) (x_nhop e) (x_flags e) else e) (m x))"

lemma refreshed_absent:
  assumes "\<And>x. x \<in> D \<Longrightarrow> m x = None" shows "refreshed mk D m = m"
proof
  fix x
  show "refreshed mk D m x = m x" using assms by (cases "m x") (auto simp: refreshed_def)
qed

definition with_hop :: "(u32 \<Rightarrow> expl_entry option) \<Rightarrow> u32 \<Rightarrow> u32 set" where
  "with_hop m d = insert d (x_nhop ` set_option (m d))"

locale route_map =
  fixes lookup :: "'s \<Rightarrow> u32 \<Rightarrow> expl_entry option"
    and get :: "u32 \<Rightarrow> 's \<Rightarrow> expl_entry option"
    and update :: "u32 \<Rightarrow> u32 \<Rightarrow> u32 \<Rightarrow> u16 \<Rightarrow> int \<Rightarrow> 's \<Rightarrow> int \<times> 's"
    and room :: "'s \<Rightarrow> bool"
    and mk :: "u32 \<Rightarrow> u32 \<Rightarrow> u32 \<Rightarrow> u16 \<Rightarrow> int \<Rightarrow> 's \<Rightarrow> expl_entry"
  assumes get_lookup: "get d s = lookup s d"
    and key: "lookup s d = Some e \<Longrightarrow> x_daddr e = d"
    and mk_fields: "x_daddr (mk d nh t fl i s) = d" "x_nhop (mk d nh t fl i s) = nh" "x_flags (mk d nh t fl i s) = fl"
    and update_known: "room s \<Longrightarrow> lookup s d \<noteq> None \<Longrightarrow>
      lookup (snd (update d nh t fl i s)) = (lookup s)(d \<mapsto> mk d nh t fl i s)"
    and update_room: "room s \<Longrightarrow> lookup s d \<noteq> None \<Longrightarrow> room (snd (update d nh t fl i s))"
    and update_mk: "mk d' nh' t' fl' i' (snd (update d nh t fl i s)) = mk d' nh' t' fl' i' s"
begin

lemma update_refreshes:
  assumes "room s" and "lookup s d = Some e"
  shows "lookup (snd (update d (x_nhop e) t (x_flags e) i s)) = refreshed (\<lambda>d nh fl. mk d nh t fl i s) {d} (lookup s)"
  using assms key [OF assms(2)] by (auto simp: update_known refreshed_def fun_eq_iff option.map_ident)

lemma refreshed_twice:
  "refreshed (\<lambda>d nh fl. mk d nh t fl i s) D (refreshed (\<lambda>d nh fl. mk d nh t fl i s) D' m) =
   refreshed (\<lambda>d nh fl. mk d nh t fl i s) (D \<union> D') m"
  by (auto simp: refreshed_def fun_eq_iff option.map_comp comp_def mk_fields intro: option.map_cong)

lemma with_hop_refreshed:
  "with_hop (refreshed (\<lambda>d nh fl. mk d nh t fl i s) D m) x = with_hop m x"
  by (cases "m x") (auto simp: with_hop_def refreshed_def mk_fields)

lemma touch_refreshes:
  assumes "room s"
  shows "lookup (touch get update d t i s) = refreshed (\<lambda>d nh fl. mk d nh t fl i s) (with_hop (lookup s) d) (lookup s)
    \<and> room (touch get update d t i s) \<and> (\<forall>a nh fl. mk a nh t fl i (touch get update d t i s) = mk a nh t fl i s)"
proof (cases "lookup s d")
  case None
  then have "refreshed mk' {d} (lookup s) = lookup s" for mk' by (intro refreshed_absent) simp
  then show ?thesis using assms None by (simp add: touch_def get_lookup with_hop_def)
next
  case (Some e)
  let ?f = "\<lambda>d nh fl. mk d nh t fl i s" let ?s = "snd (update d (x_nhop e) t (x_flags e) i s)"
  have 1: "lookup ?s = refreshed ?f {d} (lookup s)" "room ?s" "\<And>d nh fl. mk d nh t fl i ?s = ?f d nh fl"
    using update_refreshes [OF assms Some] update_room [OF assms] update_mk Some by auto
  show ?thesis
  proof (cases "x_nhop e = d \<or> lookup s (x_nhop e) = None")
    case True
    then have "refreshed ?f {d} (lookup s) = refreshed ?f (with_hop (lookup s) d) (lookup s)"
      using Some by (auto simp: refreshed_def with_hop_def fun_eq_iff intro!: option.map_cong)
    moreover have "lookup ?s (x_nhop e) = None" if "x_nhop e \<noteq> d"
      using True that by (simp add: 1(1) refreshed_def)
    then have "touch get update d t i s = ?s"
      using key [OF Some] Some by (auto simp: touch_def get_lookup Let_def)
    ultimately show ?thesis using 1 by simp
  next
    case False
    then obtain h where h: "lookup s (x_nhop e) = Some h" and ne: "x_nhop e \<noteq> d" by auto
    have h': "lookup ?s (x_nhop e) = Some h" using h ne by (simp add: 1 refreshed_def)
    let ?s2 = "snd (update (x_nhop e) (x_nhop h) t (x_flags h) i ?s)"
    have "lookup ?s2 = refreshed ?f {x_nhop e} (refreshed ?f {d} (lookup s))"
      using update_refreshes [OF 1(2) h', of t i] by (simp only: 1)
    then have "lookup ?s2 = refreshed ?f (with_hop (lookup s) d) (lookup s)"
      by (simp add: refreshed_twice with_hop_def Some insert_commute)
    moreover have "room ?s2" using update_room [OF 1(2)] h' by simp
    moreover have "touch get update d t i s = ?s2"
      using Some h' ne key [OF Some] key [OF h'] by (simp add: touch_def get_lookup)
    ultimately show ?thesis using 1(3) update_mk by simp
  qed
qed

end

lemma update_keeps_len: "expl_len (snd (kaodv_expl_update d nh t fl i k)) = expl_len k"
  by (auto simp: kaodv_expl_update_def expl_add_entry_def split: option.split)

lemma update_keeps_clock: "jiffies (snd (kaodv_expl_update d nh t fl i k)) = jiffies k"
  by (auto simp: kaodv_expl_update_def expl_add_entry_def split: option.split)

definition expl_room :: "kernel \<Rightarrow> bool" where
  "expl_room k \<longleftrightarrow> expl_ok k \<and> expl_len k \<le> EXPL_MAX_LEN"

interpretation rm: route_map routes kaodv_expl_get kaodv_expl_update expl_room stamp
proof
  show "x_daddr e = d" if "routes s d = Some e" for s d e
    using that by (auto simp: routes_def kaodv_expl_get_def expl_check_def find_Some_iff)
  show "routes (snd (kaodv_expl_update d nh t fl i s)) = (routes s)(d \<mapsto> stamp d nh t fl i s)"
    "expl_room (snd (kaodv_expl_update d nh t fl i s))"
    if "expl_room s" "routes s d \<noteq> None" for s d nh t fl i
    using that update_effect [of s d _ nh t fl i] update_keeps_len [of d nh t fl i s]
    by (auto simp: expl_room_def case_prod_beta)
qed (simp_all add: routes_def stamp_def expl_deadline_def update_keeps_clock)

section \<open>Properties\<close>

text \<open>
  C12: while the table has room it implements a map from destinations to routes. Adding, updating
  and deleting a route change exactly the entry of its destination, adding one that is there and
  updating or deleting one that is not change nothing, and the results say which. The list stays
  sorted by expiry time, with one entry for each destination, and \<^verbatim>\<open>expl_len\<close> is its length.
\<close>

theorem expl_implements_map:
  assumes "expl_ok k" and "expl_len k \<le> EXPL_MAX_LEN" and "k_ok k (k_calls k)"
  shows "(let (r, k') = kaodv_expl_add d nh t fl i k in expl_ok k' \<and>
      (if routes k d = None then r = 1 \<and> routes k' = (routes k)(d \<mapsto> stamp d nh t fl i k) else r = 0 \<and> k' = k))
    \<and> (let (r, k') = kaodv_expl_update d nh t fl i k in expl_ok k' \<and>
      (if routes k d \<noteq> None then r = 0 \<and> routes k' = (routes k)(d \<mapsto> stamp d nh t fl i k) else r = - 1 \<and> k' = k))
    \<and> (let (r, k') = kaodv_expl_del d k in expl_ok k' \<and>
      (if routes k d \<noteq> None then r = 1 \<and> routes k' = (routes k)(d := None) else r = 0 \<and> k' = k))"
proof (cases "routes k d")
  case None
  then have "expl_check d k = None" by (simp add: routes_def kaodv_expl_get_def)
  then show ?thesis
    using add_effect [OF assms(1,2) None assms(3), of nh t fl i] assms(1) None
    by (simp add: case_prod_beta kaodv_expl_update_def kaodv_expl_del_def)
next
  case (Some e)
  then have "kaodv_expl_add d nh t fl i k = (0, k)" by (simp add: kaodv_expl_add_def routes_def)
  then show ?thesis
    using update_effect [OF assms(1,2) Some, of nh t fl i] del_effect [OF assms(1) Some] assms(1) Some
    by (simp add: case_prod_beta)
qed

text \<open>A table with routes to 20, a neighbour, and to 30 through it.\<close>

definition two_expl :: kernel where
  "two_expl = kernel0\<lparr>expl_len := 2, expl_list :=
     [\<lparr>x_expires = 100, x_flags = 0, x_daddr = 20, x_nhop = 20, x_ifindex = 1\<rparr>,
      \<lparr>x_expires = 200, x_flags = 0, x_daddr = 30, x_nhop = 20, x_ifindex = 1\<rparr>]\<rparr>"

lemma two_expl_ok: "expl_ok two_expl"
  by (simp add: two_expl_def expl_ok_def)

theorem expl_implements_map_witness:
  "(let (r, k') = kaodv_expl_add 40 20 3000 0 1 two_expl in expl_ok k' \<and> r = 1
      \<and> routes k' = (routes two_expl)(40 \<mapsto> stamp 40 20 3000 0 1 two_expl))
   \<and> (let (r, k') = kaodv_expl_update 20 20 3000 0 1 two_expl in expl_ok k' \<and> r = 0)"
proof -
  have "expl_len two_expl \<le> EXPL_MAX_LEN" "k_ok two_expl (k_calls two_expl)"
    "routes two_expl 40 = None" "routes two_expl 20 \<noteq> None"
    by (simp_all add: two_expl_def routes_def kaodv_expl_get_def expl_check_def)
  then show ?thesis
    using expl_implements_map [of two_expl 40 20 3000 0 1] expl_implements_map [of two_expl 20 20 3000 0 1] two_expl_ok
    by (simp add: case_prod_beta)
qed

text \<open>
  C31: a full table loses routes. With 1025 entries an update of a route reports success but
  removes it, since the second \<^verbatim>\<open>__kaodv_expl_add\<close> fails unnoticed. A failed addition
  counts all the same: \<^verbatim>\<open>expl_len\<close> runs away from the list, and even a flush does not
  bring it back to 0, so the room is lost until the module is loaded again.
\<close>

theorem expl_full_loses_routes:
  assumes ok: "expl_ok k" and full: "expl_len k > EXPL_MAX_LEN" and mem: "k_ok k (k_calls k)"
  shows "if routes k d \<noteq> None
    then let (r, k') = kaodv_expl_update d nh t fl i k in
      r = 0 \<and> routes k' = (routes k)(d := None) \<and> expl_len k' = expl_len k
    else let (r, k') = kaodv_expl_add d nh t fl i k in
      r = - ENOSPC \<and> routes k' = routes k \<and> expl_list (kaodv_expl_flush k') = [] \<and> expl_len (kaodv_expl_flush k') = 1"
proof (cases "routes k d")
  case None
  then show ?thesis
    using full ok mem by (auto simp: kaodv_expl_add_def routes_def [symmetric] kcall_def expl_add_entry_def
        Let_def flush_effect expl_ok_def intro: routes_cong)
next
  case (Some e)
  let ?k = "k\<lparr>expl_list := remove1 e (expl_list k)\<rparr>"
  have "routes (snd (kaodv_expl_del d k)) = (routes k)(d := None)"
    using del_effect [OF ok Some] by (simp add: case_prod_beta)
  then have "routes ?k = (routes k)(d := None)"
    using Some routes_cong [of "snd (kaodv_expl_del d k)" ?k]
    by (simp add: kaodv_expl_del_def expl_del_entry_def routes_def kaodv_expl_get_def)
  moreover have "kaodv_expl_update d nh t fl i k = (0, ?k)"
    using Some full by (simp add: kaodv_expl_update_def routes_def kaodv_expl_get_def expl_add_entry_def)
  ultimately show ?thesis using Some by simp
qed

text \<open>The table the witness uses: 1025 routes, to the destinations from 0 on.\<close>

definition full_expl :: kernel where
  "full_expl = kernel0\<lparr>expl_len := 1025, expl_list := map (\<lambda>n.
     \<lparr>x_expires = 0, x_flags = 0, x_daddr = of_nat n, x_nhop = 20, x_ifindex = 1\<rparr>) [0..<1025]\<rparr>"

lemma full_expl_ok: "expl_ok full_expl"
  by (simp add: full_expl_def expl_ok_def comp_def distinct_map sorted_wrt_map inj_on_def of_nat32_eq del: upt_Suc upt_conv_Cons)

lemma full_expl_routes: "n < 2 ^ 32 \<Longrightarrow> routes full_expl (of_nat n) = None \<longleftrightarrow> 1025 \<le> n"
  by (auto simp: routes_None full_expl_def of_nat32_eq image_iff simp del: upt_Suc)

theorem expl_full_loses_routes_witness:
  "routes (snd (kaodv_expl_update (of_nat 7) 7 3000 0 1 full_expl)) = (routes full_expl)(of_nat 7 := None)
   \<and> expl_len (kaodv_expl_flush (snd (kaodv_expl_add (of_nat 2000) 20 3000 0 1 full_expl))) = 1"
proof -
  have len: "expl_len full_expl > EXPL_MAX_LEN" "k_ok full_expl (k_calls full_expl)"
    by (simp_all add: full_expl_def)
  show ?thesis
    using expl_full_loses_routes [OF full_expl_ok len, of "of_nat 7" 7 3000 0 1]
      expl_full_loses_routes [OF full_expl_ok len, of "of_nat 2000" 20 3000 0 1]
      full_expl_routes [of 7] full_expl_routes [of 2000]
    by (simp add: case_prod_beta del: of_nat_numeral)
qed

end
