(* ===== verification/Kipenc.thy ===== *)
theory Kipenc
  imports Kernel
begin

text \<open>
  \<^verbatim>\<open>kaodv_ipenc.c\<close>: minimal IP encapsulation, on the bytes of a packet. The IP header has
  \<^verbatim>\<open>ihl\<close> in the low half of byte 0, \<^verbatim>\<open>tot_len\<close> at 2, \<^verbatim>\<open>id\<close> at 4,
  \<^verbatim>\<open>protocol\<close> at 9, \<^verbatim>\<open>check\<close> at 10, \<^verbatim>\<open>saddr\<close> at 12 and
  \<^verbatim>\<open>daddr\<close> at 16. The 8 bytes of \<^verbatim>\<open>struct min_ipenc_hdr\<close> follow it:
  \<^verbatim>\<open>protocol\<close>, the bit fields \<^verbatim>\<open>res\<close> and \<^verbatim>\<open>s\<close>,
  \<^verbatim>\<open>check\<close> at 2, \<^verbatim>\<open>daddr\<close> at 4.
\<close>

section \<open>Operations\<close>

abbreviation (input) IPPROTO_MIPE :: u8 where "IPPROTO_MIPE \<equiv> 55"
abbreviation (input) min_ipenc_hdr :: nat where "min_ipenc_hdr \<equiv> 8"

definition le16 :: "u16 \<Rightarrow> u8 list" where
  "le16 w = [ucast w, ucast (drop_bit 8 w)]"

definition peek16 :: "nat \<Rightarrow> buffer \<Rightarrow> u16" where
  "peek16 i b = ucast (b ! i) OR push_bit 8 (ucast (b ! (i + 1)))"

text \<open>\<^verbatim>\<open>htons\<close> and \<^verbatim>\<open>ntohs\<close> around a 16-bit field in memory.\<close>

definition be16 :: "u16 \<Rightarrow> u8 list" where
  "be16 w = [ucast (drop_bit 8 w), ucast w]"

definition peek_be16 :: "nat \<Rightarrow> buffer \<Rightarrow> u16" where
  "peek_be16 i b = ucast (b ! (i + 1)) OR push_bit 8 (ucast (b ! i))"

definition ip_csum :: "u16 list \<Rightarrow> u16" where
  "ip_csum buf =
     (let sum = foldl (\<lambda>sum w. sum + ucast w) (0 :: u32) buf;
          sum = drop_bit 16 sum + (sum AND 0xffff);
          sum = sum + drop_bit 16 sum
      in ucast (NOT sum))"

text \<open>\<^verbatim>\<open>ihl << 2\<close> of the IP header at offset \<open>nh\<close>.\<close>

definition hdr_bytes :: "nat \<Rightarrow> buffer \<Rightarrow> nat" where
  "hdr_bytes nh b = 4 * unat (b ! nh AND 15)"

text \<open>
  The 8 bytes of \<^verbatim>\<open>skb_put\<close> have no defined value; those not overwritten by the copy of
  the payload are the fields set afterwards.
\<close>

definition encapsulated :: "nat \<Rightarrow> u32 \<Rightarrow> buffer \<Rightarrow> buffer" where
  "encapsulated hl dest b =
     (let b = poke hl [b ! 9, 0, 0, 0] b;
          b = poke (hl + 4) (le32 (peek32 16 b)) b;
          b = poke 16 (le32 dest) b;
          b = poke 9 [IPPROTO_MIPE] b;
          b = poke 2 (be16 (peek_be16 2 b + 8)) b
      in poke (hl + 2) (le16 (ip_csum [peek16 hl b, peek16 (hl + 2) b, peek16 (hl + 4) b, peek16 (hl + 6) b])) b)"

definition ip_pkt_encapsulate :: "sk_buff \<Rightarrow> u32 \<Rightarrow> kernel \<Rightarrow> sk_buff option \<times> kernel" where
  "ip_pkt_encapsulate skb dest k =
     (let (mem, k) = kcall k in
      if \<not> mem then (None, emit [Kfree_skb skb] k)
      else
        let d = sk_data skb; len = length d; hl = hdr_bytes (sk_nh skb) d;
            k = kcheck (sk_nh skb + 20 \<le> len \<and> hl \<le> len) k;
            b = poke (hl + min_ipenc_hdr) (drop hl d) (poke 0 (take hl d) (d @ replicate min_ipenc_hdr 0));
            k = emit [Kfree_skb skb] k;
            hl = hdr_bytes 0 b;
            k = kcheck (20 \<le> hl \<and> hl + min_ipenc_hdr \<le> length b) k;
            b = ip_send_check k (encapsulated hl dest b);
            b = (if peek16 4 b = 0 then ip_select_ident k b else b)
        in (Some \<lparr>sk_data = b, sk_nh = 0, sk_sock = sk_sock skb\<rparr>, k))"

definition decapsulated :: "nat \<Rightarrow> nat \<Rightarrow> buffer \<Rightarrow> buffer" where
  "decapsulated nh hl d =
     (let b = poke (nh + 9) [d ! (nh + hl)] d;
          b = poke (nh + 16) (le32 (peek32 (nh + hl + 4) b)) b;
          b = poke hl (drop (hl + min_ipenc_hdr) b) b;
          b = take (length d - min_ipenc_hdr) b
      in poke 2 (be16 (peek_be16 2 b - 8)) b)"

definition ip_pkt_decapsulate :: "sk_buff \<Rightarrow> kernel \<Rightarrow> sk_buff \<times> kernel" where
  "ip_pkt_decapsulate skb k =
     (let d = sk_data skb; nh = sk_nh skb; hl = hdr_bytes nh d;
          k = kcheck (nh + 20 \<le> length d \<and> nh + hl + min_ipenc_hdr \<le> length d \<and> 20 \<le> hl) k
      in (skb\<lparr>sk_data := ip_send_check k (decapsulated nh hl d), sk_nh := 0\<rparr>, k))"

section \<open>Bytes\<close>

lemma length_le16 [simp]: "length (le16 w) = 2" "length (be16 w) = 2"
  by (simp_all add: le16_def be16_def)

lemma low_byte: "ucast (ucast (a :: u8) OR push_bit 8 (ucast (b :: u8)) :: u16) = a"
  by (rule bit_word_eqI) (simp add: bit_ucast_iff bit_or_iff bit_push_bit_iff)

lemma high_byte: "ucast (drop_bit 8 (ucast (a :: u8) OR push_bit 8 (ucast (b :: u8)) :: u16)) = b"
proof (rule bit_word_eqI)
  fix n :: nat
  assume "n < LENGTH(8)"
  then show "bit (ucast (drop_bit 8 (ucast a OR push_bit 8 (ucast b) :: u16)) :: u8) n = bit b n"
    using bit_imp_le_length [of a "8 + n"]
    by (auto simp: bit_ucast_iff bit_or_iff bit_push_bit_iff bit_drop_bit_eq)
qed

lemma le16_peek16: "le16 (peek16 i b) = [b ! i, b ! (i + 1)]"
  by (simp only: le16_def peek16_def low_byte high_byte)

lemma be16_peek_be16: "be16 (peek_be16 i b) = [b ! i, b ! (i + 1)]"
  by (simp only: be16_def peek_be16_def low_byte high_byte)

lemma peek_be16_be16: "i + 2 \<le> length b \<Longrightarrow> peek_be16 i (poke i (be16 w) b) = w"
proof -
  assume "i + 2 \<le> length b"
  then have "peek_be16 i (poke i (be16 w) b) = (ucast (ucast w :: u8) OR push_bit 8 (ucast (ucast (drop_bit 8 w) :: u8)) :: u16)"
    by (simp add: peek_be16_def nth_poke be16_def)
  also have "\<dots> = w"
  proof (rule bit_word_eqI)
    fix n :: nat
    assume "n < LENGTH(16)"
    then consider "n < 8" | "8 \<le> n" "n < 16" by (simp, linarith)
    then show "bit (ucast (ucast w :: u8) OR push_bit 8 (ucast (ucast (drop_bit 8 w) :: u8)) :: u16) n = bit w n"
      by cases (auto simp: bit_or_iff bit_ucast_iff bit_push_bit_iff bit_drop_bit_eq)
  qed
  finally show ?thesis .
qed

lemma peek_be16_poke_other:
  assumes "i + length bs \<le> length b" and "j + 2 \<le> length b" and "j + 2 \<le> i \<or> i + length bs \<le> j"
  shows "peek_be16 j (poke i bs b) = peek_be16 j b"
  using assms by (auto simp: peek_be16_def nth_poke)

lemma bit_high_byte: "8 \<le> n \<Longrightarrow> \<not> bit (x :: u8) n"
  using bit_imp_le_length [of x n] by auto

lemma bit_peek32:
  "n < 8 \<Longrightarrow> bit (peek32 i b) n = bit (b ! i) n"
  "n < 8 \<Longrightarrow> bit (peek32 i b) (8 + n) = bit (b ! (i + 1)) n"
  "n < 8 \<Longrightarrow> bit (peek32 i b) (16 + n) = bit (b ! (i + 2)) n"
  "n < 8 \<Longrightarrow> bit (peek32 i b) (24 + n) = bit (b ! (i + 3)) n"
  by (simp_all add: peek32_def bit_ucast_iff bit_or_iff bit_push_bit_iff bit_high_byte)

lemma le32_peek32: "le32 (peek32 i b) = [b ! i, b ! (i + 1), b ! (i + 2), b ! (i + 3)]"
proof -
  have "ucast (peek32 i b) = b ! i" "ucast (drop_bit 8 (peek32 i b)) = b ! (i + 1)"
    "ucast (drop_bit 16 (peek32 i b)) = b ! (i + 2)" "ucast (drop_bit 24 (peek32 i b)) = b ! (i + 3)"
    by (rule bit_word_eqI, simp only: bit_ucast_iff bit_drop_bit_eq comp_def, simp add: bit_peek32)+
  then show ?thesis by (simp add: le32_def)
qed

section \<open>The checksum\<close>

lemma unat_shift: "n < 2 ^ 32 \<Longrightarrow> unat (drop_bit 16 (of_nat n :: u32)) = n div 65536"
proof -
  assume "n < 2 ^ 32"
  then have "unat (drop_bit 16 (of_nat n :: u32)) = drop_bit 16 n"
    by (simp add: unat_drop_bit_eq unat_of_nat take_bit_nat_eq_self)
  then show ?thesis by (simp add: drop_bit_eq_div)
qed

lemma foldl_sum: "foldl (\<lambda>sum w. sum + ucast w) (a :: u32) (ws :: u16 list) = a + of_nat (sum_list (map unat ws))"
proof (induction ws arbitrary: a)
  case (Cons w ws)
  have "(ucast w :: u32) = of_nat (unat w)" by simp
  then show ?case by (simp add: Cons.IH algebra_simps)
qed simp

lemma unat_small: "n < 2 ^ 32 \<Longrightarrow> unat (of_nat n :: u32) = n"
  by (simp add: unat_of_nat take_bit_nat_eq_self)

lemma shift_of_nat: "n < 2 ^ 32 \<Longrightarrow> drop_bit 16 (of_nat n :: u32) = of_nat (n div 65536)"
  using unat_shift [of n] unat_small [of "n div 65536"]
  by (simp add: word_unat_eq_iff le_less_trans [OF div_le_dividend])

lemma low_half: "(of_nat n AND 0xffff :: u32) = of_nat (n mod 65536)"
proof -
  have "of_nat n AND mask 16 = (of_nat (take_bit 16 n) :: u32)"
    by (rule bit_word_eqI) (auto simp: bit_simps)
  then show ?thesis by (simp add: mask_eq_exp_minus_1 take_bit_eq_mod)
qed

lemma unat_not16: "unat (NOT (w :: u16)) = 65535 - unat w"
proof -
  have "NOT w = - 1 - w" by (simp add: not_eq_complement)
  then have "unat (NOT w) = unat (- 1 :: u16) - unat w" by (simp only: unat_sub [OF word_n1_ge])
  moreover have "(- 1 :: u16) = 65535" by simp
  then have "unat (- 1 :: u16) = unat (65535 :: u16)" by (rule arg_cong)
  ultimately show ?thesis by simp
qed

text \<open>The two foldings, on natural numbers.\<close>

definition fold16 :: "nat \<Rightarrow> nat" where
  "fold16 s = (let t = s div 65536 + s mod 65536 in (t + t div 65536) mod 65536)"

lemma unat_ip_csum:
  fixes ws :: "u16 list"
  defines "s \<equiv> sum_list (map unat ws)"
  assumes "s < 2 ^ 31"
  shows "unat (ip_csum ws) = 65535 - fold16 s"
proof -
  define t where "t = s div 65536 + s mod 65536"
  have "s div 65536 < 2 ^ 15" using assms(2) by (intro less_mult_imp_div_less) simp
  moreover have "s mod 65536 < 65536" by simp
  ultimately have t: "t < 2 ^ 32" unfolding t_def by simp
  have "drop_bit 16 (of_nat s :: u32) + (of_nat s AND 0xffff) = of_nat t"
    using assms(2) by (simp add: shift_of_nat low_half t_def)
  then have "ip_csum ws = ucast (NOT (of_nat (t + t div 65536) :: u32))"
    by (simp add: ip_csum_def foldl_sum s_def [symmetric] Let_def shift_of_nat [OF t])
  also have "\<dots> = NOT (of_nat (t + t div 65536))"
    by (rule bit_word_eqI) (auto simp: bit_simps simp del: of_nat_add)
  finally have "unat (ip_csum ws) = unat (NOT (of_nat (t + t div 65536) :: u16))" by simp
  also have "\<dots> = 65535 - (t + t div 65536) mod 65536"
    by (simp add: unat_not16 unat_of_nat take_bit_eq_mod del: of_nat_add)
  finally show ?thesis by (simp add: fold16_def t_def Let_def)
qed

text \<open>Put into a place of the words that was 0, the checksum makes their checksum 0.\<close>

lemma fold16_complement:
  assumes "s < 2 ^ 30"
  shows "fold16 (s + (65535 - fold16 s)) = 65535"
proof -
  define q where "q = s div 65536"
  define r where "r = s mod 65536"
  have s: "s = 65536 * q + r" and r: "r < 65536" by (simp_all add: q_def r_def)
  have q: "q < 16384" unfolding q_def using assms by (intro less_mult_imp_div_less) simp
  have sum: "fold16 (65536 * a + b) = 65535" if "a + b = 65535" for a b
  proof -
    have "b < 65536" using that by simp
    then have "(65536 * a + b) div 65536 = a" "(65536 * a + b) mod 65536 = b" by simp_all
    then show ?thesis using that by (simp add: fold16_def Let_def)
  qed
  show ?thesis
  proof (cases "q + r < 65536")
    case True
    then have "fold16 s = q + r" by (simp add: fold16_def Let_def q_def [symmetric] r_def [symmetric])
    then have "s + (65535 - fold16 s) = 65536 * q + (65535 - q)" using True s by simp
    then show ?thesis using sum [of q "65535 - q"] q by simp
  next
    case False
    then have "(q + r) div 65536 = 1" using r q by (intro div_nat_eqI) simp_all
    then have "fold16 s = (q + r + 1) mod 65536"
      by (simp add: fold16_def Let_def q_def [symmetric] r_def [symmetric])
    also have "\<dots> = q + r + 1 - 65536" using False r q by (simp add: mod_if)
    finally have "s + (65535 - fold16 s) = 65536 * (q + 1) + (65534 - q)" using False s r q by simp
    then show ?thesis using sum [of "q + 1" "65534 - q"] q by simp
  qed
qed

lemma ip_csum_complement:
  assumes "sum_list (map unat us) + sum_list (map unat ws) < 2 ^ 30"
  shows "ip_csum (us @ ip_csum (us @ 0 # ws) # ws) = 0"
proof -
  define s where "s = sum_list (map unat us) + sum_list (map unat ws)"
  have "unat (ip_csum (us @ 0 # ws)) = 65535 - fold16 s"
    using unat_ip_csum [of "us @ 0 # ws"] assms by (simp add: s_def)
  then have sum: "sum_list (map unat (us @ ip_csum (us @ 0 # ws) # ws)) = s + (65535 - fold16 s)"
    by (simp add: s_def)
  moreover have "s + (65535 - fold16 s) < 2 ^ 31" using assms by (simp add: s_def)
  ultimately have "unat (ip_csum (us @ ip_csum (us @ 0 # ws) # ws)) = 65535 - fold16 (s + (65535 - fold16 s))"
    using unat_ip_csum [of "us @ ip_csum (us @ 0 # ws) # ws"] by (simp only:)
  also have "\<dots> = 0" using fold16_complement [of s] assms by (simp add: s_def)
  finally show ?thesis by (simp add: unat_eq_0)
qed

section \<open>Encapsulating and unpacking\<close>

lemma peek16_le16: "i + 2 \<le> length b \<Longrightarrow> peek16 i (poke i (le16 w) b) = w"
proof -
  assume i: "i + 2 \<le> length b"
  have "peek16 i (poke i (le16 w) b) = peek_be16 i (poke i (be16 w) b)"
    using i by (simp add: peek16_def peek_be16_def nth_poke le16_def be16_def)
  then show ?thesis using i by (simp add: peek_be16_be16)
qed

lemma peek16_poke_other:
  assumes "i + length bs \<le> length b" and "j + 2 \<le> length b" and "j + 2 \<le> i \<or> i + length bs \<le> j"
  shows "peek16 j (poke i bs b) = peek16 j b"
  using assms by (auto simp: peek16_def nth_poke)

text \<open>The words of the encapsulation header add up to a checksum of 0.\<close>

lemma encapsulated_checksum:
  fixes dest :: u32
  assumes "20 \<le> hl" and "hl + 8 \<le> length b"
  defines "e \<equiv> encapsulated hl dest b"
  shows "ip_csum [peek16 hl e, peek16 (hl + 2) e, peek16 (hl + 4) e, peek16 (hl + 6) e] = 0"
proof -
  define c where "c = poke 2 (be16 (peek_be16 2 b + 8)) (poke 9 [IPPROTO_MIPE] (poke 16 (le32 dest)
    (poke (hl + 4) (le32 (peek32 16 b)) (poke hl [b ! 9, 0, 0, 0] b))))"
  have "peek_be16 2 (poke 9 [IPPROTO_MIPE] (poke 16 (le32 dest)
      (poke (hl + 4) (le32 (peek32 16 b)) (poke hl [b ! 9, 0, 0, 0] b)))) = peek_be16 2 b"
    "peek32 16 (poke hl [b ! 9, 0, 0, 0] b) = peek32 16 b"
    using assms(1,2) by (simp_all add: peek_be16_poke_other peek32_poke_other)
  then have e: "e = poke (hl + 2) (le16 (ip_csum [peek16 hl c, peek16 (hl + 2) c, peek16 (hl + 4) c, peek16 (hl + 6) c])) c"
    by (simp add: e_def encapsulated_def Let_def c_def)
  have len: "length c = length b" using assms(1,2) by (simp add: c_def)
  have c2: "peek16 (hl + 2) c = 0"
    using assms(1,2) by (simp add: c_def peek16_poke_other) (simp add: peek16_def nth_poke)
  have "peek16 hl e = peek16 hl c" "peek16 (hl + 4) e = peek16 (hl + 4) c" "peek16 (hl + 6) e = peek16 (hl + 6) c"
    "peek16 (hl + 2) e = ip_csum [peek16 hl c, 0, peek16 (hl + 4) c, peek16 (hl + 6) c]"
    using assms(1,2) len c2 by (simp_all add: e peek16_poke_other peek16_le16)
  moreover have "unat (peek16 i c) < 65536" for i using unsigned_less [where ?'a = nat and w = "peek16 i c"] by simp
  from this [of hl] this [of "hl + 4"] this [of "hl + 6"]
  have "sum_list (map unat [peek16 hl c]) + sum_list (map unat [peek16 (hl + 4) c, peek16 (hl + 6) c]) < 2 ^ 30" by simp
  ultimately show ?thesis using ip_csum_complement [of "[peek16 hl c]" "[peek16 (hl + 4) c, peek16 (hl + 6) c]"] by simp
qed


text \<open>\<open>same_but S b b'\<close>: the buffers differ at the offsets \<open>S\<close> at most.\<close>

definition same_but :: "nat set \<Rightarrow> buffer \<Rightarrow> buffer \<Rightarrow> bool" where
  "same_but S b b' \<longleftrightarrow> length b' = length b \<and> (\<forall>i < length b. i \<notin> S \<longrightarrow> b' ! i = b ! i)"

lemma same_but_trans: "same_but S a b \<Longrightarrow> same_but T b c \<Longrightarrow> same_but (S \<union> T) a c"
  by (auto simp: same_but_def)

lemma same_but_mono: "same_but S a b \<Longrightarrow> S \<subseteq> T \<Longrightarrow> same_but T a b"
  by (auto simp: same_but_def)

lemma same_but_peek:
  assumes "same_but S a b"
  shows "i + 4 \<le> length a \<Longrightarrow> {i..<i + 4} \<inter> S = {} \<Longrightarrow> peek32 i b = peek32 i a"
    "i + 2 \<le> length a \<Longrightarrow> {i..<i + 2} \<inter> S = {} \<Longrightarrow> peek_be16 i b = peek_be16 i a"
    "i + 2 \<le> length a \<Longrightarrow> {i..<i + 2} \<inter> S = {} \<Longrightarrow> peek16 i b = peek16 i a"
  using assms by (auto simp: same_but_def peek32_def peek_be16_def peek16_def disjoint_iff)

text \<open>What the kernel documents of the two functions that are not in the sources.\<close>

definition header_functions :: "kernel \<Rightarrow> bool" where
  "header_functions k \<longleftrightarrow> (\<forall>b. same_but {10, 11} b (ip_send_check k b)) \<and> (\<forall>b. same_but {4, 5} b (ip_select_ident k b))"

lemma nth_encapsulated:
  assumes "20 \<le> hl" and "hl + 8 \<le> length b" and "i < length b" and "i < hl \<or> hl + 8 \<le> i"
    and "i \<notin> {2, 3, 9, 16, 17, 18, 19}"
  shows "encapsulated hl dest b ! i = b ! i"
proof -
  have "i < 2 \<or> 4 \<le> i" "i < 9 \<or> 10 \<le> i" "i < 16 \<or> 20 \<le> i" using assms(5) by auto
  then show ?thesis
    using assms(1-3) by (cases "i < hl"; insert assms(4))
      (simp_all add: encapsulated_def Let_def peek8_poke_other)
qed

lemma encapsulated_fields:
  assumes "20 \<le> hl" and "hl + 8 \<le> length b"
  shows "length (encapsulated hl dest b) = length b"
    and "peek32 16 (encapsulated hl dest b) = dest"
    and "encapsulated hl dest b ! 9 = IPPROTO_MIPE"
    and "peek_be16 2 (encapsulated hl dest b) = peek_be16 2 b + 8"
    and "encapsulated hl dest b ! hl = b ! 9"
    and "peek32 (hl + 4) (encapsulated hl dest b) = peek32 16 b"
  using assms by (simp_all add: encapsulated_def Let_def peek32_poke_other peek32_le32 nth_poke
      peek_be16_poke_other peek_be16_be16)

lemma nth_decapsulated:
  assumes "20 \<le> hl" and "hl + 8 \<le> length e" and "i < length e - 8"
  shows "i < hl \<Longrightarrow> i \<notin> {2, 3, 9, 16, 17, 18, 19} \<Longrightarrow> decapsulated 0 hl e ! i = e ! i"
    and "hl \<le> i \<Longrightarrow> decapsulated 0 hl e ! i = e ! (i + 8)"
proof -
  show "decapsulated 0 hl e ! i = e ! i" if "i < hl" "i \<notin> {2, 3, 9, 16, 17, 18, 19}"
  proof -
    have "i < 2 \<or> 4 \<le> i" "i < 9 \<or> 10 \<le> i" "i < 16 \<or> 20 \<le> i" using that(2) by auto
    then show ?thesis using assms that(1) by (simp add: decapsulated_def Let_def peek8_poke_other)
  qed
  show "decapsulated 0 hl e ! i = e ! (i + 8)" if "hl \<le> i"
    using assms that by (simp add: decapsulated_def Let_def peek8_poke_other)
      (simp add: nth_poke add.commute)
qed

lemma decapsulated_fields:
  assumes "20 \<le> hl" and "hl + 8 \<le> length e"
  shows "length (decapsulated 0 hl e) = length e - 8"
    and "decapsulated 0 hl e ! 9 = e ! hl"
    and "peek32 16 (decapsulated 0 hl e) = peek32 (hl + 4) e"
    and "peek_be16 2 (decapsulated 0 hl e) = peek_be16 2 e - 8"
proof -
  define b where "b = poke 16 (le32 (peek32 (hl + 4) (poke 9 [e ! hl] e))) (poke 9 [e ! hl] e)"
  define c where "c = take (length e - 8) (poke hl (drop (hl + 8) b) b)"
  have len: "length b = length e" "length c = length e - 8" using assms by (simp_all add: b_def c_def)
  have c: "c ! i = b ! i" if "i < hl" for i using assms that len by (simp add: c_def nth_poke)
  have d: "decapsulated 0 hl e = poke 2 (be16 (peek_be16 2 c - 8)) c"
    by (simp add: decapsulated_def Let_def b_def c_def)
  have "peek_be16 2 c = peek_be16 2 b" "peek32 16 c = peek32 16 b"
    using assms(1) by (simp_all add: peek_be16_def peek32_def c)
  moreover have "peek_be16 2 b = peek_be16 2 e" "peek32 16 b = peek32 (hl + 4) e" "b ! 9 = e ! hl"
    using assms by (simp_all add: b_def peek_be16_poke_other peek32_poke_other peek32_le32 nth_poke)
  ultimately show "length (decapsulated 0 hl e) = length e - 8" "decapsulated 0 hl e ! 9 = e ! hl"
    "peek32 16 (decapsulated 0 hl e) = peek32 (hl + 4) e"
    "peek_be16 2 (decapsulated 0 hl e) = peek_be16 2 e - 8"
    using assms len c [of 9] by (simp_all add: d peek8_poke_other peek_be16_be16 peek32_poke_other)
qed

text \<open>Equal words are equal bytes.\<close>

lemma peek_bytes:
  "peek32 i a = peek32 j b \<Longrightarrow> k < 4 \<Longrightarrow> a ! (i + k) = b ! (j + k)"
  "peek_be16 i a = peek_be16 j b \<Longrightarrow> k < 2 \<Longrightarrow> a ! (i + k) = b ! (j + k)"
  using le32_peek32 [of i a] le32_peek32 [of j b] be16_peek_be16 [of i a] be16_peek_be16 [of j b]
  by (auto simp: numeral_eq_Suc less_Suc_eq)

text \<open>
  Unpacking what was packed, with anything done in between to the checksum and the id of the
  header: nothing else of the packet changes.
\<close>

lemma decapsulated_encapsulated:
  assumes h: "hdr_bytes 0 d = hl" "20 \<le> hl" "hl \<le> length d"
    and b: "b = poke (hl + 8) (drop hl d) (poke 0 (take hl d) (d @ replicate 8 0))"
    and e: "same_but S (encapsulated hl dest b) e" "S \<subseteq> {4, 5, 10, 11}"
  shows "hdr_bytes 0 e = hl \<and> length e = length d + 8 \<and> same_but S d (decapsulated 0 hl e)"
proof -
  have lb: "length b = length d + 8" using h b by simp
  have low: "b ! i = d ! i" if "i < hl" for i
    using that h b by (simp add: nth_poke)
  have high: "b ! (i + 8) = d ! i" if "hl \<le> i" "i < length d" for i
    using that h b by (simp add: nth_poke)
  have le: "length e = length d + 8" using e(1) encapsulated_fields(1) [of hl b dest] lb h by (simp add: same_but_def)
  have eb: "e ! i = b ! i" if "i < length b" "i < hl \<or> hl + 8 \<le> i" "i \<notin> {2, 3, 9, 16, 17, 18, 19}" "i \<notin> S" for i
    using that e(1) nth_encapsulated [of hl b i dest] lb h encapsulated_fields(1) [of hl b dest]
    by (auto simp: same_but_def)
  have enc: "20 \<le> hl" "hl + 8 \<le> length b" using h lb by simp_all
  have S: "{2..<2 + 2} \<inter> S = {}" "{hl + 4..<hl + 4 + 4} \<inter> S = {}" "hl \<notin> S" using e(2) h(2) by auto
  have "peek_be16 2 e = peek_be16 2 (encapsulated hl dest b)"
    "peek32 (hl + 4) e = peek32 (hl + 4) (encapsulated hl dest b)"
    "e ! hl = encapsulated hl dest b ! hl"
    using same_but_peek(2) [OF e(1) _ S(1)] same_but_peek(1) [OF e(1) _ S(2)] S(3) e(1) enc
      encapsulated_fields(1) [OF enc, of dest]
    by (simp_all add: same_but_def)
  then have f: "peek_be16 2 e = peek_be16 2 b + 8" "e ! hl = b ! 9" "peek32 (hl + 4) e = peek32 16 b"
    using encapsulated_fields [OF enc, of dest] by simp_all
  have "peek_be16 2 b = peek_be16 2 d" "peek32 16 b = peek32 16 d" "b ! 9 = d ! 9"
    using h low by (simp_all add: peek_be16_def peek32_def)
  note f = f [unfolded this]
  have dec: "peek_be16 2 (decapsulated 0 hl e) = peek_be16 2 d" "decapsulated 0 hl e ! 9 = d ! 9"
    "peek32 16 (decapsulated 0 hl e) = peek32 16 d" "length (decapsulated 0 hl e) = length d"
    using decapsulated_fields [of hl e] h le f by simp_all
  have "decapsulated 0 hl e ! i = d ! i" if "i < length d" "i \<notin> S" for i
  proof (cases "i \<in> {2, 3, 9, 16, 17, 18, 19}")
    case True
    then show ?thesis
      using dec(2) peek_bytes(1) [OF dec(3), of 0] peek_bytes(1) [OF dec(3), of 1] peek_bytes(1) [OF dec(3), of 2]
        peek_bytes(1) [OF dec(3), of 3] peek_bytes(2) [OF dec(1), of 0] peek_bytes(2) [OF dec(1), of 1] by auto
  next
    case False
    show ?thesis
    proof (cases "i < hl")
      case True
      then show ?thesis
        using False that nth_decapsulated(1) [of hl e i] eb [of i] low [of i] h le lb by simp
    next
      case False
      then have "i + 8 \<notin> S" "i + 8 \<notin> {2, 3, 9, 16, 17, 18, 19}" using h e(2) by auto
      then show ?thesis
        using False that nth_decapsulated(2) [of hl e i] eb [of "i + 8"] high [of i] h le lb by simp
    qed
  qed
  moreover have zero: "0 \<notin> S" using e(2) by auto
  have "hdr_bytes 0 e = hl"
    using eb [of 0] low [of 0] zero h lb by (simp add: hdr_bytes_def)
  ultimately show ?thesis using le dec(4) by (simp add: same_but_def)
qed

section \<open>Properties\<close>


text \<open>A UDP packet from 10.0.0.1 to 10.0.0.2 with four bytes of payload.\<close>

definition small_packet :: sk_buff where
  "small_packet = \<lparr>sk_data = [0x45, 0, 0, 24, 0, 1, 0, 0, 64, 17, 0, 0, 10, 0, 0, 1, 10, 0, 0, 2, 1, 2, 3, 4],
     sk_nh = 0, sk_sock = None\<rparr>"

lemma small_packet_hdr: "hdr_bytes 0 (sk_data small_packet) = 20" "length (sk_data small_packet) = 24" "sk_nh small_packet = 0"
  by (simp_all add: small_packet_def hdr_bytes_def)

lemma kernel0_header: "header_functions kernel0"
  by (simp add: header_functions_def same_but_def)


end
