(* ===== verification/Kqueue.thy ===== *)
theory Kqueue
  imports Kexpl Kipenc
begin

text \<open>
  \<^verbatim>\<open>kaodv_queue.c\<close>: packets that wait for a route. New entries are put at the head of
  \<^verbatim>\<open>queue_list\<close> and searched for from its tail, so \<open>waiting\<close>, the reverse of the
  list, is the order of arrival. The verdict on a destination takes its packets off one by one;
  the locale \<open>packet_fifo\<close> proves what such a loop does.
\<close>

section \<open>Operations\<close>

abbreviation (input) KAODV_QUEUE_DROP :: int where "KAODV_QUEUE_DROP \<equiv> 1"
abbreviation (input) KAODV_QUEUE_SEND :: int where "KAODV_QUEUE_SEND \<equiv> 2"

definition enqueue_entry :: "queue_entry \<Rightarrow> kernel \<Rightarrow> int \<times> kernel" where
  "enqueue_entry e k =
     (if queue_total k \<ge> queue_maxlen k then (- ENOSPC, k)
      else (0, k\<lparr>queue_list := e # queue_list k, queue_total := queue_total k + 1\<rparr>))"

definition check_entry :: "(queue_entry \<Rightarrow> bool) \<Rightarrow> kernel \<Rightarrow> queue_entry option" where
  "check_entry cmpfn k = find cmpfn (rev (queue_list k))"

definition check_delqueue_entry :: "(queue_entry \<Rightarrow> bool) \<Rightarrow> kernel \<Rightarrow> queue_entry option \<times> kernel" where
  "check_delqueue_entry cmpfn k = (case check_entry cmpfn k of
       None \<Rightarrow> (None, k)
     | Some e \<Rightarrow> (Some e, k\<lparr>queue_list := rev (remove1 e (rev (queue_list k))), queue_total := queue_total k - 1\<rparr>))"

text \<open>Every turn of a loop that takes entries off makes the queue shorter.\<close>

lemma check_delqueue_shorter:
  assumes "check_delqueue_entry p k = (Some e, k')"
  shows "length (queue_list k') < length (queue_list k)"
proof -
  have "find p (rev (queue_list k)) = Some e" and k': "queue_list k' = rev (remove1 e (rev (queue_list k)))"
    using assms by (auto simp: check_delqueue_entry_def check_entry_def split: option.splits)
  then have "e \<in> set (rev (queue_list k))" by (metis find_Some_iff nth_mem)
  then show ?thesis using length_pos_if_in_set [of e "queue_list k"] by (simp add: k' length_remove1)
qed

function kaodv_queue_flush :: "kernel \<Rightarrow> kernel" where
  "kaodv_queue_flush k = (case check_delqueue_entry (\<lambda>_. True) k of
       (None, k') \<Rightarrow> k'
     | (Some e, k') \<Rightarrow> kaodv_queue_flush (emit [Kfree_skb (q_skb e)] k'))"
  by pat_completeness auto

termination
  by (relation "measure (\<lambda>k. length (queue_list k))") (auto dest!: check_delqueue_shorter [OF sym])

definition kaodv_queue_enqueue_packet :: "sk_buff \<Rightarrow> nat \<Rightarrow> kernel \<Rightarrow> int \<times> kernel" where
  "kaodv_queue_enqueue_packet skb okfn k =
     (let (mem, k) = kcall k; d = sk_data skb; nh = sk_nh skb in
      if \<not> mem then (- ENOMEM, k)
      else enqueue_entry \<lparr>q_skb = skb, q_okfn = okfn, q_tos = d ! (nh + 1), q_daddr = peek32 (nh + 16) d,
             q_saddr = peek32 (nh + 12) d\<rparr> (kcheck (nh + 20 \<le> length d) k))"

definition dest_cmp :: "u32 \<Rightarrow> queue_entry \<Rightarrow> bool" where
  "dest_cmp daddr e \<longleftrightarrow> daddr = q_daddr e"

definition kaodv_queue_check :: "u32 \<Rightarrow> kernel \<Rightarrow> bool" where
  "kaodv_queue_check daddr k \<longleftrightarrow> check_entry (dest_cmp daddr) k \<noteq> None"

text \<open>The bodies of the two loops of \<^verbatim>\<open>kaodv_queue_set_verdict\<close>.\<close>

definition drop_packet :: "queue_entry \<Rightarrow> int \<Rightarrow> kernel \<Rightarrow> int \<times> kernel" where
  "drop_packet e pkts k =
     (pkts + 1, emit ((if pkts = 0 then [Icmp_host_unreach (q_skb e)] else []) @ [Kfree_skb (q_skb e)]) k)"

definition send_packet :: "u32 \<Rightarrow> queue_entry \<Rightarrow> int \<Rightarrow> kernel \<Rightarrow> int \<times> kernel" where
  "send_packet daddr e pkts k = (case kaodv_expl_get daddr k of
       None \<Rightarrow> (pkts, emit [Kfree_skb (q_skb e)] k)
     | Some r \<Rightarrow>
         let (skb, k) = (if x_flags r AND KAODV_RT_GW_ENCAP \<noteq> 0 then ip_pkt_encapsulate (q_skb e) (x_nhop r) k
                         else (Some (q_skb e), k))
         in case skb of None \<Rightarrow> (pkts, k)
            | Some s \<Rightarrow> (pkts + 1, emit [Route_me_harder s, Okfn (q_okfn e) s] k))"

lemma queue_list_encapsulate [simp]: "queue_list (snd (ip_pkt_encapsulate s d k)) = queue_list k"
  by (simp add: ip_pkt_encapsulate_def kcall_def Let_def kcheck_def)

lemma queue_list_bodies [simp]:
  "queue_list (snd (drop_packet e n k)) = queue_list k" "queue_list (snd (send_packet d e n k)) = queue_list k"
  by (auto simp: drop_packet_def send_packet_def Let_def case_prod_beta split: option.split)

function drop_loop :: "u32 \<Rightarrow> int \<Rightarrow> kernel \<Rightarrow> int \<times> kernel" where
  "drop_loop daddr pkts k = (case check_delqueue_entry (dest_cmp daddr) k of
       (None, k') \<Rightarrow> (pkts, k')
     | (Some e, k') \<Rightarrow> let r = drop_packet e pkts k' in drop_loop daddr (fst r) (snd r))"
  by pat_completeness auto

termination
  by (relation "measure (\<lambda>x. length (queue_list (snd (snd x))))") (auto dest!: check_delqueue_shorter [OF sym])

function send_loop :: "u32 \<Rightarrow> int \<Rightarrow> kernel \<Rightarrow> int \<times> kernel" where
  "send_loop daddr pkts k = (case check_delqueue_entry (dest_cmp daddr) k of
       (None, k') \<Rightarrow> (pkts, k')
     | (Some e, k') \<Rightarrow> let r = send_packet daddr e pkts k' in send_loop daddr (fst r) (snd r))"
  by pat_completeness auto

termination
  by (relation "measure (\<lambda>x. length (queue_list (snd (snd x))))") (auto dest!: check_delqueue_shorter [OF sym])

declare kaodv_queue_flush.simps [simp del] drop_loop.simps [simp del] send_loop.simps [simp del]

definition kaodv_queue_set_verdict :: "int \<Rightarrow> u32 \<Rightarrow> kernel \<Rightarrow> int \<times> kernel" where
  "kaodv_queue_set_verdict verdict daddr k =
     (if verdict = KAODV_QUEUE_DROP then drop_loop daddr 0 k
      else if verdict = KAODV_QUEUE_SEND then send_loop daddr 0 k
      else (0, k))"

definition kaodv_queue_init :: "kernel \<Rightarrow> int \<times> kernel" where
  "kaodv_queue_init k =
     (let (made, k) = kcall (k\<lparr>queue_total := 0\<rparr>) in
      if \<not> made then (- 1, k) else (1, k\<lparr>held := Queue_proc # held k\<rparr>))"

definition kaodv_queue_finish :: "kernel \<Rightarrow> kernel" where
  "kaodv_queue_finish k = (let k = kaodv_queue_flush k in k\<lparr>held := remove1 Queue_proc (held k)\<rparr>)"

section \<open>Loops that take packets off a queue\<close>

text \<open>
  The interface between the queue and its loops: what waits, in order of arrival, and taking the
  first entry that fits. A loop that takes an entry and hands it to a body which leaves the
  queue alone ends, has served exactly the entries that fit, in order of arrival, and has left the
  others in order. What the body does is described by a relation \<open>P\<close> of the entries served so
  far, the result and the state.
\<close>

locale packet_fifo =
  fixes waiting :: "'s \<Rightarrow> 'e list"
    and take_first :: "('e \<Rightarrow> bool) \<Rightarrow> 's \<Rightarrow> 'e option \<times> 's"
  assumes take_none: "\<forall>e \<in> set (waiting s). \<not> fits e \<Longrightarrow> take_first fits s = (None, s)"
    and take_some: "waiting s = xs @ e # ys \<Longrightarrow> fits e \<Longrightarrow> \<forall>x \<in> set xs. \<not> fits x \<Longrightarrow>
      \<exists>s'. take_first fits s = (Some e, s') \<and> waiting s' = xs @ ys"
begin

lemma serve:
  assumes loop: "\<And>a s. loop a s = (case take_first fits s of (None, s') \<Rightarrow> (a, s')
      | (Some e, s') \<Rightarrow> let r = body e a s' in loop (fst r) (snd r))"
    and same: "\<And>e a s. waiting (snd (body e a s)) = waiting s"
    and step: "\<And>es e a s s'. P es a s \<Longrightarrow> take_first fits s = (Some e, s') \<Longrightarrow>
      P (es @ [e]) (fst (body e a s')) (snd (body e a s'))"
    and start: "P es a s"
  shows "waiting (snd (loop a s)) = filter (\<lambda>e. \<not> fits e) (waiting s)
    \<and> P (es @ filter fits (waiting s)) (fst (loop a s)) (snd (loop a s))"
  using start
proof (induction "length (filter fits (waiting s))" arbitrary: es a s)
  case 0
  then have none: "\<forall>e \<in> set (waiting s). \<not> fits e" by (simp add: filter_empty_conv)
  then have "loop a s = (a, s)" by (subst loop) (simp add: take_none)
  then show ?case using 0 none by simp
next
  case (Suc n)
  then have "filter fits (waiting s) \<noteq> []" by auto
  then have "\<exists>e \<in> set (waiting s). fits e" by (simp add: filter_empty_conv)
  then obtain xs e ys where q: "waiting s = xs @ e # ys" "fits e" "\<forall>x \<in> set xs. \<not> fits x"
    using split_list_first_prop [of "waiting s" fits] by auto
  obtain s' where s': "take_first fits s = (Some e, s')" "waiting s' = xs @ ys" using take_some [OF q] by blast
  let ?r = "body e a s'"
  have l: "loop a s = loop (fst ?r) (snd ?r)" by (subst loop) (simp add: s' Let_def)
  have f: "filter fits (waiting s) = e # filter fits (waiting (snd ?r))"
    "filter (\<lambda>e. \<not> fits e) (waiting s) = filter (\<lambda>e. \<not> fits e) (waiting (snd ?r))"
    using q by (auto simp: same s'(2) filter_empty_conv)
  have "n = length (filter fits (waiting (snd ?r)))" using Suc.hyps(2) f(1) by simp
  from Suc.hyps(1) [OF this step [OF Suc.prems s'(1)]] show ?case by (simp add: l f)
qed

end

definition waiting :: "kernel \<Rightarrow> queue_entry list" where
  "waiting k = rev (queue_list k)"

interpretation pq: packet_fifo waiting check_delqueue_entry
proof
  show "check_delqueue_entry fits k = (None, k)" if "\<forall>e \<in> set (waiting k). \<not> fits e" for fits k
  proof -
    have "find fits (rev (queue_list k)) = None" using that by (simp add: waiting_def find_None_iff)
    then show ?thesis by (simp add: check_delqueue_entry_def check_entry_def)
  qed
  show "\<exists>k'. check_delqueue_entry fits k = (Some e, k') \<and> waiting k' = xs @ ys"
    if "waiting k = xs @ e # ys" "fits e" "\<forall>x \<in> set xs. \<not> fits x" for fits k xs e ys
  proof -
    have "find fits (xs @ e # ys) = Some e" using that(2,3) by (induction xs) auto
    moreover have "remove1 e (xs @ e # ys) = xs @ ys" using that(2,3) by (auto simp: remove1_append)
    ultimately show ?thesis using that(1) by (simp add: check_delqueue_entry_def check_entry_def waiting_def)
  qed
qed

section \<open>What the loops do\<close>

lemma same_waiting: "queue_list k' = queue_list k \<Longrightarrow> waiting k' = waiting k"
  by (simp add: waiting_def)

lemma take_entry:
  assumes "check_delqueue_entry fits k = (Some e, k')"
  shows "\<exists>q. k' = k\<lparr>queue_list := q, queue_total := queue_total k - 1\<rparr>"
  using assms by (auto simp: check_delqueue_entry_def split: option.splits)

text \<open>\<open>served k n evs k'\<close>: from \<open>k\<close> to \<open>k'\<close> the queue lost \<open>n\<close> entries and the events \<open>evs\<close> took place.\<close>

definition served :: "kernel \<Rightarrow> nat \<Rightarrow> kevent list \<Rightarrow> kernel \<Rightarrow> bool" where
  "served k n evs k' \<longleftrightarrow>
     (\<exists>q. k' = k\<lparr>queue_list := q, queue_total := queue_total k - of_nat n, k_out := k_out k @ evs\<rparr>)"

lemma served_start: "served k 0 [] k"
  by (auto simp: served_def intro!: exI [of _ "queue_list k"])

lemma served_step:
  assumes "served k n evs s" and "check_delqueue_entry fits s = (Some e, s')"
  shows "served k (Suc n) (evs @ evs') (emit evs' s')"
  using assms(1) take_entry [OF assms(2)] by (auto simp: served_def emit_def algebra_simps)

lemma served_fields:
  assumes "served k n evs k'"
  shows "expl_list k' = expl_list k" "k_out k' = k_out k @ evs" "queue_total k' = queue_total k - of_nat n"
    "routes k' = routes k" "queue_maxlen k' = queue_maxlen k" "expl_room k' = expl_room k" "jiffies k' = jiffies k"
  using assms by (auto simp: served_def expl_room_def expl_ok_def intro: routes_cong)

definition drop_events :: "queue_entry list \<Rightarrow> kevent list" where
  "drop_events w = (if w = [] then [] else [Icmp_host_unreach (q_skb (hd w))]) @ map (\<lambda>e. Kfree_skb (q_skb e)) w"

definition send_events :: "queue_entry list \<Rightarrow> kevent list" where
  "send_events w = concat (map (\<lambda>e. [Route_me_harder (q_skb e), Okfn (q_okfn e) (q_skb e)]) w)"

lemma drop_events_snoc:
  "drop_events (w @ [e]) = drop_events w @ (if w = [] then [Icmp_host_unreach (q_skb e)] else []) @ [Kfree_skb (q_skb e)]"
  by (cases w) (simp_all add: drop_events_def)

lemma drop_loop_effect:
  "waiting (snd (drop_loop d 0 k)) = filter (\<lambda>e. \<not> dest_cmp d e) (waiting k)
   \<and> (let w = filter (dest_cmp d) (waiting k) in
      fst (drop_loop d 0 k) = int (length w) \<and> served k (length w) (drop_events w) (snd (drop_loop d 0 k)))"
proof -
  have "waiting (snd (drop_loop d 0 k)) = filter (\<lambda>e. \<not> dest_cmp d e) (waiting k)
    \<and> fst (drop_loop d 0 k) = int (length ([] @ filter (dest_cmp d) (waiting k)))
    \<and> served k (length ([] @ filter (dest_cmp d) (waiting k))) (drop_events ([] @ filter (dest_cmp d) (waiting k)))
        (snd (drop_loop d 0 k))"
  proof (rule pq.serve [where body = drop_packet and fits = "dest_cmp d" and
        P = "\<lambda>es a s. a = int (length es) \<and> served k (length es) (drop_events es) s"])
    show "drop_loop d a s = (case check_delqueue_entry (dest_cmp d) s of (None, s') \<Rightarrow> (a, s')
      | (Some e, s') \<Rightarrow> let r = drop_packet e a s' in drop_loop d (fst r) (snd r))" for a s
      by (rule drop_loop.simps)
    show "waiting (snd (drop_packet e a s)) = waiting s" for e a s by (rule same_waiting) simp
    show "fst (drop_packet e a s') = int (length (es @ [e]))
        \<and> served k (length (es @ [e])) (drop_events (es @ [e])) (snd (drop_packet e a s'))"
      if "a = int (length es) \<and> served k (length es) (drop_events es) s" "check_delqueue_entry (dest_cmp d) s = (Some e, s')"
      for es e a s s'
      using that(1) served_step [OF _ that(2)] by (simp add: drop_packet_def drop_events_snoc)
  qed (simp add: drop_events_def served_start)
  then show ?thesis by simp
qed

lemma send_loop_effect:
  assumes plain: "\<forall>r. routes k d = Some r \<longrightarrow> x_flags r AND KAODV_RT_GW_ENCAP = 0"
  shows "waiting (snd (send_loop d 0 k)) = filter (\<lambda>e. \<not> dest_cmp d e) (waiting k)
   \<and> (let w = filter (dest_cmp d) (waiting k) in
      fst (send_loop d 0 k) = (if routes k d = None then 0 else int (length w))
      \<and> served k (length w) (if routes k d = None then map (\<lambda>e. Kfree_skb (q_skb e)) w else send_events w) (snd (send_loop d 0 k)))"
proof -
  let ?ev = "\<lambda>w. if routes k d = None then map (\<lambda>e. Kfree_skb (q_skb e)) w else send_events w"
  have "waiting (snd (send_loop d 0 k)) = filter (\<lambda>e. \<not> dest_cmp d e) (waiting k)
    \<and> fst (send_loop d 0 k) = (if routes k d = None then 0 else int (length ([] @ filter (dest_cmp d) (waiting k))))
    \<and> served k (length ([] @ filter (dest_cmp d) (waiting k))) (?ev ([] @ filter (dest_cmp d) (waiting k)))
        (snd (send_loop d 0 k))"
  proof (rule pq.serve [where body = "send_packet d" and fits = "dest_cmp d" and
        P = "\<lambda>es a s. a = (if routes k d = None then 0 else int (length es)) \<and> served k (length es) (?ev es) s"])
    show "send_loop d a s = (case check_delqueue_entry (dest_cmp d) s of (None, s') \<Rightarrow> (a, s')
      | (Some e, s') \<Rightarrow> let r = send_packet d e a s' in send_loop d (fst r) (snd r))" for a s
      by (rule send_loop.simps)
    show "waiting (snd (send_packet d e a s)) = waiting s" for e a s by (rule same_waiting) simp
    show "fst (send_packet d e a s') = (if routes k d = None then 0 else int (length (es @ [e])))
        \<and> served k (length (es @ [e])) (?ev (es @ [e])) (snd (send_packet d e a s'))"
      if P: "a = (if routes k d = None then 0 else int (length es)) \<and> served k (length es) (?ev es) s"
        and t: "check_delqueue_entry (dest_cmp d) s = (Some e, s')" for es e a s s'
    proof -
      have "routes s' d = routes k d"
        using served_fields(4) [OF conjunct2 [OF P]] take_entry [OF t] routes_cong [of s' s] by auto
      then have g: "kaodv_expl_get d s' = routes k d" by (simp add: routes_def)
      show ?thesis
      proof (cases "routes k d")
        case None
        then show ?thesis using P g served_step [OF conjunct2 [OF P] t] by (simp add: send_packet_def)
      next
        case (Some r)
        then show ?thesis
          using P g plain served_step [OF conjunct2 [OF P] t, of "[Route_me_harder (q_skb e), Okfn (q_okfn e) (q_skb e)]"]
          by (simp add: send_packet_def send_events_def)
      qed
    qed
  qed (simp_all add: send_events_def served_start)
  then show ?thesis by (simp only: append_Nil Let_def)
qed

lemma flush_effect_queue:
  "waiting (kaodv_queue_flush k) = []
   \<and> served k (length (waiting k)) (map (\<lambda>e. Kfree_skb (q_skb e)) (waiting k)) (kaodv_queue_flush k)"
proof -
  have "waiting (snd ((), kaodv_queue_flush k)) = filter (\<lambda>e. \<not> True) (waiting k)
    \<and> served k (length ([] @ filter (\<lambda>_. True) (waiting k)))
        (map (\<lambda>e. Kfree_skb (q_skb e)) ([] @ filter (\<lambda>_. True) (waiting k))) (snd ((), kaodv_queue_flush k))"
  proof (rule pq.serve [where body = "\<lambda>e _ k. ((), emit [Kfree_skb (q_skb e)] k)" and
        loop = "\<lambda>_ k. ((), kaodv_queue_flush k)" and fits = "\<lambda>_. True" and
        P = "\<lambda>es _ s. served k (length es) (map (\<lambda>e. Kfree_skb (q_skb e)) es) s"])
    show "((), kaodv_queue_flush s) = (case check_delqueue_entry (\<lambda>_. True) s of (None, s') \<Rightarrow> (a, s')
      | (Some e, s') \<Rightarrow> let r = ((), emit [Kfree_skb (q_skb e)] s') in ((), kaodv_queue_flush (snd r)))" for a s
      by (subst kaodv_queue_flush.simps) (auto split: option.split prod.split)
  qed (auto simp: served_start waiting_def dest: served_step)
  then show ?thesis by simp
qed

section \<open>The bound\<close>

definition queue_ok :: "kernel \<Rightarrow> bool" where
  "queue_ok k \<longleftrightarrow> queue_total k = of_nat (length (waiting k)) \<and> length (waiting k) \<le> unat (queue_maxlen k)"

lemma queue_ok_served:
  assumes "queue_ok k" and "served k n evs k'" and "length (waiting k') + n = length (waiting k)"
  shows "queue_ok k'"
proof -
  have "queue_total k' = of_nat (length (waiting k')) + of_nat n - of_nat n"
    using assms served_fields(3) [OF assms(2)] by (simp add: queue_ok_def flip: of_nat_add)
  then show ?thesis using assms served_fields(5) [OF assms(2)] by (simp add: queue_ok_def)
qed

lemma filter_lengths: "length (filter (\<lambda>x. \<not> P x) xs) + length (filter P xs) = length xs"
  by (induction xs) auto

lemma verdict_other: "v \<noteq> 1 \<Longrightarrow> v \<noteq> 2 \<Longrightarrow> kaodv_queue_set_verdict v d k = (0, k)"
  by (simp add: kaodv_queue_set_verdict_def)

definition packet_entry :: "sk_buff \<Rightarrow> nat \<Rightarrow> queue_entry" where
  "packet_entry skb okfn = \<lparr>q_skb = skb, q_okfn = okfn, q_tos = sk_data skb ! (sk_nh skb + 1),
     q_daddr = peek32 (sk_nh skb + 16) (sk_data skb), q_saddr = peek32 (sk_nh skb + 12) (sk_data skb)\<rparr>"

lemma enqueue_effect:
  assumes ok: "queue_ok k" and mem: "k_ok k (k_calls k)" and hdr: "sk_nh skb + 20 \<le> length (sk_data skb)"
  shows "kaodv_queue_enqueue_packet skb okfn k =
    (if length (waiting k) < unat (queue_maxlen k)
     then (0, k\<lparr>k_calls := Suc (k_calls k), queue_list := packet_entry skb okfn # queue_list k,
       queue_total := queue_total k + 1\<rparr>)
     else (- ENOSPC, k\<lparr>k_calls := Suc (k_calls k)\<rparr>))"
proof -
  have "length (waiting k) < 2 ^ 32"
    using ok unsigned_less [where ?'a = nat and w = "queue_maxlen k"] by (simp add: queue_ok_def)
  then have "queue_maxlen k \<le> queue_total k \<longleftrightarrow> \<not> length (waiting k) < unat (queue_maxlen k)"
    using ok by (simp add: queue_ok_def word_le_nat_alt unat_small not_less)
  then show ?thesis
    using mem hdr
    by (simp add: kaodv_queue_enqueue_packet_def enqueue_entry_def kcall_def Let_def packet_entry_def not_less)
qed

lemma totals_encapsulate [simp]:
  "queue_total (snd (ip_pkt_encapsulate s d k)) = queue_total k"
  "queue_maxlen (snd (ip_pkt_encapsulate s d k)) = queue_maxlen k"
  by (simp_all add: ip_pkt_encapsulate_def kcall_def Let_def kcheck_def emit_def)

lemma totals_send [simp]:
  "queue_total (snd (send_packet d e n k)) = queue_total k" "queue_maxlen (snd (send_packet d e n k)) = queue_maxlen k"
  by (auto simp: send_packet_def Let_def case_prod_beta emit_def split: option.split)

lemma send_loop_queue_ok:
  assumes "queue_ok k"
  shows "queue_ok (snd (send_loop d 0 k))"
proof -
  have "waiting (snd (send_loop d 0 k)) = filter (\<lambda>e. \<not> dest_cmp d e) (waiting k)
    \<and> queue_total (snd (send_loop d 0 k)) = queue_total k - of_nat (length ([] @ filter (dest_cmp d) (waiting k)))
    \<and> queue_maxlen (snd (send_loop d 0 k)) = queue_maxlen k"
  proof (rule pq.serve [where body = "send_packet d" and fits = "dest_cmp d" and
        P = "\<lambda>es a s. queue_total s = queue_total k - of_nat (length es) \<and> queue_maxlen s = queue_maxlen k"])
    show "send_loop d a s = (case check_delqueue_entry (dest_cmp d) s of (None, s') \<Rightarrow> (a, s')
      | (Some e, s') \<Rightarrow> let r = send_packet d e a s' in send_loop d (fst r) (snd r))" for a s
      by (rule send_loop.simps)
    show "waiting (snd (send_packet d e a s)) = waiting s" for e a s by (rule same_waiting) simp
  qed (auto dest!: take_entry)
  moreover have "queue_total k = of_nat (length (filter (\<lambda>e. \<not> dest_cmp d e) (waiting k))) + of_nat (length (filter (dest_cmp d) (waiting k)))"
    using assms filter_lengths [of "dest_cmp d" "waiting k"] by (simp add: queue_ok_def flip: of_nat_add)
  ultimately show ?thesis using assms by (simp add: queue_ok_def le_trans [OF length_filter_le])
qed

section \<open>Properties\<close>

text \<open>
  The verdict that there is no route. All packets to the destination leave the queue in order
  of arrival and are freed, the first one is answered with an ICMP host unreachable message
  before; the result is their number. Packets to other destinations stay, in order, and nothing
  else changes.
\<close>

theorem verdict_drop:
  "let w = filter (dest_cmp d) (waiting k); (n, k') = kaodv_queue_set_verdict KAODV_QUEUE_DROP d k in
     n = int (length w) \<and> waiting k' = filter (\<lambda>e. \<not> dest_cmp d e) (waiting k)
     \<and> served k (length w)
         ((if w = [] then [] else [Icmp_host_unreach (q_skb (hd w))]) @ map (\<lambda>e. Kfree_skb (q_skb e)) w) k'"
  using drop_loop_effect [of d k]
  by (simp only: kaodv_queue_set_verdict_def case_prod_beta Let_def drop_events_def if_True simp_thms)

text \<open>
  The verdict that there is a route. If the table has it (and it is not one through a gateway)
  every packet to the destination is routed again and handed to its continuation, in order of
  arrival, and the result is their number; if it has gone meanwhile they are freed, silently.
  Packets to other destinations stay, in order, and nothing else changes.
\<close>

theorem verdict_send:
  assumes "\<forall>r. routes k d = Some r \<longrightarrow> x_flags r AND KAODV_RT_GW_ENCAP = 0"
  shows "let w = filter (dest_cmp d) (waiting k); (n, k') = kaodv_queue_set_verdict KAODV_QUEUE_SEND d k in
     waiting k' = filter (\<lambda>e. \<not> dest_cmp d e) (waiting k)
     \<and> (if routes k d = None
        then n = 0 \<and> served k (length w) (map (\<lambda>e. Kfree_skb (q_skb e)) w) k'
        else n = int (length w) \<and> served k (length w)
          (concat (map (\<lambda>e. [Route_me_harder (q_skb e), Okfn (q_okfn e) (q_skb e)]) w)) k')"
  using send_loop_effect [OF assms]
  by (cases "routes k d") (simp_all add: kaodv_queue_set_verdict_def case_prod_beta Let_def send_events_def)

text \<open>Two packets wait, to 40 and to 30; there is a route to 30.\<close>

definition two_waiting :: kernel where
  "two_waiting = two_expl\<lparr>queue_total := 2, queue_list :=
     [\<lparr>q_skb = small_packet, q_okfn = 9, q_tos = 0, q_daddr = 40, q_saddr = 10\<rparr>,
      \<lparr>q_skb = small_packet, q_okfn = 8, q_tos = 0, q_daddr = 30, q_saddr = 10\<rparr>]\<rparr>"

lemma two_waiting_simps:
  "waiting two_waiting = [\<lparr>q_skb = small_packet, q_okfn = 8, q_tos = 0, q_daddr = 30, q_saddr = 10\<rparr>,
     \<lparr>q_skb = small_packet, q_okfn = 9, q_tos = 0, q_daddr = 40, q_saddr = 10\<rparr>]"
  "routes two_waiting 30 = Some \<lparr>x_expires = 200, x_flags = 0, x_daddr = 30, x_nhop = 20, x_ifindex = 1\<rparr>"
  "queue_ok two_waiting" "k_ok two_waiting (k_calls two_waiting)" "k_out two_waiting = []" "queue_maxlen two_waiting = 1024"
  by (simp_all add: two_waiting_def waiting_def two_expl_def routes_def kaodv_expl_get_def expl_check_def queue_ok_def)

theorem verdict_send_witness:
  "let (n, k') = kaodv_queue_set_verdict KAODV_QUEUE_SEND 30 two_waiting in
     n = 1 \<and> k_out k' = [Route_me_harder small_packet, Okfn 8 small_packet] \<and> map q_daddr (waiting k') = [40]"
  using verdict_send [of two_waiting 30] served_fields(2)
  by (auto simp: two_waiting_simps Let_def case_prod_beta dest_cmp_def)

text \<open>
  C13: the queue is bounded, and first in first out. \<^verbatim>\<open>queue_total\<close> counts the waiting packets,
  at most \<^verbatim>\<open>queue_maxlen\<close>, and no operation breaks this. With room a packet goes behind all
  others; without, \<^verbatim>\<open>kaodv_queue_enqueue_packet\<close> reports it and leaves the packet to the caller.
\<close>

theorem queue_bounded:
  assumes "queue_ok k" and "k_ok k (k_calls k)" and "sk_nh skb + 20 \<le> length (sk_data skb)"
  shows "(let (r, k') = kaodv_queue_enqueue_packet skb okfn k in queue_ok k' \<and> k_out k' = k_out k \<and>
      (if length (waiting k) < unat (queue_maxlen k)
       then r = 0 \<and> waiting k' = waiting k @ [packet_entry skb okfn]
       else r = - ENOSPC \<and> waiting k' = waiting k))
    \<and> queue_ok (snd (kaodv_queue_set_verdict verdict d k)) \<and> queue_ok (kaodv_queue_flush k)"
proof -
  have "queue_ok (snd (kaodv_queue_set_verdict verdict d k))"
    using send_loop_queue_ok [OF assms(1), of d] assms(1) drop_loop_effect [of d k] filter_lengths [of "dest_cmp d" "waiting k"]
      queue_ok_served [OF assms(1), of "length (filter (dest_cmp d) (waiting k))" _ "snd (drop_loop d 0 k)"]
    by (auto simp: kaodv_queue_set_verdict_def Let_def)
  moreover have "queue_ok (kaodv_queue_flush k)"
    using flush_effect_queue [of k] queue_ok_served [OF assms(1), of "length (waiting k)"] by auto
  ultimately show ?thesis
    using enqueue_effect [OF assms, of okfn] assms(1)
    by (cases "length (waiting k) < unat (queue_maxlen k)") (simp_all add: queue_ok_def waiting_def)
qed

theorem queue_bounded_witness:
  "let (r, k') = kaodv_queue_enqueue_packet small_packet 7 two_waiting in
     r = 0 \<and> queue_ok k' \<and> waiting k' = waiting two_waiting @ [packet_entry small_packet 7]"
  using queue_bounded [of two_waiting small_packet 7] small_packet_hdr
  by (simp add: two_waiting_simps case_prod_beta)

end
