(* ===== verification/Knetlink.thy ===== *)
theory Knetlink
  imports Kqueue
begin

text \<open>
  \<^verbatim>\<open>kaodv_netlink.c\<close>: the module's end of the netlink socket. What it sends is a broadcast
  of a \<^verbatim>\<open>struct kaodv_rt_msg\<close>; what it receives are the bytes of a socket buffer, a
  \<^verbatim>\<open>struct nlmsghdr\<close> (\<^verbatim>\<open>nlmsg_len\<close> at 0, \<^verbatim>\<open>nlmsg_type\<close> at 4,
  \<^verbatim>\<open>nlmsg_flags\<close> at 6, \<^verbatim>\<open>nlmsg_seq\<close> at 8, \<^verbatim>\<open>nlmsg_pid\<close> at 12) and a
  payload that is taken for the struct the type asks for. The first process that sends a valid
  request becomes the only one the module listens to.
\<close>

section \<open>Sending\<close>

definition kaodv_netlink_broadcast :: "int \<Rightarrow> kaodv_rt_msg \<Rightarrow> kernel \<Rightarrow> kernel" where
  "kaodv_netlink_broadcast type m k =
     (let (mem, k) = kcall k in if mem then emit [Broadcast type m] k else k)"

definition kaodv_netlink_send_rt_msg :: "int \<Rightarrow> u32 \<Rightarrow> u32 \<Rightarrow> kernel \<Rightarrow> kernel" where
  "kaodv_netlink_send_rt_msg type src dest =
     kaodv_netlink_broadcast type (blank_rt_msg\<lparr>m_src := src, m_dest := dest\<rparr>)"

definition kaodv_netlink_send_rt_update_msg :: "u8 \<Rightarrow> u32 \<Rightarrow> u32 \<Rightarrow> int \<Rightarrow> kernel \<Rightarrow> kernel" where
  "kaodv_netlink_send_rt_update_msg type src dest ifindex =
     kaodv_netlink_broadcast KAODVM_ROUTE_UPDATE
       (blank_rt_msg\<lparr>m_type := type, m_src := src, m_dest := dest, m_ifindex := ifindex\<rparr>)"

definition kaodv_netlink_send_rerr_msg :: "u8 \<Rightarrow> u32 \<Rightarrow> u32 \<Rightarrow> int \<Rightarrow> kernel \<Rightarrow> kernel" where
  "kaodv_netlink_send_rerr_msg type src dest ifindex =
     kaodv_netlink_broadcast KAODVM_SEND_RERR
       (blank_rt_msg\<lparr>m_type := type, m_src := src, m_dest := dest, m_ifindex := ifindex\<rparr>)"

section \<open>Receiving\<close>

abbreviation (input) sizeof_rt_msg :: nat where "sizeof_rt_msg \<equiv> 28"
abbreviation (input) sizeof_conf_msg :: nat where "sizeof_conf_msg \<equiv> 4"
abbreviation (input) sizeof_nlh :: nat where "sizeof_nlh \<equiv> 16"

text \<open>The layout of \<^verbatim>\<open>struct kaodv_rt_msg\<close> on the 32-bit target.\<close>

definition rt_msg_of :: "buffer \<Rightarrow> kaodv_rt_msg" where
  "rt_msg_of b = \<lparr>m_type = b ! 0, m_src = peek32 4 b, m_dest = peek32 8 b, m_nhop = peek32 12 b,
     m_flags = b ! 16, m_ifindex = sint (peek32 20 b), m_time = sint (peek32 24 b)\<rparr>"

definition add_or_update :: "kaodv_rt_msg \<Rightarrow> kernel \<Rightarrow> int \<times> kernel" where
  "add_or_update m k =
     (if kaodv_expl_get (m_dest m) k \<noteq> None
      then kaodv_expl_update (m_dest m) (m_nhop m) (of_int (m_time m)) (ucast (m_flags m)) (m_ifindex m) k
      else kaodv_expl_add (m_dest m) (m_nhop m) (of_int (m_time m)) (ucast (m_flags m)) (m_ifindex m) k)"

definition kaodv_netlink_receive_peer :: "u8 \<Rightarrow> buffer \<Rightarrow> kernel \<Rightarrow> int \<times> kernel" where
  "kaodv_netlink_receive_peer type msg k =
     (if uint type = KAODVM_ADDROUTE then
        if length msg < sizeof_rt_msg then (- EINVAL, k)
        else let m = rt_msg_of msg; (ret, k) = add_or_update m k
             in (ret, snd (kaodv_queue_set_verdict KAODV_QUEUE_SEND (m_dest m) k))
      else if uint type = KAODVM_DELROUTE then
        if length msg < sizeof_rt_msg then (- EINVAL, k)
        else let m = rt_msg_of msg; k = snd (kaodv_expl_del (m_dest m) k)
             in (0, snd (kaodv_queue_set_verdict KAODV_QUEUE_DROP (m_dest m) k))
      else if uint type = KAODVM_NOROUTE_FOUND then
        if length msg < sizeof_rt_msg then (- EINVAL, k)
        else (0, snd (kaodv_queue_set_verdict KAODV_QUEUE_DROP (m_dest (rt_msg_of msg)) k))
      else if uint type = KAODVM_CONFIG then
        if length msg < sizeof_conf_msg then (- EINVAL, k)
        else (0, k\<lparr>k_active_route_timeout := sint (peek32 0 msg)\<rparr>)
      else (- EINVAL, k))"

text \<open>
  \<^verbatim>\<open>kaodv_netlink_rcv_skb\<close>. The comparison of \<^verbatim>\<open>nlmsglen\<close> with a
  \<^verbatim>\<open>sizeof\<close> is unsigned, the one with \<^verbatim>\<open>skblen\<close> is signed.
\<close>

abbreviation (input) NLM_F_MULTI :: u16 where "NLM_F_MULTI \<equiv> 2"
abbreviation (input) MSG_TRUNC :: u16 where "MSG_TRUNC \<equiv> 0x20"

definition kaodv_netlink_rcv_skb :: "buffer \<Rightarrow> kernel \<Rightarrow> kernel" where
  "kaodv_netlink_rcv_skb b k =
     (let skblen = int (length b); nlmsglen = peek32 0 b; pid = sint (peek32 12 b); flags = peek16 6 b in
      if skblen < int sizeof_nlh then k
      else if nlmsglen < 16 \<or> skblen < sint nlmsglen then k
      else if pid \<le> 0 \<or> flags AND 1 = 0 \<or> flags AND NLM_F_MULTI \<noteq> 0 then emit [Nl_ack (- EINVAL)] k
      else if flags AND MSG_TRUNC \<noteq> 0 then emit [Nl_ack (- ECOMM)] k
      else if peer_pid k \<noteq> 0 \<and> peer_pid k \<noteq> pid then emit [Nl_ack (- EBUSY)] k
      else
        let k = k\<lparr>peer_pid := pid\<rparr>;
            (status, k) = kaodv_netlink_receive_peer (ucast (peek16 4 b)) (drop sizeof_nlh b) k
        in if status < 0 then emit [Nl_ack status] k
           else if flags AND 4 \<noteq> 0 then emit [Nl_ack 0] k else k)"

definition kaodv_netlink_rcv_nl_event :: "bool \<Rightarrow> bool \<Rightarrow> int \<Rightarrow> kernel \<Rightarrow> kernel" where
  "kaodv_netlink_rcv_nl_event urelease aodv_protocol portid k =
     (if urelease \<and> aodv_protocol \<and> portid \<noteq> 0 \<and> portid = peer_pid k
      then kaodv_queue_flush (kaodv_expl_flush (k\<lparr>peer_pid := 0\<rparr>)) else k)"

definition kaodv_netlink_init :: "kernel \<Rightarrow> int \<times> kernel" where
  "kaodv_netlink_init k =
     (let (made, k) = kcall (k\<lparr>held := Nl_notifier # held k\<rparr>) in
      if made then (0, k\<lparr>held := Nl_socket # held k\<rparr>)
      else (- 1, k\<lparr>held := remove1 Nl_notifier (held k)\<rparr>))"

definition kaodv_netlink_finish :: "kernel \<Rightarrow> kernel" where
  "kaodv_netlink_finish k = k\<lparr>held := remove1 Nl_notifier (remove1 Nl_socket (held k))\<rparr>"

section \<open>Encoding\<close>

text \<open>The bytes of a route message and of the header before it, as the daemon has them in memory.\<close>

definition rt_msg_bytes :: "kaodv_rt_msg \<Rightarrow> buffer" where
  "rt_msg_bytes m = [m_type m, 0, 0, 0] @ le32 (m_src m) @ le32 (m_dest m) @ le32 (m_nhop m)
     @ [m_flags m, 0, 0, 0] @ le32 (of_int (m_ifindex m)) @ le32 (of_int (m_time m))"

definition nl_header_bytes :: "u32 \<Rightarrow> u16 \<Rightarrow> u16 \<Rightarrow> u32 \<Rightarrow> u32 \<Rightarrow> buffer" where
  "nl_header_bytes len type flags seq pid = le32 len @ le16 type @ le16 flags @ le32 seq @ le32 pid"

lemma peek32_append: "peek32 i (xs @ le32 w @ ys) = w" if "i = length xs"
proof -
  have "peek32 i (xs @ le32 w @ ys) = peek32 i (poke i (le32 w) (xs @ le32 w @ ys))"
    using that by (simp add: poke_def)
  then show ?thesis using that by (simp add: peek32_le32)
qed

lemma peek16_append: "peek16 i (xs @ le16 w @ ys) = w" if "i = length xs"
proof -
  have "peek16 i (xs @ le16 w @ ys) = peek16 i (poke i (le16 w) (xs @ le16 w @ ys))"
    using that by (simp add: poke_def)
  then show ?thesis using that by (simp add: peek16_le16)
qed

lemma rt_msg_of_bytes:
  assumes "- (2 ^ 31) \<le> m_ifindex m \<and> m_ifindex m < 2 ^ 31" and "- (2 ^ 31) \<le> m_time m \<and> m_time m < 2 ^ 31"
  shows "rt_msg_of (rt_msg_bytes m @ rest) = m"
proof -
  let ?b = "rt_msg_bytes m @ rest"
  have "peek32 4 ?b = m_src m"
    using peek32_append [of 4 "[m_type m, 0, 0, 0]"] by (simp add: rt_msg_bytes_def)
  moreover have "peek32 8 ?b = m_dest m"
    using peek32_append [of 8 "[m_type m, 0, 0, 0] @ le32 (m_src m)"] by (simp add: rt_msg_bytes_def)
  moreover have "peek32 12 ?b = m_nhop m"
    using peek32_append [of 12 "[m_type m, 0, 0, 0] @ le32 (m_src m) @ le32 (m_dest m)"] by (simp add: rt_msg_bytes_def)
  moreover have "peek32 20 ?b = of_int (m_ifindex m)"
    using peek32_append [of 20 "[m_type m, 0, 0, 0] @ le32 (m_src m) @ le32 (m_dest m) @ le32 (m_nhop m) @ [m_flags m, 0, 0, 0]"]
    by (simp add: rt_msg_bytes_def)
  moreover have "peek32 24 ?b = of_int (m_time m)"
    using peek32_append [of 24 "[m_type m, 0, 0, 0] @ le32 (m_src m) @ le32 (m_dest m) @ le32 (m_nhop m) @ [m_flags m, 0, 0, 0]
      @ le32 (of_int (m_ifindex m))"] by (simp add: rt_msg_bytes_def)
  moreover have "?b ! 0 = m_type m" "?b ! 16 = m_flags m"
    by (simp_all add: rt_msg_bytes_def le32_def)
  moreover have "sint (of_int i :: u32) = i" if "- (2 ^ 31) \<le> i \<and> i < 2 ^ 31" for i
    using that by (simp add: sint_sbintrunc' signed_take_bit_int_eq_self)
  ultimately show ?thesis using assms by (cases m) (simp add: rt_msg_of_def)
qed

lemma length_rt_msg_bytes [simp]: "length (rt_msg_bytes m) = 28"
  by (simp add: rt_msg_bytes_def)

lemma length_nl_header [simp]: "length (nl_header_bytes len type flags seq pid) = 16"
  by (simp add: nl_header_bytes_def)

lemma nl_header_fields:
  "peek32 0 (nl_header_bytes len type flags seq pid @ rest) = len"
  "peek16 4 (nl_header_bytes len type flags seq pid @ rest) = type"
  "peek16 6 (nl_header_bytes len type flags seq pid @ rest) = flags"
  "peek32 12 (nl_header_bytes len type flags seq pid @ rest) = pid"
  using peek32_append [of 0 "[]" len] peek16_append [of 4 "le32 len" type]
    peek16_append [of 6 "le32 len @ le16 type" flags]
    peek32_append [of 12 "le32 len @ le16 type @ le16 flags @ le32 seq" pid]
  by (simp_all add: nl_header_bytes_def)

section \<open>What a message does\<close>

text \<open>The route table operations leave the queue and the trace alone.\<close>

lemma add_or_update_frame:
  "waiting (snd (add_or_update m k)) = waiting k" "k_out (snd (add_or_update m k)) = k_out k"
  "peer_pid (snd (add_or_update m k)) = peer_pid k"
  by (auto simp: add_or_update_def kaodv_expl_add_def kaodv_expl_update_def expl_add_entry_def kcall_def Let_def
      waiting_def split: option.split)

lemma add_or_update_effect:
  assumes "expl_room k" and "k_ok k (k_calls k)"
  shows "0 \<le> fst (add_or_update m k) \<and> expl_ok (snd (add_or_update m k)) \<and>
    routes (snd (add_or_update m k)) = (routes k)(m_dest m \<mapsto>
      stamp (m_dest m) (m_nhop m) (of_int (m_time m)) (ucast (m_flags m)) (m_ifindex m) k)"
proof (cases "routes k (m_dest m)")
  case None
  then show ?thesis
    using add_effect [OF _ _ None assms(2)] assms(1)
    by (simp add: add_or_update_def expl_room_def routes_def case_prod_beta)
next
  case (Some e)
  then show ?thesis
    using update_effect [OF _ _ Some] assms(1)
    by (simp add: add_or_update_def expl_room_def routes_def case_prod_beta)
qed

lemma receive_addroute:
  assumes "expl_room k" and "k_ok k (k_calls k)" and "length msg \<ge> sizeof_rt_msg" and "m = rt_msg_of msg"
    and "(ucast (m_flags m) :: u16) AND KAODV_RT_GW_ENCAP = 0"
  shows "let (r, k') = kaodv_netlink_receive_peer 101 msg k in
    0 \<le> r \<and> peer_pid k' = peer_pid k
    \<and> routes k' = (routes k)(m_dest m \<mapsto> stamp (m_dest m) (m_nhop m) (of_int (m_time m)) (ucast (m_flags m)) (m_ifindex m) k)
    \<and> waiting k' = filter (\<lambda>e. \<not> dest_cmp (m_dest m) e) (waiting k)
    \<and> k_out k' = k_out k @ send_events (filter (dest_cmp (m_dest m)) (waiting k))"
proof -
  let ?k = "snd (add_or_update m k)"
  let ?k' = "snd (kaodv_queue_set_verdict KAODV_QUEUE_SEND (m_dest m) ?k)"
  have r: "kaodv_netlink_receive_peer 101 msg k = (fst (add_or_update m k), ?k')"
    using assms(3,4) by (simp add: kaodv_netlink_receive_peer_def Let_def case_prod_beta)
  note add = add_or_update_effect [OF assms(1,2), of m] and fr = add_or_update_frame [of m k]
  have "\<forall>r. routes ?k (m_dest m) = Some r \<longrightarrow> x_flags r AND KAODV_RT_GW_ENCAP = 0"
    using add assms(5) by (simp add: stamp_def)
  from send_loop_effect [OF this]
  have s: "waiting ?k' = filter (\<lambda>e. \<not> dest_cmp (m_dest m) e) (waiting k)"
    "served ?k (length (filter (dest_cmp (m_dest m)) (waiting k))) (send_events (filter (dest_cmp (m_dest m)) (waiting k))) ?k'"
    using add by (simp_all add: kaodv_queue_set_verdict_def Let_def fr)
  have "peer_pid ?k' = peer_pid ?k" using s(2) by (auto simp: served_def)
  then show ?thesis using r add s served_fields [OF s(2)] by (simp add: fr)
qed

lemma receive_noroute:
  assumes "length msg \<ge> sizeof_rt_msg"
  shows "let (r, k') = kaodv_netlink_receive_peer 106 msg k; d = m_dest (rt_msg_of msg) in
    r = 0 \<and> waiting k' = filter (\<lambda>e. \<not> dest_cmp d e) (waiting k)
    \<and> served k (length (filter (dest_cmp d) (waiting k))) (drop_events (filter (dest_cmp d) (waiting k))) k'"
  using assms drop_loop_effect [of "m_dest (rt_msg_of msg)" k]
  by (simp add: kaodv_netlink_receive_peer_def kaodv_queue_set_verdict_def Let_def)

section \<open>Properties\<close>

text \<open>
  C30: one peer. While the module is bound to a process, a message that names another one has no
  effect but at most one negative acknowledgement: no route, packet or parameter changes. When
  the bound process closes its socket, all routes are gone, no packet waits, and the module can
  be bound again.
\<close>

theorem netlink_one_peer:
  assumes "peer_pid k \<noteq> 0"
  shows "(sint (peek32 12 b) \<noteq> peer_pid k \<longrightarrow>
      (\<exists>acks. kaodv_netlink_rcv_skb b k = emit acks k \<and> acks \<in> {[], [Nl_ack (- EINVAL)], [Nl_ack (- ECOMM)], [Nl_ack (- EBUSY)]}))
    \<and> (let k' = kaodv_netlink_rcv_nl_event True True (peer_pid k) k in
        peer_pid k' = 0 \<and> routes k' = Map.empty \<and> waiting k' = []
        \<and> k_out k' = k_out k @ map (\<lambda>e. Kfree_skb (q_skb e)) (waiting k))"
proof
  define A where "A = {[], [Nl_ack (- EINVAL)], [Nl_ack (- ECOMM)], [Nl_ack (- EBUSY)]}"
  have none: "\<exists>acks. k = emit acks k \<and> acks \<in> A" by (auto simp: emit_def A_def intro!: exI [of _ "[]"])
  have one: "\<exists>acks. emit [Nl_ack e] k = emit acks k \<and> acks \<in> A" if "[Nl_ack e] \<in> A" for e using that by blast
  have "[Nl_ack (- EINVAL)] \<in> A" "[Nl_ack (- ECOMM)] \<in> A" "[Nl_ack (- EBUSY)] \<in> A" by (simp_all add: A_def)
  note acks = none one [OF this(1)] one [OF this(2)] one [OF this(3)]
  show "sint (peek32 12 b) \<noteq> peer_pid k \<longrightarrow>
      (\<exists>acks. kaodv_netlink_rcv_skb b k = emit acks k \<and> acks \<in> {[], [Nl_ack (- EINVAL)], [Nl_ack (- ECOMM)], [Nl_ack (- EBUSY)]})"
    using assms acks unfolding A_def [symmetric] kaodv_netlink_rcv_skb_def Let_def by (simp split: if_split)
  let ?k = "kaodv_expl_flush (k\<lparr>peer_pid := 0\<rparr>)"
  have f: "waiting ?k = waiting k" "k_out ?k = k_out k" "peer_pid ?k = 0" "routes ?k = Map.empty"
    by (auto simp: flush_effect waiting_def routes_def kaodv_expl_get_def expl_check_def)
  note q = flush_effect_queue [of ?k]
  then have "peer_pid (kaodv_queue_flush ?k) = 0" using f by (auto simp: served_def)
  then show "let k' = kaodv_netlink_rcv_nl_event True True (peer_pid k) k in
      peer_pid k' = 0 \<and> routes k' = Map.empty \<and> waiting k' = []
      \<and> k_out k' = k_out k @ map (\<lambda>e. Kfree_skb (q_skb e)) (waiting k)"
    using assms q served_fields [OF conjunct2 [OF q]] f
    by (simp add: kaodv_netlink_rcv_nl_event_def)
qed

theorem netlink_one_peer_witness:
  "(\<exists>acks. kaodv_netlink_rcv_skb (nl_header_bytes 16 101 1 0 4321) (two_waiting\<lparr>peer_pid := 77\<rparr>)
      = emit acks (two_waiting\<lparr>peer_pid := 77\<rparr>))
   \<and> waiting (kaodv_netlink_rcv_nl_event True True 77 (two_waiting\<lparr>peer_pid := 77\<rparr>)) = []"
proof -
  have "sint (peek32 12 (nl_header_bytes 16 101 1 0 4321)) = 4321"
    using nl_header_fields(4) [of 16 101 1 0 4321 "[]"] by simp
  then show ?thesis
    using netlink_one_peer [of "two_waiting\<lparr>peer_pid := 77\<rparr>" "nl_header_bytes 16 101 1 0 4321"]
    by (auto simp: Let_def)
qed

end
