(* ===== verification/Kmod.thy ===== *)
theory Kmod
  imports Knetlink
begin

text \<open>
  \<^verbatim>\<open>kaodv_mod.c\<close> and \<^verbatim>\<open>kaodv_mod.h\<close>: the interfaces the module works
  on, the packet hook, and loading and unloading the module. The hook decides on the bytes of the
  packet and the route table; the verdict and the trace say what becomes of the packet.
\<close>

section \<open>Interfaces\<close>

text \<open>The addresses keep what \<^verbatim>\<open>kmalloc\<close> left there if the device has none of its name.\<close>

definition if_info_add :: "net_device \<Rightarrow> kernel \<Rightarrow> int \<times> kernel" where
  "if_info_add dev k =
     (let n = k_calls k; (mem, k) = kcall k in
      if \<not> mem then (- 1, k)
      else
        let k = k\<lparr>dev_refs := (dev_refs k)(dv_ifindex dev := dev_refs k (dv_ifindex dev) + 1)\<rparr>;
            ifa = (case dv_addrs dev of None \<Rightarrow> None | Some as \<Rightarrow> find (\<lambda>(label, _, _). label = dv_name dev) as);
            (addr, bc) = (case ifa of None \<Rightarrow> (k_junk k (2 * n), k_junk k (2 * n + 1)) | Some (_, a, b) \<Rightarrow> (a, b))
        in (0, k\<lparr>ifihead := \<lparr>if_addr = addr, bc_addr = bc, if_dev = dev\<rparr> # ifihead k\<rparr>))"

definition if_info_purge :: "kernel \<Rightarrow> kernel" where
  "if_info_purge k = fold (\<lambda>ifi k. k\<lparr>ifihead := remove1 ifi (ifihead k),
       dev_refs := (dev_refs k)(dv_ifindex (if_dev ifi) := dev_refs k (dv_ifindex (if_dev ifi)) - 1)\<rparr>) (ifihead k) k"

definition if_info_from_ifindex :: "int \<Rightarrow> kernel \<Rightarrow> (u32 \<times> u32) option" where
  "if_info_from_ifindex ifindex k =
     map_option (\<lambda>ifi. (if_addr ifi, bc_addr ifi)) (find (\<lambda>ifi. dv_ifindex (if_dev ifi) = ifindex) (ifihead k))"

section \<open>The packet hook\<close>

datatype hooknum = Pre_routing | Local_out | Post_routing
datatype verdict = NF_ACCEPT | NF_DROP | NF_STOLEN

abbreviation (input) PKT_INBOUND :: u8 where "PKT_INBOUND \<equiv> 1"
abbreviation (input) PKT_OUTBOUND :: u8 where "PKT_OUTBOUND \<equiv> 2"
abbreviation (input) AODV_PORT :: u16 where "AODV_PORT \<equiv> 654"
abbreviation (input) INADDR_BROADCAST :: u32 where "INADDR_BROADCAST \<equiv> 0xffffffff"

definition IN_MULTICAST :: "u32 \<Rightarrow> bool" where
  "IN_MULTICAST a \<longleftrightarrow> a AND 0xf0000000 = 0xe0000000"

definition kaodv_update_route_timeouts :: "hooknum \<Rightarrow> int \<Rightarrow> u32 \<Rightarrow> u32 \<Rightarrow> kernel \<Rightarrow> kernel" where
  "kaodv_update_route_timeouts hook ifindex saddr daddr k = (case if_info_from_ifindex ifindex k of
       None \<Rightarrow> k
     | Some (_, bcaddr) \<Rightarrow>
         let k = (if hook = Pre_routing then kaodv_netlink_send_rt_update_msg PKT_INBOUND saddr daddr ifindex k
                  else if daddr \<noteq> INADDR_BROADCAST \<and> daddr \<noteq> bcaddr
                  then kaodv_netlink_send_rt_update_msg PKT_OUTBOUND saddr daddr ifindex k else k);
             t = of_int (k_active_route_timeout k)
         in touch kaodv_expl_get kaodv_expl_update saddr t ifindex
              (touch kaodv_expl_get kaodv_expl_update daddr t ifindex k))"

definition hook_pre_routing :: "u32 \<Rightarrow> sk_buff \<Rightarrow> u32 \<Rightarrow> u32 \<Rightarrow> int \<Rightarrow> nat \<Rightarrow> kernel \<Rightarrow> verdict \<times> kernel" where
  "hook_pre_routing ifaddr skb saddr daddr ifindex okfn k =
     (let k = kaodv_update_route_timeouts Pre_routing ifindex saddr daddr k in
      if saddr = ifaddr \<or> daddr = ifaddr then (NF_ACCEPT, k)
      else case kaodv_expl_get daddr k of
        None \<Rightarrow> (NF_DROP, kaodv_netlink_send_rerr_msg PKT_INBOUND saddr daddr ifindex k)
      | Some e \<Rightarrow>
          if x_flags e AND KAODV_RT_REPAIR \<noteq> 0
          then (NF_STOLEN, snd (kaodv_queue_enqueue_packet skb okfn (kaodv_netlink_send_rt_msg KAODVM_REPAIR saddr daddr k)))
          else (NF_ACCEPT, k))"

definition request_route :: "sk_buff \<Rightarrow> u32 \<Rightarrow> nat \<Rightarrow> kernel \<Rightarrow> verdict \<times> kernel" where
  "request_route skb daddr okfn k =
     (let k = (if \<not> kaodv_queue_check daddr k then kaodv_netlink_send_rt_msg KAODVM_ROUTE_REQ 0 daddr k else k)
      in (NF_STOLEN, snd (kaodv_queue_enqueue_packet skb okfn k)))"

text \<open>After the encapsulation the verdict is on the old packet, which has been freed.\<close>

definition hook_local_out :: "sk_buff \<Rightarrow> u32 \<Rightarrow> u32 \<Rightarrow> int \<Rightarrow> nat \<Rightarrow> kernel \<Rightarrow> verdict \<times> kernel" where
  "hook_local_out skb saddr daddr ifindex okfn k = (case kaodv_expl_get daddr k of
       None \<Rightarrow> request_route skb daddr okfn k
     | Some e \<Rightarrow>
         if x_flags e AND KAODV_RT_REPAIR \<noteq> 0 then request_route skb daddr okfn k
         else if x_flags e AND KAODV_RT_GW_ENCAP \<noteq> 0 then
           let k = kaodv_update_route_timeouts Local_out ifindex saddr daddr k;
               (nskb, k) = ip_pkt_encapsulate skb (x_nhop e) k
           in (case nskb of None \<Rightarrow> (NF_STOLEN, k) | Some s \<Rightarrow> (NF_ACCEPT, emit [Route_me_harder s] k))
         else (NF_ACCEPT, k))"

text \<open>UDP from or to the AODV port; the ports are the first four bytes behind the IP header.\<close>

definition aodv_packet :: "sk_buff \<Rightarrow> bool" where
  "aodv_packet skb \<longleftrightarrow> (let d = sk_data skb; udp = sk_nh skb + hdr_bytes (sk_nh skb) d in
     d ! (sk_nh skb + 9) = 17 \<and> (peek_be16 (udp + 2) d = AODV_PORT \<or> peek_be16 udp d = AODV_PORT))"

definition kaodv_hook :: "hooknum \<Rightarrow> sk_buff \<Rightarrow> int option \<Rightarrow> int option \<Rightarrow> nat \<Rightarrow> kernel \<Rightarrow> verdict \<times> kernel" where
  "kaodv_hook hook skb dev_in dev_out okfn k =
     (let d = sk_data skb; nh = sk_nh skb; saddr = peek32 (nh + 12) d; daddr = peek32 (nh + 16) d;
          k = kcheck (nh + 20 \<le> length d \<and> (d ! (nh + 9) = 17 \<longrightarrow> nh + hdr_bytes nh d + 4 \<le> length d)) k in
      if aodv_packet skb then
        (NF_ACCEPT, case (hook, dev_in) of
           (Pre_routing, Some i) \<Rightarrow> kaodv_update_route_timeouts hook i saddr daddr k
         | _ \<Rightarrow> k)
      else case (if hook = Pre_routing then dev_in else dev_out) of
        None \<Rightarrow> (NF_ACCEPT, kcheck False k)
      | Some i \<Rightarrow> (case if_info_from_ifindex i k of
          None \<Rightarrow> (NF_ACCEPT, k)
        | Some (ifaddr, bcaddr) \<Rightarrow>
            if daddr = INADDR_BROADCAST \<or> IN_MULTICAST (ntohl daddr) \<or> daddr = bcaddr then (NF_ACCEPT, k)
            else (case hook of
                Pre_routing \<Rightarrow> hook_pre_routing ifaddr skb saddr daddr i okfn k
              | Local_out \<Rightarrow> hook_local_out skb saddr daddr i okfn k
              | Post_routing \<Rightarrow> (NF_ACCEPT, kaodv_update_route_timeouts hook i saddr daddr k))))"

section \<open>Loading and unloading\<close>

definition nf_register_hook :: "nat \<Rightarrow> kernel \<Rightarrow> int \<times> kernel" where
  "nf_register_hook n k =
     (let (done, k) = kcall k in if done then (0, k\<lparr>held := Hook n # held k\<rparr>) else (- 1, k))"

definition nf_unregister_hook :: "nat \<Rightarrow> kernel \<Rightarrow> kernel" where
  "nf_unregister_hook n k = k\<lparr>held := remove1 (Hook n) (held k)\<rparr>"

definition ifnames :: "string list" where
  "ifnames = [''br-lan'']"

text \<open>\<open>devices\<close> is what \<^verbatim>\<open>dev_get_by_name\<close> knows; it takes a reference, which is given back.\<close>

definition add_interface :: "(string \<Rightarrow> net_device option) \<Rightarrow> string \<Rightarrow> kernel \<Rightarrow> kernel" where
  "add_interface devices name k = (case devices name of
       None \<Rightarrow> k
     | Some dev \<Rightarrow>
         let k = k\<lparr>dev_refs := (dev_refs k)(dv_ifindex dev := dev_refs k (dv_ifindex dev) + 1)\<rparr>;
             k = snd (if_info_add dev k)
         in k\<lparr>dev_refs := (dev_refs k)(dv_ifindex dev := dev_refs k (dv_ifindex dev) - 1)\<rparr>)"

definition kaodv_init :: "(string \<Rightarrow> net_device option) \<Rightarrow> kernel \<Rightarrow> int \<times> kernel" where
  "kaodv_init devices k =
     (let k = kaodv_expl_init k; (ret, k) = kaodv_queue_init k in
      if ret < 0 then (ret, k)
      else let (ret, k) = kaodv_netlink_init k in
      if ret < 0 then (ret, kaodv_queue_finish k)
      else let (ret, k) = nf_register_hook 0 k in
      if ret < 0 then (ret, kaodv_queue_finish (kaodv_netlink_finish k))
      else let (ret, k) = nf_register_hook 1 k in
      if ret < 0 then (ret, kaodv_queue_finish (kaodv_netlink_finish (nf_unregister_hook 0 k)))
      else let (ret, k) = nf_register_hook 2 k in
      if ret < 0
      then (ret, kaodv_queue_finish (kaodv_netlink_finish (nf_unregister_hook 0 (nf_unregister_hook 1 k))))
      else (ret, fold (add_interface devices) ifnames k))"

definition kaodv_exit :: "kernel \<Rightarrow> kernel" where
  "kaodv_exit k =
     (let k = if_info_purge k; k = fold nf_unregister_hook [0, 1, 2] k
      in kaodv_netlink_finish (kaodv_expl_finish (kaodv_queue_finish k)))"

section \<open>What the steps of the hook change\<close>

text \<open>\<open>steps k evs k'\<close>: only routes, the trace (by \<open>evs\<close>) and the count of fallible calls differ.\<close>

definition steps :: "kernel \<Rightarrow> kevent list \<Rightarrow> kernel \<Rightarrow> bool" where
  "steps k evs k' \<longleftrightarrow> (\<exists>es n. k' = k\<lparr>expl_list := es, k_calls := n, k_out := k_out k @ evs\<rparr>)"

lemma steps_refl: "steps k [] k"
  unfolding steps_def by (rule exI [of _ "expl_list k"], rule exI [of _ "k_calls k"]) simp

lemma steps_trans: "steps k evs k' \<Longrightarrow> steps k' evs' k'' \<Longrightarrow> steps k (evs @ evs') k''"
  unfolding steps_def by (elim exE, hypsubst) (rule exI, rule exI, simp)

lemma steps_fields:
  assumes "steps k evs k'"
  shows "k_out k' = k_out k @ evs" "waiting k' = waiting k" "k_ok k' = k_ok k" "queue_maxlen k' = queue_maxlen k"
    "queue_total k' = queue_total k" "queue_ok k' = queue_ok k" "k_active_route_timeout k' = k_active_route_timeout k"
    "jiffies k' = jiffies k" "ip_send_check k' = ip_send_check k" "ip_select_ident k' = ip_select_ident k"
    "if_info_from_ifindex i k' = if_info_from_ifindex i k" "k_fault k' = k_fault k"
  using assms by (auto simp: steps_def waiting_def queue_ok_def if_info_from_ifindex_def)

lemma steps_broadcast:
  "(\<And>n. k_ok k n) \<Longrightarrow> steps k [Broadcast ty m] (kaodv_netlink_broadcast ty m k)"
  unfolding steps_def kaodv_netlink_broadcast_def kcall_def emit_def
  by (rule exI [of _ "expl_list k"], rule exI [of _ "Suc (k_calls k)"]) simp

lemma broadcast_routes: "routes (kaodv_netlink_broadcast ty m k) = routes k"
  "expl_room (kaodv_netlink_broadcast ty m k) = expl_room k" "jiffies (kaodv_netlink_broadcast ty m k) = jiffies k"
  by (auto simp: kaodv_netlink_broadcast_def kcall_def emit_def expl_room_def expl_ok_def intro: routes_cong)

lemma steps_update: "steps k [] (snd (kaodv_expl_update d nh t fl i k))"
proof -
  have "steps k [] (k\<lparr>expl_list := es\<rparr>)" for es
    unfolding steps_def by (rule exI [of _ es], rule exI [of _ "k_calls k"]) simp
  then show ?thesis
    by (auto simp: kaodv_expl_update_def expl_add_entry_def steps_refl split: option.split)
qed

lemma steps_touch: "steps k [] (touch kaodv_expl_get kaodv_expl_update d t i k)"
  using steps_trans [OF steps_update steps_update, of k]
  by (auto simp: touch_def Let_def steps_refl steps_update split: option.split)

definition prolonged :: "int \<Rightarrow> u32 \<Rightarrow> u32 \<Rightarrow> kernel \<Rightarrow> u32 \<Rightarrow> expl_entry option" where
  "prolonged i saddr daddr k =
     refreshed (\<lambda>d nh fl. stamp d nh (of_int (k_active_route_timeout k)) fl i k)
       (with_hop (routes k) daddr \<union> with_hop (routes k) saddr) (routes k)"

lemma touches_prolong:
  assumes "expl_room k"
  shows "routes (touch kaodv_expl_get kaodv_expl_update saddr (of_int (k_active_route_timeout k)) i
      (touch kaodv_expl_get kaodv_expl_update daddr (of_int (k_active_route_timeout k)) i k)) = prolonged i saddr daddr k
    \<and> expl_room (touch kaodv_expl_get kaodv_expl_update saddr (of_int (k_active_route_timeout k)) i
      (touch kaodv_expl_get kaodv_expl_update daddr (of_int (k_active_route_timeout k)) i k))"
proof -
  let ?t = "of_int (k_active_route_timeout k)"
  let ?k = "touch kaodv_expl_get kaodv_expl_update daddr ?t i k"
  note 1 = rm.touch_refreshes [OF assms, of daddr ?t i]
  note 2 = rm.touch_refreshes [of ?k saddr ?t i]
  show ?thesis
    using 1 2 by (simp add: prolonged_def rm.refreshed_twice rm.with_hop_refreshed Un_commute)
qed

text \<open>What \<^verbatim>\<open>kaodv_update_route_timeouts\<close> tells the daemon.\<close>

definition update_events :: "hooknum \<Rightarrow> int \<Rightarrow> u32 \<Rightarrow> u32 \<Rightarrow> u32 \<Rightarrow> kevent list" where
  "update_events hook i bc saddr daddr =
     (let m = (\<lambda>dir. blank_rt_msg\<lparr>m_type := dir, m_src := saddr, m_dest := daddr, m_ifindex := i\<rparr>) in
      if hook = Pre_routing then [Broadcast KAODVM_ROUTE_UPDATE (m PKT_INBOUND)]
      else if daddr \<noteq> INADDR_BROADCAST \<and> daddr \<noteq> bc then [Broadcast KAODVM_ROUTE_UPDATE (m PKT_OUTBOUND)]
      else [])"

lemma update_timeouts_effect:
  assumes "expl_room k" and "if_info_from_ifindex i k = Some (ifa, bc)" and ok: "\<And>n. k_ok k n"
  shows "let k' = kaodv_update_route_timeouts hook i saddr daddr k in
    routes k' = prolonged i saddr daddr k \<and> expl_room k' \<and> steps k (update_events hook i bc saddr daddr) k'"
proof -
  define k1 where "k1 = (if hook = Pre_routing then kaodv_netlink_send_rt_update_msg PKT_INBOUND saddr daddr i k
    else if daddr \<noteq> INADDR_BROADCAST \<and> daddr \<noteq> bc then kaodv_netlink_send_rt_update_msg PKT_OUTBOUND saddr daddr i k else k)"
  have s1: "steps k (update_events hook i bc saddr daddr) k1"
    using ok by (simp add: k1_def update_events_def Let_def kaodv_netlink_send_rt_update_msg_def steps_broadcast steps_refl)
  have r1: "routes k1 = routes k" "expl_room k1" "jiffies k1 = jiffies k"
    using assms(1) by (simp_all add: k1_def kaodv_netlink_send_rt_update_msg_def broadcast_routes)
  have p: "prolonged i saddr daddr k1 = prolonged i saddr daddr k"
    by (simp add: prolonged_def r1 steps_fields [OF s1] stamp_def expl_deadline_def)
  let ?t = "of_int (k_active_route_timeout k1)"
  have "kaodv_update_route_timeouts hook i saddr daddr k = touch kaodv_expl_get kaodv_expl_update saddr ?t i
      (touch kaodv_expl_get kaodv_expl_update daddr ?t i k1)"
    using assms(2) by (simp add: kaodv_update_route_timeouts_def k1_def [symmetric] Let_def)
  moreover have "steps k (update_events hook i bc saddr daddr) (touch kaodv_expl_get kaodv_expl_update saddr ?t i
      (touch kaodv_expl_get kaodv_expl_update daddr ?t i k1))"
    using steps_trans [OF steps_trans [OF s1 steps_touch] steps_touch] by simp
  ultimately show ?thesis using touches_prolong [OF r1(2)] by (simp add: p)
qed

text \<open>Packets the hook routes: not the protocol's own, whole headers, and to one host.\<close>

definition packet_src :: "sk_buff \<Rightarrow> u32" where
  "packet_src skb = peek32 (sk_nh skb + 12) (sk_data skb)"

definition packet_dst :: "sk_buff \<Rightarrow> u32" where
  "packet_dst skb = peek32 (sk_nh skb + 16) (sk_data skb)"

definition routed_packet :: "sk_buff \<Rightarrow> u32 \<Rightarrow> bool" where
  "routed_packet skb bc \<longleftrightarrow> \<not> aodv_packet skb \<and> sk_nh skb + 20 \<le> length (sk_data skb)
     \<and> (sk_data skb ! (sk_nh skb + 9) = 17 \<longrightarrow> sk_nh skb + hdr_bytes (sk_nh skb) (sk_data skb) + 4 \<le> length (sk_data skb))
     \<and> packet_dst skb \<noteq> INADDR_BROADCAST \<and> \<not> IN_MULTICAST (ntohl (packet_dst skb)) \<and> packet_dst skb \<noteq> bc"

lemma hook_routed:
  assumes "routed_packet skb bc" and "if_info_from_ifindex i k = Some (ifa, bc)"
  shows "kaodv_hook Pre_routing skb (Some i) dout okfn k = hook_pre_routing ifa skb (packet_src skb) (packet_dst skb) i okfn k"
    and "kaodv_hook Local_out skb din (Some i) okfn k = hook_local_out skb (packet_src skb) (packet_dst skb) i okfn k"
    and "kaodv_hook Post_routing skb din (Some i) okfn k =
      (NF_ACCEPT, kaodv_update_route_timeouts Post_routing i (packet_src skb) (packet_dst skb) k)"
  using assms by (simp_all add: kaodv_hook_def routed_packet_def packet_src_def packet_dst_def Let_def)

lemma enqueue_steps:
  assumes "steps k evs k'" and "queue_ok k" and "\<And>n. k_ok k n" and "sk_nh skb + 20 \<le> length (sk_data skb)"
    and "length (waiting k) < unat (queue_maxlen k)"
  shows "waiting (snd (kaodv_queue_enqueue_packet skb okfn k')) = waiting k @ [packet_entry skb okfn]
    \<and> k_out (snd (kaodv_queue_enqueue_packet skb okfn k')) = k_out k @ evs
    \<and> routes (snd (kaodv_queue_enqueue_packet skb okfn k')) = routes k'"
proof -
  note s = steps_fields [OF assms(1)]
  show ?thesis
    using enqueue_effect [of k' skb okfn] assms(2-5) s(1)
    by (auto simp: s(2-6) waiting_def s(2) [unfolded waiting_def] intro: routes_cong)
qed

section \<open>Properties\<close>

text \<open>
  C5: forwarding. A packet on its way through the node, neither from nor to it, is dropped with
  a report to the daemon if the table has no route to its destination, kept waiting with a request
  to repair the route if that is what the route is flagged for, and let through otherwise. In
  each case the daemon is told of the traffic, and exactly the routes to the destination, to the
  source and to their next hops live on for another \<^verbatim>\<open>active_route_timeout\<close>.
\<close>

theorem hook_forwards:
  assumes p: "routed_packet skb bc" and i: "if_info_from_ifindex i k = Some (ifa, bc)"
    and other: "packet_src skb \<noteq> ifa" "packet_dst skb \<noteq> ifa"
    and ok: "expl_room k" "queue_ok k" "\<forall>n. k_ok k n" and room: "length (waiting k) < unat (queue_maxlen k)"
  shows "let (v, k') = kaodv_hook Pre_routing skb (Some i) dout okfn k; src = packet_src skb; dst = packet_dst skb;
      upd = update_events Pre_routing i bc src dst in
    routes k' = prolonged i src dst k \<and>
    (case routes k dst of
       None \<Rightarrow> v = NF_DROP \<and> waiting k' = waiting k \<and> k_out k' = k_out k @ upd @ [Broadcast KAODVM_SEND_RERR
         (blank_rt_msg\<lparr>m_type := PKT_INBOUND, m_src := src, m_dest := dst, m_ifindex := i\<rparr>)]
     | Some e \<Rightarrow> if x_flags e AND KAODV_RT_REPAIR \<noteq> 0
         then v = NF_STOLEN \<and> waiting k' = waiting k @ [packet_entry skb okfn] \<and>
           k_out k' = k_out k @ upd @ [Broadcast KAODVM_REPAIR (blank_rt_msg\<lparr>m_src := src, m_dest := dst\<rparr>)]
         else v = NF_ACCEPT \<and> waiting k' = waiting k \<and> k_out k' = k_out k @ upd)"
proof -
  let ?src = "packet_src skb" let ?dst = "packet_dst skb" let ?upd = "update_events Pre_routing i bc ?src ?dst"
  define k1 where "k1 = kaodv_update_route_timeouts Pre_routing i ?src ?dst k"
  have k1: "routes k1 = prolonged i ?src ?dst k" "steps k ?upd k1"
    using update_timeouts_effect [OF ok(1) i, of Pre_routing ?src ?dst] ok(3) by (simp_all add: k1_def Let_def)
  note s = steps_fields [OF k1(2)]
  have ok1: "k_ok k1 n" for n using ok(3) s(3) by simp
  have hook: "kaodv_hook Pre_routing skb (Some i) dout okfn k = (case routes k1 ?dst of
      None \<Rightarrow> (NF_DROP, kaodv_netlink_send_rerr_msg PKT_INBOUND ?src ?dst i k1)
    | Some e \<Rightarrow> if x_flags e AND KAODV_RT_REPAIR \<noteq> 0
        then (NF_STOLEN, snd (kaodv_queue_enqueue_packet skb okfn (kaodv_netlink_send_rt_msg KAODVM_REPAIR ?src ?dst k1)))
        else (NF_ACCEPT, k1))"
    using hook_routed(1) [OF p i] other by (simp add: hook_pre_routing_def k1_def [symmetric] routes_def)
  have r: "routes k1 ?dst = map_option (\<lambda>e. stamp (x_daddr e) (x_nhop e) (of_int (k_active_route_timeout k)) (x_flags e) i k)
      (routes k ?dst)"
    by (simp add: k1(1) prolonged_def refreshed_def with_hop_def)
  show ?thesis
  proof (cases "routes k ?dst")
    case None
    have "steps k1 [Broadcast KAODVM_SEND_RERR (blank_rt_msg\<lparr>m_type := PKT_INBOUND, m_src := ?src, m_dest := ?dst, m_ifindex := i\<rparr>)]
        (kaodv_netlink_send_rerr_msg PKT_INBOUND ?src ?dst i k1)"
      using ok1 by (simp add: kaodv_netlink_send_rerr_msg_def steps_broadcast)
    from steps_fields(1,2) [OF steps_trans [OF k1(2) this]] show ?thesis
      using None r k1(1) by (simp add: hook kaodv_netlink_send_rerr_msg_def broadcast_routes)
  next
    case (Some e)
    have "steps k1 [Broadcast KAODVM_REPAIR (blank_rt_msg\<lparr>m_src := ?src, m_dest := ?dst\<rparr>)]
        (kaodv_netlink_send_rt_msg KAODVM_REPAIR ?src ?dst k1)"
      using ok1 by (simp add: kaodv_netlink_send_rt_msg_def steps_broadcast)
    note rep = enqueue_steps [OF steps_trans [OF k1(2) this], of skb okfn]
    show ?thesis
      using Some r k1(1) s(1,2) rep ok room p
      by (simp add: hook stamp_def kaodv_netlink_send_rt_msg_def broadcast_routes routed_packet_def)
  qed
qed

text \<open>A module with the interface 1, address 77, on which two packets wait and two routes are known.\<close>

definition with_iface :: "kernel \<Rightarrow> kernel" where
  "with_iface k = k\<lparr>ifihead := [\<lparr>if_addr = 77, bc_addr = 78,
     if_dev = \<lparr>dv_ifindex = 1, dv_name = ''br-lan'', dv_addrs = None\<rparr>\<rparr>]\<rparr>"

lemma with_iface_simps:
  "if_info_from_ifindex 1 (with_iface k) = Some (77, 78)" "waiting (with_iface k) = waiting k"
  "routes (with_iface k) = routes k" "queue_ok (with_iface k) = queue_ok k" "k_out (with_iface k) = k_out k"
  "k_ok (with_iface k) = k_ok k" "queue_maxlen (with_iface k) = queue_maxlen k" "expl_room (with_iface k) = expl_room k"
  by (auto simp: with_iface_def if_info_from_ifindex_def waiting_def queue_ok_def expl_room_def expl_ok_def intro: routes_cong)

lemma two_waiting_room: "expl_room two_waiting" "k_ok two_waiting n" "routes two_waiting 0x200000a = None"
  by (simp_all add: expl_room_def two_waiting_def two_expl_def expl_ok_def routes_def kaodv_expl_get_def expl_check_def)

lemma small_packet_fields:
  "packet_src small_packet = 0x100000a" "packet_dst small_packet = 0x200000a" "routed_packet small_packet 78"
proof -
  show a: "packet_src small_packet = 0x100000a" "packet_dst small_packet = 0x200000a"
    by (simp_all add: packet_src_def packet_dst_def small_packet_def peek32_def)
  have "ntohl 0x200000a = 0xa000002" by (simp add: ntohl_def htonl_def)
  moreover have "\<not> aodv_packet small_packet"
    by (simp add: aodv_packet_def Let_def small_packet_hdr) (simp add: small_packet_def peek_be16_def)
  ultimately show "routed_packet small_packet 78"
    by (simp add: routed_packet_def a small_packet_hdr IN_MULTICAST_def)
qed

theorem hook_forwards_witness:
  "let (v, k') = kaodv_hook Pre_routing small_packet (Some 1) None 7 (with_iface two_waiting) in
     v = NF_DROP \<and> waiting k' = waiting two_waiting \<and> length (k_out k') = 2"
  using hook_forwards [of small_packet 78 1 "with_iface two_waiting" 77 None 7] small_packet_fields two_waiting_simps
    two_waiting_room
  by (simp add: with_iface_simps Let_def case_prod_beta update_events_def)

text \<open>
  C14: packets of the node itself to a destination without a usable route. The daemon is asked for a
  route unless a packet to that destination waits already, and the packet is put behind the
  waiting ones. But when the queue is full the verdict is \<^verbatim>\<open>NF_STOLEN\<close> all the same: the
  packet is neither kept nor freed.
\<close>

theorem hook_requests_route:
  assumes p: "routed_packet skb bc" and i: "if_info_from_ifindex i k = Some (ifa, bc)"
    and no: "\<forall>e. routes k (packet_dst skb) = Some e \<longrightarrow> x_flags e AND KAODV_RT_REPAIR \<noteq> 0"
    and ok: "queue_ok k" "\<forall>n. k_ok k n"
  shows "let (v, k') = kaodv_hook Local_out skb din (Some i) okfn k; dst = packet_dst skb in
    v = NF_STOLEN
    \<and> k_out k' = k_out k @ (if \<exists>e \<in> set (waiting k). dest_cmp dst e then []
        else [Broadcast KAODVM_ROUTE_REQ (blank_rt_msg\<lparr>m_src := 0, m_dest := dst\<rparr>)])
    \<and> waiting k' = waiting k @ (if length (waiting k) < unat (queue_maxlen k) then [packet_entry skb okfn] else [])"
proof -
  let ?dst = "packet_dst skb"
  define k1 where "k1 = (if \<not> kaodv_queue_check ?dst k then kaodv_netlink_send_rt_msg KAODVM_ROUTE_REQ 0 ?dst k else k)"
  have chk: "kaodv_queue_check ?dst k \<longleftrightarrow> (\<exists>e \<in> set (waiting k). dest_cmp ?dst e)"
    by (auto simp: kaodv_queue_check_def check_entry_def waiting_def find_None_iff)
  have "steps k (if \<exists>e \<in> set (waiting k). dest_cmp ?dst e then []
      else [Broadcast KAODVM_ROUTE_REQ (blank_rt_msg\<lparr>m_src := 0, m_dest := ?dst\<rparr>)]) k1"
    using ok(2) by (simp add: k1_def chk kaodv_netlink_send_rt_msg_def steps_broadcast steps_refl)
  note s = steps_fields [OF this]
  have "kaodv_hook Local_out skb din (Some i) okfn k = request_route skb ?dst okfn k"
    using hook_routed(2) [OF p i] no by (auto simp: hook_local_out_def routes_def split: option.split)
  then have h: "kaodv_hook Local_out skb din (Some i) okfn k = (NF_STOLEN, snd (kaodv_queue_enqueue_packet skb okfn k1))"
    by (simp add: request_route_def k1_def Let_def)
  show ?thesis
    using enqueue_effect [of k1 skb okfn] ok p s(1) s(2) [unfolded waiting_def]
    by (simp add: h s(2-6) routed_packet_def waiting_def)
qed

theorem hook_requests_route_witness:
  "let (v, k') = kaodv_hook Local_out small_packet None (Some 1) 7 (with_iface two_waiting\<lparr>queue_maxlen := 2\<rparr>) in
     v = NF_STOLEN \<and> waiting k' = waiting two_waiting \<and> length (k_out k') = 1"
proof -
  let ?k = "with_iface two_waiting\<lparr>queue_maxlen := 2\<rparr>"
  have "if_info_from_ifindex 1 ?k = Some (77, 78)" "waiting ?k = waiting two_waiting" "routes ?k = routes two_waiting"
    "k_out ?k = []" "k_ok ?k = k_ok two_waiting" "queue_ok ?k"
    by (auto simp: with_iface_def if_info_from_ifindex_def waiting_def queue_ok_def two_waiting_def two_expl_def intro: routes_cong)
  then show ?thesis
    using hook_requests_route [of small_packet 78 1 ?k 77 None 7] small_packet_fields two_waiting_room two_waiting_simps(1)
    by (simp add: Let_def case_prod_beta dest_cmp_def)
qed

text \<open>
  C32: packets of the node itself over a route through a gateway. \<^verbatim>\<open>ip_pkt_encapsulate\<close> frees
  the packet and returns a new one, but the hook can only accept the packet it was given: the
  verdict is \<^verbatim>\<open>NF_ACCEPT\<close> on a packet that has been freed, and the new one is routed but
  never handed on.
\<close>

theorem hook_accepts_freed:
  assumes p: "routed_packet skb bc" and i: "if_info_from_ifindex i k = Some (ifa, bc)"
    and r: "routes k (packet_dst skb) = Some e" "x_flags e AND KAODV_RT_REPAIR = 0" "x_flags e AND KAODV_RT_GW_ENCAP \<noteq> 0"
    and ok: "expl_room k" "\<forall>n. k_ok k n"
  shows "\<exists>s k'. kaodv_hook Local_out skb din (Some i) okfn k = (NF_ACCEPT, k') \<and> waiting k' = waiting k
    \<and> k_out k' = k_out k @ update_events Local_out i bc (packet_src skb) (packet_dst skb) @ [Kfree_skb skb, Route_me_harder s]"
proof -
  let ?src = "packet_src skb" let ?dst = "packet_dst skb"
  define k1 where "k1 = kaodv_update_route_timeouts Local_out i ?src ?dst k"
  have st: "steps k (update_events Local_out i bc ?src ?dst) k1"
    using update_timeouts_effect [OF ok(1) i, of Local_out ?src ?dst] ok(2) by (simp add: k1_def Let_def)
  note s = steps_fields [OF st]
  obtain x k2 where enc: "ip_pkt_encapsulate skb (x_nhop e) k1 = (Some x, k2)" and k2: "k_out k2 = k_out k1 @ [Kfree_skb skb]"
    using ok(2) s(3)
    by (simp add: ip_pkt_encapsulate_def kcall_def Let_def kcheck_def emit_def)
  have "waiting k2 = waiting k1" using queue_list_encapsulate [of skb "x_nhop e" k1] by (simp add: enc waiting_def)
  moreover have "kaodv_hook Local_out skb din (Some i) okfn k = (NF_ACCEPT, emit [Route_me_harder x] k2)"
    using hook_routed(2) [OF p i, of din okfn] r enc
    by (simp add: hook_local_out_def routes_def [symmetric] k1_def [symmetric])
  ultimately show ?thesis using k2 s(1,2) by (auto simp: waiting_def emit_def)
qed

text \<open>A module with a route through the gateway 20 to the destination of the packet.\<close>

definition gateway :: kernel where
  "gateway = with_iface (kernel0\<lparr>expl_len := 1, expl_list :=
     [\<lparr>x_expires = 100, x_flags = 1, x_daddr = 0x200000a, x_nhop = 20, x_ifindex = 1\<rparr>]\<rparr>)"

theorem hook_accepts_freed_witness:
  "\<exists>s k'. kaodv_hook Local_out small_packet None (Some 1) 7 gateway = (NF_ACCEPT, k') \<and>
     Kfree_skb small_packet \<in> set (k_out k')"
proof -
  have "expl_room gateway" "k_ok gateway n"
    "routes gateway 0x200000a = Some \<lparr>x_expires = 100, x_flags = 1, x_daddr = 0x200000a, x_nhop = 20, x_ifindex = 1\<rparr>" for n
    by (simp_all add: gateway_def with_iface_simps)
       (simp_all add: expl_room_def expl_ok_def routes_def kaodv_expl_get_def expl_check_def)
  moreover have "if_info_from_ifindex 1 gateway = Some (77, 78)" by (simp add: gateway_def with_iface_simps)
  ultimately show ?thesis
    using hook_accepts_freed [OF small_packet_fields(3), of 1 gateway 77 _ None 7] small_packet_fields by fastforce
qed

lemma flush_keeps:
  "held (kaodv_queue_flush k) = held k" "dev_refs (kaodv_queue_flush k) = dev_refs k"
  "ifihead (kaodv_queue_flush k) = ifihead k" "expl_list (kaodv_queue_flush k) = expl_list k"
  using flush_effect_queue [of k] by (auto simp: served_def)

lemma add_interface_effect:
  assumes "ifihead k = []"
  shows "held (add_interface devices name k) = held k
    \<and> (let k' = if_info_purge (add_interface devices name k) in
        dev_refs k' = dev_refs k \<and> ifihead k' = [] \<and> held k' = held k)"
  using assms
  by (simp add: add_interface_def if_info_add_def if_info_purge_def kcall_def Let_def case_prod_beta
      split: option.split)

lemma exit_releases:
  assumes "dev_refs (if_info_purge k) = refs" and "ifihead (if_info_purge k) = []" and "held (if_info_purge k) = hs"
  shows "let k' = kaodv_exit k in dev_refs k' = refs \<and> ifihead k' = [] \<and> routes k' = Map.empty \<and> waiting k' = []
    \<and> held k' = remove1 Nl_notifier (remove1 Nl_socket (remove1 Expl_proc (remove1 Queue_proc
        (remove1 (Hook 2) (remove1 (Hook 1) (remove1 (Hook 0) hs))))))"
proof -
  define k1 where "k1 = if_info_purge k\<lparr>held := remove1 (Hook 2) (remove1 (Hook 1) (remove1 (Hook 0) hs))\<rparr>"
  have "fold nf_unregister_hook [0, 1, 2] (if_info_purge k) = k1"
    using assms(3) by (simp add: nf_unregister_hook_def k1_def)
  moreover have "waiting (kaodv_queue_flush k1) = []" using flush_effect_queue [of k1] by simp
  ultimately show ?thesis
    using assms flush_keeps [of k1]
    by (auto simp: kaodv_exit_def kaodv_netlink_finish_def kaodv_expl_finish_def kaodv_queue_finish_def Let_def
        flush_effect waiting_def routes_def kaodv_expl_get_def expl_check_def k1_def fun_eq_iff)
qed

text \<open>How far loading has come: what is held, and how many fallible calls were made.\<close>

definition stage :: "kernel \<Rightarrow> resource list \<Rightarrow> nat \<Rightarrow> kernel \<Rightarrow> bool" where
  "stage k hs n k' \<longleftrightarrow> held k' = hs \<and> k_calls k' = k_calls k + n \<and> k_ok k' = k_ok k
     \<and> dev_refs k' = dev_refs k \<and> ifihead k' = ifihead k"

lemma stage_expl: "held k = [] \<Longrightarrow> stage k (if k_ok k (k_calls k) then [Expl_proc] else []) 1 (kaodv_expl_init k)"
  by (simp add: stage_def kaodv_expl_init_def kcall_def Let_def)

lemma stage_steps:
  assumes "stage k hs n k1"
  shows "kaodv_queue_init k1 = (if k_ok k (k_calls k + n) then 1 else - 1, snd (kaodv_queue_init k1))
      \<and> stage k (if k_ok k (k_calls k + n) then Queue_proc # hs else hs) (Suc n) (snd (kaodv_queue_init k1))"
    and "kaodv_netlink_init k1 = (if k_ok k (k_calls k + n) then 0 else - 1, snd (kaodv_netlink_init k1))
      \<and> stage k (if k_ok k (k_calls k + n) then Nl_socket # Nl_notifier # hs else hs) (Suc n) (snd (kaodv_netlink_init k1))"
    and "nf_register_hook i k1 = (if k_ok k (k_calls k + n) then 0 else - 1, snd (nf_register_hook i k1))
      \<and> stage k (if k_ok k (k_calls k + n) then Hook i # hs else hs) (Suc n) (snd (nf_register_hook i k1))"
  using assms by (auto simp: stage_def kaodv_queue_init_def kaodv_netlink_init_def nf_register_hook_def kcall_def Let_def)

lemma held_undo:
  "held (kaodv_queue_finish k) = remove1 Queue_proc (held k)"
  "held (kaodv_netlink_finish k) = remove1 Nl_notifier (remove1 Nl_socket (held k))"
  "held (nf_unregister_hook i k) = remove1 (Hook i) (held k)"
  by (simp_all add: kaodv_queue_finish_def kaodv_netlink_finish_def nf_unregister_hook_def Let_def flush_keeps)

text \<open>The outcome of loading: all steps succeed, or the first that fails undoes the others.\<close>

lemma init_outcome:
  assumes "held k = []"
  defines "left \<equiv> if k_ok k (k_calls k) then [Expl_proc] else []"
  shows "(\<exists>k0. kaodv_init devices k = (0, add_interface devices ''br-lan'' k0) \<and>
      stage k ([Hook 2, Hook 1, Hook 0, Nl_socket, Nl_notifier, Queue_proc] @ left) 6 k0)
    \<or> (\<exists>k0. kaodv_init devices k = (- 1, k0) \<and> held k0 = left)"
proof -
  define k1 where "k1 = kaodv_expl_init k"
  define k2 where "k2 = snd (kaodv_queue_init k1)"
  define k3 where "k3 = snd (kaodv_netlink_init k2)"
  define k4 where "k4 = snd (nf_register_hook 0 k3)"
  define k5 where "k5 = snd (nf_register_hook 1 k4)"
  define k6 where "k6 = snd (nf_register_hook 2 k5)"
  let ?ok = "\<lambda>n. k_ok k (k_calls k + n)"
  have 1: "stage k left 1 k1" using stage_expl [OF assms(1)] by (simp add: left_def k1_def)
  note 2 = stage_steps(1) [OF 1, folded k2_def]
  note 3 = stage_steps(2) [OF conjunct2 [OF 2], folded k3_def]
  note 4 = stage_steps(3) [OF conjunct2 [OF 3], of 0, folded k4_def]
  note 5 = stage_steps(3) [OF conjunct2 [OF 4], of 1, folded k5_def]
  note 6 = stage_steps(3) [OF conjunct2 [OF 5], of 2, folded k6_def]
  have left: "remove1 x left = left" if "x \<noteq> Expl_proc" for x using that by (auto simp: left_def)
  have h: "held k2 = (if ?ok 1 then Queue_proc # left else left)"
    "held k3 = (if ?ok (Suc 1) then Nl_socket # Nl_notifier # held k2 else held k2)"
    "held k4 = (if ?ok (Suc (Suc 1)) then Hook 0 # held k3 else held k3)"
    "held k5 = (if ?ok (Suc (Suc (Suc 1))) then Hook 1 # held k4 else held k4)"
    "held k6 = (if ?ok (Suc (Suc (Suc (Suc 1)))) then Hook 2 # held k5 else held k5)"
    using 2 3 4 5 6 by (simp_all add: stage_def)
  have 7: "stage k (held k6) 6 k6" using 6 by (simp add: stage_def)
  note steps = 2 [THEN conjunct1] 3 [THEN conjunct1] 4 [THEN conjunct1] 5 [THEN conjunct1] 6 [THEN conjunct1]
  consider "\<not> ?ok 1" | "?ok 1" "\<not> ?ok (Suc 1)" | "?ok 1" "?ok (Suc 1)" "\<not> ?ok (Suc (Suc 1))"
    | "?ok 1" "?ok (Suc 1)" "?ok (Suc (Suc 1))" "\<not> ?ok (Suc (Suc (Suc 1)))"
    | "?ok 1" "?ok (Suc 1)" "?ok (Suc (Suc 1))" "?ok (Suc (Suc (Suc 1)))" "\<not> ?ok (Suc (Suc (Suc (Suc 1))))"
    | "?ok 1" "?ok (Suc 1)" "?ok (Suc (Suc 1))" "?ok (Suc (Suc (Suc 1)))" "?ok (Suc (Suc (Suc (Suc 1))))" by blast
  then show ?thesis
  proof cases
    case 6
    then have "kaodv_init devices k = (0, add_interface devices ''br-lan'' k6)"
      using steps by (simp add: kaodv_init_def k1_def [symmetric] ifnames_def del: One_nat_def)
    moreover have "held k6 = [Hook 2, Hook 1, Hook 0, Nl_socket, Nl_notifier, Queue_proc] @ left"
      using 6 by (simp add: h)
    ultimately show ?thesis using 7 by auto
  qed (use steps h in \<open>simp_all add: kaodv_init_def k1_def [symmetric] held_undo left del: One_nat_def\<close>)
qed

text \<open>
  C28: loading and unloading. If \<^verbatim>\<open>kaodv_init\<close> succeeds, \<^verbatim>\<open>kaodv_exit\<close> gives
  back all that was registered and every device reference, and leaves no route and no packet
  behind. If it fails at any of its steps, the hooks, the socket, the notifier and the queue's
  proc entry registered so far are given back, but not the proc entry of the route table: no error
  path calls \<^verbatim>\<open>kaodv_expl_finish\<close>, and the entry stays, pointing into the discarded module.
\<close>

theorem module_lifecycle:
  assumes "held k = []" and "ifihead k = []"
  shows "let (ret, k1) = kaodv_init devices k; k2 = kaodv_exit k1 in
    if 0 \<le> ret
    then held k2 = [] \<and> dev_refs k2 = dev_refs k \<and> ifihead k2 = [] \<and> routes k2 = Map.empty \<and> waiting k2 = []
    else held k1 = (if k_ok k (k_calls k) then [Expl_proc] else [])"
  using init_outcome [OF assms(1), of devices]
proof
  assume "\<exists>k0. kaodv_init devices k = (0, add_interface devices ''br-lan'' k0) \<and> stage k
    ([Hook 2, Hook 1, Hook 0, Nl_socket, Nl_notifier, Queue_proc] @ (if k_ok k (k_calls k) then [Expl_proc] else [])) 6 k0"
  then obtain k0 where k0: "kaodv_init devices k = (0, add_interface devices ''br-lan'' k0)"
    "held k0 = [Hook 2, Hook 1, Hook 0, Nl_socket, Nl_notifier, Queue_proc] @ (if k_ok k (k_calls k) then [Expl_proc] else [])"
    "dev_refs k0 = dev_refs k" "ifihead k0 = []" using assms(2) by (auto simp: stage_def)
  note a = add_interface_effect [OF k0(4), of devices "''br-lan''"]
  show ?thesis
    using exit_releases [of "add_interface devices ''br-lan'' k0" "dev_refs k" "held k0"] a k0
    by (simp add: Let_def)
next
  assume "\<exists>k0. kaodv_init devices k = (- 1, k0) \<and> held k0 = (if k_ok k (k_calls k) then [Expl_proc] else [])"
  then show ?thesis by auto
qed

theorem module_lifecycle_witness:
  "held (kaodv_exit (snd (kaodv_init (\<lambda>_. None) kernel0))) = []
   \<and> held (snd (kaodv_init (\<lambda>_. None) (kernel0\<lparr>k_ok := (\<lambda>n. n < 3)\<rparr>))) = [Expl_proc]"
proof -
  have "fst (kaodv_init (\<lambda>_. None) kernel0) = 0"
    by (simp add: kaodv_init_def kaodv_expl_init_def kaodv_queue_init_def kaodv_netlink_init_def nf_register_hook_def kcall_def Let_def)
  moreover have "fst (kaodv_init (\<lambda>_. None) (kernel0\<lparr>k_ok := (\<lambda>n. n < 3)\<rparr>)) = - 1"
    by (simp add: kaodv_init_def kaodv_expl_init_def kaodv_queue_init_def kaodv_netlink_init_def nf_register_hook_def kcall_def Let_def)
  ultimately show ?thesis
    using module_lifecycle [of kernel0 "\<lambda>_. None"] module_lifecycle [of "kernel0\<lparr>k_ok := (\<lambda>n. n < 3)\<rparr>" "\<lambda>_. None"]
    by (simp add: Let_def case_prod_beta)
qed

end
