(* ===== verification/Kernel_Link.thy ===== *)
theory Kernel_Link
  imports Dispatch Kmod
begin

text \<open>
  The daemon and the module together. A netlink message of the daemon is a record in its state and
  bytes for the module; a broadcast of the module is an event of its trace and a message for
  \<^verbatim>\<open>nl_kaodv_callback\<close>. The theorems follow a packet without a route from the hook to the
  daemon's route discovery, and a route from the daemon to the packets that wait for it.
\<close>

section \<open>Messages on the socket\<close>

text \<open>
  What \<^verbatim>\<open>sendmsg\<close> hands over: \<^verbatim>\<open>nlmsg_len\<close> bytes from the header on. \<open>after\<close> is the
  memory behind the message: a configuration message claims the length of a route message.
\<close>

definition body_bytes :: "nl_body \<Rightarrow> buffer" where
  "body_bytes b = (case b of Rt_msg m \<Rightarrow> rt_msg_bytes m | Conf_msg c \<Rightarrow> le32 (of_int c) | Rtm_msg r \<Rightarrow> [])"

definition wire :: "buffer \<Rightarrow> nlmsg \<Rightarrow> buffer" where
  "wire after m = take (nat (nlmsg_len m)) (nl_header_bytes (of_int (nlmsg_len m)) (of_int (nlmsg_type m))
     (of_int (nlmsg_flags m)) (of_int (nlmsg_seq m)) (of_int (nlmsg_pid m)) @ body_bytes (nl_body m) @ after)"

definition deliver :: "kevent \<Rightarrow> unit daemon" where
  "deliver ev = (case ev of
       Broadcast type m \<Rightarrow> nl_kaodv_callback (Some (Km_route type (m_dest m) (m_src m)))
     | _ \<Rightarrow> return ())"

lemma rcv_framed:
  assumes "0 < sint pid" and "peer_pid k = 0 \<or> peer_pid k = sint pid" and l: "length body = 28"
  shows "kaodv_netlink_rcv_skb (nl_header_bytes 44 type 5 seq pid @ body) k =
    (let (status, k') = kaodv_netlink_receive_peer (ucast type) body (k\<lparr>peer_pid := sint pid\<rparr>)
     in if status < 0 then emit [Nl_ack status] k' else emit [Nl_ack 0] k')"
proof -
  let ?b = "nl_header_bytes 44 type 5 seq pid @ body"
  have len: "length ?b = 44" "drop 16 ?b = body" using l by simp_all
  note f = nl_header_fields [of 44 type 5 seq pid body]
  show ?thesis
    unfolding kaodv_netlink_rcv_skb_def Let_def f len using assms(1,2)
    by (auto simp: case_prod_beta)
qed

lemma rcv_request:
  assumes "0 < sint pid" and "peer_pid k = 0 \<or> peer_pid k = sint pid"
    and b: "b = nl_header_bytes 44 type 5 seq pid @ rt_msg_bytes m"
  shows "kaodv_netlink_rcv_skb b k =
    (let (status, k') = kaodv_netlink_receive_peer (ucast type) (rt_msg_bytes m) (k\<lparr>peer_pid := sint pid\<rparr>)
     in if status < 0 then emit [Nl_ack status] k' else emit [Nl_ack 0] k')"
  unfolding b using assms(1,2) by (rule rcv_framed) simp

text \<open>The messages the daemon sends the module, when \<^verbatim>\<open>sendmsg\<close> succeeds.\<close>

lemma nl_send_aodv:
  assumes "\<And>n. 0 \<le> env_ret s n"
  shows "run_state (nl_send Aodvnl (aodv_msg_of ty body)) s =
    (0, s\<lparr>aodvnl_seqno := wrap32 (aodvnl_seqno s + 1), tick := Suc (tick s), nl_out := nl_out s @
      [\<lparr>nlmsg_len = 44, nlmsg_type = ty, nlmsg_flags = 5, nlmsg_seq = wrap32 (aodvnl_seqno s + 1),
        nlmsg_pid = nl_pid s, nl_body = body\<rparr>]\<rparr>)"
proof -
  have "\<not> env_ret s (tick s) < 0" using assms by (simp add: not_less)
  moreover have "(1 :: int) OR 4 = 5" by simp
  ultimately show ?thesis by (simp add: nl_send_def aodv_msg_of_def NLMSG_LENGTH_def NLMSG_ALIGN_def)
qed

lemma wire_rt_msg:
  "wire after \<lparr>nlmsg_len = 44, nlmsg_type = ty, nlmsg_flags = 5, nlmsg_seq = seq, nlmsg_pid = pid, nl_body = Rt_msg m\<rparr>
   = nl_header_bytes 44 (of_int ty) 5 (of_int seq) (of_int pid) @ rt_msg_bytes m"
  by (simp add: wire_def body_bytes_def)

text \<open>The route message that \<^verbatim>\<open>nl_send_add_route_msg\<close> builds.\<close>

definition route_msg :: "u32 \<Rightarrow> u32 \<Rightarrow> u32 \<Rightarrow> u8 \<Rightarrow> int \<Rightarrow> kaodv_rt_msg" where
  "route_msg dest nh lifetime flags ifindex = blank_rt_msg\<lparr>m_dest := dest, m_nhop := nh, m_time := sint lifetime,
     m_ifindex := ifindex, m_flags := (if has flags RT_INET_DEST then KAODV_RT_GW_ENCAP else 0) OR
       (if has flags RT_REPAIR then KAODV_RT_REPAIR else 0)\<rparr>"

lemma kernel_route_appends:
  assumes "\<And>n. 0 \<le> env_ret s n"
  shows "\<exists>q. nl_out (snd (run_state (nl_kernel_route act fl ix d gw nm me) s)) = nl_out s @ [q]"
  using assms by (simp add: nl_kernel_route_def nl_send_def Let_def case_prod_beta not_less)

lemma add_route_first:
  assumes "\<And>n. 0 \<le> env_ret s n"
  shows "nl_out (snd (run_state (nl_send_add_route_msg dest nh metric lifetime flags ifindex) s)) ! length (nl_out s)
    = \<lparr>nlmsg_len = 44, nlmsg_type = KAODVM_ADDROUTE, nlmsg_flags = 5, nlmsg_seq = wrap32 (aodvnl_seqno s + 1),
       nlmsg_pid = nl_pid s, nl_body = Rt_msg (route_msg dest nh lifetime flags ifindex)\<rparr>"
proof -
  let ?m = "\<lparr>nlmsg_len = 44, nlmsg_type = KAODVM_ADDROUTE, nlmsg_flags = 5, nlmsg_seq = wrap32 (aodvnl_seqno s + 1),
       nlmsg_pid = nl_pid s, nl_body = Rt_msg (route_msg dest nh lifetime flags ifindex)\<rparr>"
  let ?s = "s\<lparr>aodvnl_seqno := wrap32 (aodvnl_seqno s + 1), tick := Suc (tick s), nl_out := nl_out s @ [?m]\<rparr>"
  have "run_state (nl_send_add_route_msg dest nh metric lifetime flags ifindex) s =
    run_state (nl_kernel_route RTM_NEWROUTE NLM_F_CREATE ifindex dest nh None metric) ?s"
    by (simp add: nl_send_add_route_msg_def nl_send_aodv [OF assms] route_msg_def blank_rt_msg_def)
  moreover have "0 \<le> env_ret ?s n" for n using assms by simp
  from kernel_route_appends [OF this] obtain q where
    "nl_out (snd (run_state (nl_kernel_route RTM_NEWROUTE NLM_F_CREATE ifindex dest nh None metric) ?s)) = nl_out ?s @ [q]"
    by blast
  ultimately show ?thesis by (simp add: nth_append)
qed

lemma sint_of_pid: "0 < i \<Longrightarrow> i < 2 ^ 31 \<Longrightarrow> sint (of_int i :: u32) = i"
  by (simp add: sint_sbintrunc' signed_take_bit_int_eq_self)

lemma emit_view: "routes (emit evs k) = routes k" "waiting (emit evs k) = waiting k" "peer_pid (emit evs k) = peer_pid k"
  by (auto simp: emit_def waiting_def intro: routes_cong)

section \<open>A request becomes a discovery\<close>

lemma set_timeout_attaches:
  assumes "wf s" and "t_handler (timers s t) \<noteq> None" and "0 \<le> msec"
  shows "attached (snd (run_state (timer_set_timeout t msec) s)) t"
proof -
  have "wf_timers (tq s) (exptq s) (timers s) (live_in s)" using assms(1) by (simp add: wf_def live_in_def)
  then obtain s1 where
    r: "run_state (do { x \<leftarrow> reads (\<lambda>s. timers s t); only_if (t_used x) (do { timer_remove t; return () }) }) s = ((), s1)"
    and s1: "\<not> attached s1 t" "timers s1 t = (timers s t)\<lparr>t_used := False\<rparr>"
    using set_timeout_idle by blast
  have q: "\<And>tm. t \<in> set (tq_insert tm t (tq s1))" by (simp add: set_tq_insert)
  have "run_state (timer_set_timeout t msec) s = run_state (do { now \<leftarrow> gettimeofday; upd_timer t (\<lambda>x. x\<lparr>t_timeout := now\<rparr>);
      if msec < 0 then return ()
      else do { upd_timer t (\<lambda>x. x\<lparr>t_timeout := add_msec (t_timeout x) msec\<rparr>); timer_add t } }) s1"
    using r by (auto simp: timer_set_timeout_def case_prod_beta)
  then show ?thesis using s1 assms q by (auto simp: timer_add_def attached_def Let_def)
qed

lemma discovery_starts:
  assumes inv: "INV L n s" and n: "n < 2 ^ 32" and no: "absent d s" "unsought d s" and ts: "0 \<le> ttl_start s"
  shows "let s' = snd (run_state (rreq_route_discovery d 0) s); ttl = (if expanding_ring_search s then ttl_start s else NET_DIAMETER) in
    wf s' \<and> (\<exists>p. p \<notin> dom (seeks s) \<and> attached s' (Seek_timer p) \<and> seeks s' = (seeks s)(p \<mapsto>
      \<lparr>sk_dest_addr = d, sk_dest_seqno = 0, sk_flags = 0, rreq_cnt = 1, sk_ttl = ttl\<rparr>))"
proof -
  define ttl where "ttl = (if expanding_ring_search s then ttl_start s else NET_DIAMETER)"
  let ?m = "if expanding_ring_search s then RING_TRAVERSAL_TIME ttl else NET_TRAVERSAL_TIME"
  let ?e = "\<lparr>sk_dest_addr = d, sk_dest_seqno = 0, sk_flags = 0, rreq_cnt = 1, sk_ttl = ttl\<rparr>"
  let ?s1 = "s\<lparr>tick := Suc (tick s)\<rparr>"
  define s2 where "s2 = snd (run_state (rreq_send d 0 ttl 0) ?s1)"
  define s3 where "s3 = s2\<lparr>brk := Suc (brk s2), seeks := (seeks s2)(brk s2 \<mapsto> ?e),
      timers := (timers s2)(Seek_timer (brk s2) := fresh_timer Route_discovery_timeout (Some (brk s2))), sl := brk s2 # sl s2\<rparr>"
  define s' where "s' = snd (run_state (timer_set_timeout (Seek_timer (brk s2)) ?m) s3)"
  have i1: "INV L n ?s1" using inv by simp
  have i2: "INV L n s2" unfolding s2_def using spec_snd [OF keeps_rreq_send i1] .
  have sk2: "seeks s2 = seeks s" unfolding s2_def using frameD [OF seeks_rreq_send, of _ _ _ _ ?s1] by simp
  have un: "\<forall>p e'. seeks s2 p = Some e' \<longrightarrow> sk_dest_addr e' \<noteq> sk_dest_addr ?e" using no(2) by (simp add: sk2 unsought_def)
  have i3: "INV (insert (Seek (brk s2)) L) n s3" unfolding s3_def by (rule INV_add_seek [OF i2 un])
  have na: "\<not> attached s2 (Seek_timer (brk s2))"
    using attached_live [OF i2, of "Seek_timer (brk s2)"] INV_fresh [OF i2] by auto
  have ins: "run_state (seek_list_insert d 0 ttl 0) s2 = (brk s2, s3)"
    using na by (simp add: seek_list_insert_def run_timer_init attached_def s3_def)
  have "fst (run_state (seek_list_check d) ?s1) = None"
    using sk.check_None_iff [OF INV_wf [OF i1], of d] no(2) by (simp add: unsought_def)
  then have c: "run_state (seek_list_check d) ?s1 = (None, ?s1)"
    using sk.check_state [OF INV_wf [OF i1], of d] by (metis prod.collapse)
  obtain r where "run_state (rt_table_check d) ?s1 = (r, ?s1)" "\<And>p. r = Some p \<longleftrightarrow> (\<exists>e. rts s p = Some e \<and> dest_addr e = d)"
    using run_rt_check [OF i1 n, of d] by auto
  moreover from this have "r = None" using no(1) by (cases r) (auto simp: absent_def)
  ultimately have t: "run_state (rt_table_check d) ?s1 = (None, ?s1)" by simp
  have "run_state (rreq_route_discovery d 0) s = run_state (timer_set_timeout (Seek_timer (brk s2)) ?m) s3"
    using ins by (cases "expanding_ring_search s") (simp_all add: rreq_route_discovery_def c t s2_def ttl_def case_prod_beta)
  then have r: "snd (run_state (rreq_route_discovery d 0) s) = s'" by (simp add: s'_def)
  have wf: "wf s'" unfolding s'_def
    by (rule INV_wf, rule spec_snd [OF keeps_timer_set_timeout i3]) simp
  have at: "attached s' (Seek_timer (brk s2))" unfolding s'_def
    by (rule set_timeout_attaches [OF INV_wf [OF i3]]) (use ts in \<open>simp_all add: s3_def ttl_def RING_TRAVERSAL_TIME_def NET_TRAVERSAL_TIME_def\<close>)
  have "seeks s' = seeks s3" unfolding s'_def by (rule frameD) (rule frame_rule)
  then have "seeks s' = (seeks s)(brk s2 \<mapsto> ?e)" "brk s2 \<notin> dom (seeks s)"
    using INV_fresh [OF i2] sk2 by (auto simp: s3_def)
  then show ?thesis using wf at unfolding Let_def r ttl_def by blast
qed


section \<open>Properties\<close>

text \<open>
  C9: a route of the daemon in the module. The message that \<^verbatim>\<open>nl_send_add_route_msg\<close> sends,
  read by the module, puts exactly this route into its table, with the same next hop, lifetime and
  repair flag, and hands on all packets that waited for the destination, in order of arrival. The
  others wait on, and the daemon gets its acknowledgement. (The flags exclude routes through a
  gateway, which are encapsulated.)
\<close>

theorem added_route_releases:
  assumes env: "\<forall>n. 0 \<le> env_ret s n" and ix: "0 < ifindex" "ifindex < 2 ^ 31" and pid: "0 < nl_pid s" "nl_pid s < 2 ^ 31"
    and peer: "peer_pid k = 0 \<or> peer_pid k = nl_pid s" and room: "expl_room k" "k_ok k (k_calls k)"
    and plain: "\<not> has flags RT_INET_DEST"
  shows "let s' = snd (run_state (nl_send_add_route_msg dest nh metric lifetime flags ifindex) s);
      k' = kaodv_netlink_rcv_skb (wire after (nl_out s' ! length (nl_out s))) k;
      w = filter (dest_cmp dest) (waiting k) in
    peer_pid k' = nl_pid s
    \<and> routes k' = (routes k)(dest \<mapsto> stamp dest nh lifetime (if has flags RT_REPAIR then KAODV_RT_REPAIR else 0) ifindex k)
    \<and> waiting k' = filter (\<lambda>e. \<not> dest_cmp dest e) (waiting k)
    \<and> k_out k' = k_out k @ concat (map (\<lambda>e. [Route_me_harder (q_skb e), Okfn (q_okfn e) (q_skb e)]) w) @ [Nl_ack 0]"
proof -
  let ?m = "route_msg dest nh lifetime flags ifindex" let ?k = "k\<lparr>peer_pid := nl_pid s\<rparr>"
  define s' where "s' = snd (run_state (nl_send_add_route_msg dest nh metric lifetime flags ifindex) s)"
  have "nl_out s' ! length (nl_out s) = \<lparr>nlmsg_len = 44, nlmsg_type = KAODVM_ADDROUTE, nlmsg_flags = 5,
      nlmsg_seq = wrap32 (aodvnl_seqno s + 1), nlmsg_pid = nl_pid s, nl_body = Rt_msg ?m\<rparr>"
    unfolding s'_def by (rule add_route_first) (use env in simp)
  then have w: "wire after (nl_out s' ! length (nl_out s)) = nl_header_bytes 44 101 5 (of_int (wrap32 (aodvnl_seqno s + 1)))
      (of_int (nl_pid s)) @ rt_msg_bytes ?m" by (simp add: wire_rt_msg)
  have m: "m_dest ?m = dest" "m_nhop ?m = nh" "m_ifindex ?m = ifindex" "m_time ?m = sint lifetime"
    "ucast (m_flags ?m) = (if has flags RT_REPAIR then KAODV_RT_REPAIR else (0 :: u16))"
    using plain by (auto simp: route_msg_def blank_rt_msg_def)
  have "rt_msg_of (rt_msg_bytes ?m @ []) = ?m"
    by (rule rt_msg_of_bytes) (use ix m sint_ge [of lifetime] sint_lt [of lifetime] in simp_all)
  then have rt: "rt_msg_of (rt_msg_bytes ?m) = ?m" by simp
  have k: "expl_room ?k" "waiting ?k = waiting k" "routes ?k = routes k" "k_ok ?k (k_calls ?k)"
    using room by (auto simp: expl_room_def expl_ok_def waiting_def intro: routes_cong)
  note r = receive_addroute [OF k(1,4) _ rt [symmetric]]
  note p = sint_of_pid [OF pid]
  have b: "kaodv_netlink_rcv_skb (wire after (nl_out s' ! length (nl_out s))) k =
    (let (status, k') = kaodv_netlink_receive_peer 101 (rt_msg_bytes ?m) ?k
     in if status < 0 then emit [Nl_ack status] k' else emit [Nl_ack 0] k')"
    unfolding w using rcv_request [of "of_int (nl_pid s)" k _ 101 _ ?m, OF _ _ refl] pid peer by (simp add: p)
  obtain st k2 where r2: "kaodv_netlink_receive_peer 101 (rt_msg_bytes ?m) ?k = (st, k2)" by force
  have "0 \<le> st \<and> peer_pid k2 = nl_pid s \<and> waiting k2 = filter (\<lambda>e. \<not> dest_cmp dest e) (waiting k)
      \<and> routes k2 = (routes k)(dest \<mapsto> stamp dest nh lifetime (if has flags RT_REPAIR then KAODV_RT_REPAIR else 0) ifindex k)
      \<and> k_out k2 = k_out k @ send_events (filter (dest_cmp dest) (waiting k))"
    using r by (simp add: r2 m k stamp_def expl_deadline_def split: if_splits)
  moreover have "kaodv_netlink_rcv_skb (wire after (nl_out s' ! length (nl_out s))) k = emit [Nl_ack 0] k2"
    using b calculation by (simp add: r2)
  ultimately show ?thesis
    by (simp only: s'_def [symmetric] Let_def emit_view emit_fields send_events_def append_assoc simp_thms)
qed

theorem added_route_releases_witness:
  "let s' = snd (run_state (nl_send_add_route_msg 40 20 2 3000 0 1) node0);
      k' = kaodv_netlink_rcv_skb (wire [] (nl_out s' ! 0)) two_waiting in
    peer_pid k' = 1 \<and> map_option x_nhop (routes k' 40) = Some 20 \<and> length (waiting k') = 1
    \<and> k_out k' = [Route_me_harder small_packet, Okfn 9 small_packet, Nl_ack 0]"
proof -
  have n: "\<forall>n. 0 \<le> env_ret node0 n" "nl_pid node0 = 1" "nl_out node0 = []" by (simp_all add: node0_def globals_def)
  have k: "peer_pid two_waiting = 0" by (simp add: two_waiting_def two_expl_def)
  show ?thesis
    using added_route_releases [of node0 1 two_waiting 0 40 20 2 3000 "[]"] n k two_waiting_simps two_waiting_room
    by (simp add: Let_def has_def stamp_def dest_cmp_def)
qed

text \<open>
  C25: a search that found nothing. The message that \<^verbatim>\<open>nl_send_no_route_found_msg\<close> sends,
  read by the module, drops exactly the packets that wait for the destination: the first one is
  answered with an ICMP host unreachable message, all are freed. No route changes.
\<close>

theorem no_route_drops:
  assumes env: "\<forall>n. 0 \<le> env_ret s n" and pid: "0 < nl_pid s" "nl_pid s < 2 ^ 31"
    and peer: "peer_pid k = 0 \<or> peer_pid k = nl_pid s"
  shows "let s' = snd (run_state (nl_send_no_route_found_msg dest) s);
      k' = kaodv_netlink_rcv_skb (wire after (nl_out s' ! length (nl_out s))) k;
      w = filter (dest_cmp dest) (waiting k) in
    peer_pid k' = nl_pid s \<and> routes k' = routes k
    \<and> waiting k' = filter (\<lambda>e. \<not> dest_cmp dest e) (waiting k)
    \<and> k_out k' = k_out k @ (if w = [] then [] else [Icmp_host_unreach (q_skb (hd w))])
        @ map (\<lambda>e. Kfree_skb (q_skb e)) w @ [Nl_ack 0]"
proof -
  let ?m = "blank_rt_msg\<lparr>m_dest := dest\<rparr>" let ?k = "k\<lparr>peer_pid := nl_pid s\<rparr>"
  define s' where "s' = snd (run_state (nl_send_no_route_found_msg dest) s)"
  have "nl_out s' ! length (nl_out s) = \<lparr>nlmsg_len = 44, nlmsg_type = KAODVM_NOROUTE_FOUND, nlmsg_flags = 5,
      nlmsg_seq = wrap32 (aodvnl_seqno s + 1), nlmsg_pid = nl_pid s, nl_body = Rt_msg ?m\<rparr>"
    using nl_send_aodv [of s KAODVM_NOROUTE_FOUND "Rt_msg ?m"] env
    by (simp add: s'_def nl_send_no_route_found_msg_def nth_append)
  then have w: "wire after (nl_out s' ! length (nl_out s)) = nl_header_bytes 44 106 5 (of_int (wrap32 (aodvnl_seqno s + 1)))
      (of_int (nl_pid s)) @ rt_msg_bytes ?m" by (simp add: wire_rt_msg)
  have "rt_msg_of (rt_msg_bytes ?m @ []) = ?m" by (rule rt_msg_of_bytes) (simp_all add: blank_rt_msg_def)
  then have d: "m_dest (rt_msg_of (rt_msg_bytes ?m)) = dest" by simp
  have k: "waiting ?k = waiting k" "routes ?k = routes k" by (auto simp: waiting_def intro: routes_cong)
  obtain st k2 where r2: "kaodv_netlink_receive_peer 106 (rt_msg_bytes ?m) ?k = (st, k2)" by force
  have r: "st = 0" "waiting k2 = filter (\<lambda>e. \<not> dest_cmp dest e) (waiting k)"
    "served ?k (length (filter (dest_cmp dest) (waiting k))) (drop_events (filter (dest_cmp dest) (waiting k))) k2"
    using receive_noroute [of "rt_msg_bytes ?m" ?k] by (simp_all add: r2 d k)
  note p = sint_of_pid [OF pid]
  have "kaodv_netlink_rcv_skb (wire after (nl_out s' ! length (nl_out s))) k = emit [Nl_ack 0] k2"
    unfolding w using rcv_request [of "of_int (nl_pid s)" k _ 106 _ ?m, OF _ _ refl] pid peer r2 r(1) by (simp add: p)
  moreover have "peer_pid k2 = nl_pid s" using r(3) by (auto simp: served_def)
  ultimately show ?thesis
    using r(2) served_fields [OF r(3)] by (simp add: s'_def [symmetric] Let_def emit_view drop_events_def k)
qed

theorem no_route_drops_witness:
  "let s' = snd (run_state (nl_send_no_route_found_msg 30) node0);
      k' = kaodv_netlink_rcv_skb (wire [] (nl_out s' ! 0)) two_waiting in
    length (waiting k') = 1 \<and> k_out k' = [Icmp_host_unreach small_packet, Kfree_skb small_packet, Nl_ack 0]"
proof -
  have n: "\<forall>n. 0 \<le> env_ret node0 n" "nl_pid node0 = 1" "nl_out node0 = []" by (simp_all add: node0_def globals_def)
  have k: "peer_pid two_waiting = 0" by (simp add: two_waiting_def two_expl_def)
  show ?thesis
    using no_route_drops [of node0 two_waiting 30 "[]"] n k two_waiting_simps
    by (simp add: Let_def dest_cmp_def)
qed

text \<open>
  C10: a packet without a route starts a discovery. When a packet of the node itself has no route and
  is the first one to wait for its destination, the message the hook broadcasts makes the daemon
  enter the destination into its list of searches, with the first time-to-live of the ring, and
  start the timer of the search, which retries it or gives it up.
\<close>

theorem request_reaches_daemon:
  assumes p: "routed_packet skb bc" and i: "if_info_from_ifindex i k = Some (ifa, bc)" and ok: "\<forall>n. k_ok k n"
    and no: "routes k (packet_dst skb) = None" "\<forall>e \<in> set (waiting k). \<not> dest_cmp (packet_dst skb) e"
    and d: "wf s" "length (all_rts (tbl s)) < 2 ^ 32" "absent (packet_dst skb) s" "unsought (packet_dst skb) s" "0 \<le> ttl_start s"
  shows "let k' = snd (kaodv_hook Local_out skb din (Some i) okfn k);
      s' = snd (run_state (for_each deliver (drop (length (k_out k)) (k_out k'))) s);
      ttl = (if expanding_ring_search s then ttl_start s else NET_DIAMETER) in
    wf s' \<and> (\<exists>p. p \<notin> dom (seeks s) \<and> attached s' (Seek_timer p) \<and> seeks s' = (seeks s)(p \<mapsto>
      \<lparr>sk_dest_addr = packet_dst skb, sk_dest_seqno = 0, sk_flags = 0, rreq_cnt = 1, sk_ttl = ttl\<rparr>))"
proof -
  have inv: "INV {} (length (all_rts (tbl s))) s" using d(1) by (simp add: INV_def)
  let ?dst = "packet_dst skb"
  define k1 where "k1 = kaodv_netlink_send_rt_msg KAODVM_ROUTE_REQ 0 ?dst k"
  have "\<not> kaodv_queue_check ?dst k"
    using no(2) by (auto simp: kaodv_queue_check_def check_entry_def waiting_def find_None_iff)
  then have "kaodv_hook Local_out skb din (Some i) okfn k = (NF_STOLEN, snd (kaodv_queue_enqueue_packet skb okfn k1))"
    using hook_routed(2) [OF p i] no(1) by (simp add: hook_local_out_def request_route_def routes_def k1_def)
  moreover have "k_out (snd (kaodv_queue_enqueue_packet skb okfn k1)) = k_out k1"
    by (auto simp: kaodv_queue_enqueue_packet_def enqueue_entry_def kcall_def Let_def kcheck_def)
  moreover have "steps k [Broadcast KAODVM_ROUTE_REQ (blank_rt_msg\<lparr>m_src := 0, m_dest := ?dst\<rparr>)] k1"
    unfolding k1_def kaodv_netlink_send_rt_msg_def by (rule steps_broadcast) (use ok in simp)
  ultimately have "drop (length (k_out k)) (k_out (snd (kaodv_hook Local_out skb din (Some i) okfn k)))
      = [Broadcast KAODVM_ROUTE_REQ (blank_rt_msg\<lparr>m_src := 0, m_dest := ?dst\<rparr>)]"
    by (simp add: steps_fields(1))
  moreover have "run_state (for_each deliver [Broadcast KAODVM_ROUTE_REQ (blank_rt_msg\<lparr>m_src := 0, m_dest := ?dst\<rparr>)]) s
      = run_state (rreq_route_discovery ?dst 0) s"
    by (simp add: deliver_def nl_kaodv_callback_def case_prod_beta)
  ultimately show ?thesis using discovery_starts [OF inv d(2-5)] by (simp only: Let_def)
qed

theorem request_reaches_daemon_witness:
  "let k' = snd (kaodv_hook Local_out small_packet None (Some 1) 7 (with_iface two_waiting));
      s' = snd (run_state (for_each deliver (k_out k')) node0) in
    \<exists>p. attached s' (Seek_timer p) \<and> map_option sk_dest_addr (seeks s' p) = Some 0x200000a"
proof -
  have "wf node0" "length (all_rts (tbl node0)) < 2 ^ 32" using node0_INV by (auto simp: INV_def)
  moreover have "absent 0x200000a node0" "unsought 0x200000a node0" "0 \<le> ttl_start node0"
    using node0_absent by (simp_all add: unsought_def node0_def globals_def)
  ultimately show ?thesis
    using request_reaches_daemon [of small_packet 78 1 "with_iface two_waiting" 77 node0 None 7] small_packet_fields
      two_waiting_simps(1,5) two_waiting_room
    by (fastforce simp: with_iface_simps Let_def dest_cmp_def)
qed

end
