(* ===== verification/Mirror.thy ===== *)
theory Mirror
  imports Kernel_Link
begin

text \<open>
  What the module knows of the daemon's routes. The daemon tells the module of a route when it
  becomes valid and when it ceases to be; the module's table should be the set of the daemon's
  valid routes. Here this is an invariant of the daemon (\<open>in_step\<close>), between its table and the
  messages it has sent, and a simulation of the messages in the module. Operations that only give
  routes up keep it whatever the state; inserting and updating keep it under conditions, one of
  which the code does not meet.
\<close>

section \<open>What the daemon has told\<close>

definition apply_msg :: "nlmsg \<Rightarrow> (u32 \<Rightarrow> u32 option) \<Rightarrow> u32 \<Rightarrow> u32 option" where
  "apply_msg m T = (case nl_body m of
       Rt_msg r \<Rightarrow>
         if nlmsg_type m = KAODVM_ADDROUTE then T(m_dest r \<mapsto> m_nhop r)
         else if nlmsg_type m = KAODVM_DELROUTE then T(m_dest r := None)
         else T
     | _ \<Rightarrow> T)"

definition told :: "nlmsg list \<Rightarrow> u32 \<Rightarrow> u32 option" where
  "told ms = fold apply_msg ms Map.empty"

lemma told_append: "told (ms @ [m]) = apply_msg m (told ms)"
  by (simp add: told_def)

definition mirrors :: "(ptr \<Rightarrow> rt_entry option) \<Rightarrow> (u32 \<Rightarrow> u32 option) \<Rightarrow> bool" where
  "mirrors h T \<longleftrightarrow> (\<forall>p e. h p = Some e \<longrightarrow> rt_state e = VALID \<or> rt_state e = INVALID)
     \<and> (\<forall>p q e e'. h p = Some e \<longrightarrow> h q = Some e' \<longrightarrow> dest_addr e = dest_addr e' \<longrightarrow> p = q)
     \<and> (\<forall>p e. h p = Some e \<longrightarrow> rt_state e = VALID \<longrightarrow> next_hop e = 0 \<longrightarrow> dest_addr e = 0)
     \<and> (\<forall>d nh. T d = Some nh \<longleftrightarrow> (\<exists>p e. h p = Some e \<and> dest_addr e = d \<and> rt_state e = VALID \<and> next_hop e = nh))"

lemma mirrorsD:
  assumes "mirrors h T"
  shows "h p = Some e \<Longrightarrow> h q = Some e' \<Longrightarrow> dest_addr e = dest_addr e' \<Longrightarrow> p = q"
    and "h p = Some e \<Longrightarrow> rt_state e = VALID \<Longrightarrow> next_hop e = 0 \<Longrightarrow> dest_addr e = 0"
    and "T d = Some nh \<longleftrightarrow> (\<exists>p e. h p = Some e \<and> dest_addr e = d \<and> rt_state e = VALID \<and> next_hop e = nh)"
    and "h p = Some e \<Longrightarrow> rt_state e = VALID \<or> rt_state e = INVALID"
  using assms unfolding mirrors_def by blast+

lemma mirrors_same:
  assumes m: "mirrors h T" and e: "h p = Some e"
    and same: "dest_addr e' = dest_addr e" "rt_state e' = rt_state e" "next_hop e' = next_hop e"
  shows "mirrors (h(p \<mapsto> e')) T"
  unfolding mirrors_def
proof (intro conjI allI impI)
  fix d nh
  have "(\<exists>q x. (h(p \<mapsto> e')) q = Some x \<and> dest_addr x = d \<and> rt_state x = VALID \<and> next_hop x = nh) \<longleftrightarrow>
      (\<exists>q x. h q = Some x \<and> dest_addr x = d \<and> rt_state x = VALID \<and> next_hop x = nh)" (is "?l \<longleftrightarrow> ?r")
  proof
    assume ?l
    then obtain q x where x: "(h(p \<mapsto> e')) q = Some x" "dest_addr x = d" "rt_state x = VALID" "next_hop x = nh" by blast
    show ?r by (cases "q = p") (use x e same in auto)
  next
    assume ?r
    then obtain q x where x: "h q = Some x" "dest_addr x = d" "rt_state x = VALID" "next_hop x = nh" by blast
    show ?l by (rule exI [of _ q], cases "q = p") (use x e same in auto)
  qed
  then show "(T d = Some nh) = ?l" using mirrorsD(3) [OF m] by simp
next
  fix q r x x' assume "(h(p \<mapsto> e')) q = Some x" "(h(p \<mapsto> e')) r = Some x'" "dest_addr x = dest_addr x'"
  then show "q = r" using mirrorsD(1) [OF m] e same by (auto split: if_splits)
next
  fix q x assume "(h(p \<mapsto> e')) q = Some x" "rt_state x = VALID" "next_hop x = 0"
  then show "dest_addr x = 0" using mirrorsD(2) [OF m] e same by (auto split: if_splits)
next
  fix q x assume "(h(p \<mapsto> e')) q = Some x"
  then show "rt_state x = VALID \<or> rt_state x = INVALID" using mirrorsD(4) [OF m] e same by (auto split: if_splits)
qed

lemma mirrors_withdraw:
  assumes m: "mirrors h T" and e: "h p = Some e"
    and v: "\<And>e'. v = Some e' \<Longrightarrow> dest_addr e' = dest_addr e \<and> rt_state e' = INVALID"
  shows "mirrors (h(p := v)) (T(dest_addr e := None))"
  unfolding mirrors_def
proof (intro conjI allI impI)
  fix d nh
  show "((T(dest_addr e := None)) d = Some nh) = (\<exists>q x. (h(p := v)) q = Some x \<and> dest_addr x = d \<and> rt_state x = VALID \<and> next_hop x = nh)"
    (is "?t = ?l")
  proof
    assume ?t
    then obtain q x where x: "h q = Some x" "dest_addr x = d" "rt_state x = VALID" "next_hop x = nh" "d \<noteq> dest_addr e"
      using mirrorsD(3) [OF m] by (auto split: if_splits)
    then have "q \<noteq> p" using e by auto
    then show ?l using x by auto
  next
    assume ?l
    then obtain q x where x: "(h(p := v)) q = Some x" "dest_addr x = d" "rt_state x = VALID" "next_hop x = nh" by blast
    then have "q \<noteq> p" "h q = Some x" using v [of x] by (auto split: if_splits)
    then show ?t using x e mirrorsD(1) [OF m, of q x p e] mirrorsD(3) [OF m] by auto
  qed
next
  have old: "\<exists>y. h q = Some y \<and> dest_addr y = dest_addr x" if "(h(p := v)) q = Some x" for q x
    using that e v [of x] by (cases "q = p") auto
  fix q r x x' assume "(h(p := v)) q = Some x" "(h(p := v)) r = Some x'" "dest_addr x = dest_addr x'"
  then show "q = r" using old [of q x] old [of r x'] mirrorsD(1) [OF m] by metis
next
  fix q x assume x: "(h(p := v)) q = Some x" "rt_state x = VALID" "next_hop x = 0"
  then have "q \<noteq> p" using v [of x] by auto
  then show "dest_addr x = 0" using x mirrorsD(2) [OF m] by auto
next
  fix q x assume "(h(p := v)) q = Some x"
  then show "rt_state x = VALID \<or> rt_state x = INVALID" using mirrorsD(4) [OF m] v [of x] by (auto split: if_splits)
qed

lemma mirrors_announce:
  assumes m: "mirrors h T" and e: "rt_state e = VALID" "next_hop e \<noteq> 0 \<or> dest_addr e = 0"
    and new: "\<And>q x. h q = Some x \<Longrightarrow> dest_addr x = dest_addr e \<Longrightarrow> q = p"
    and old: "\<And>x. h p = Some x \<Longrightarrow> dest_addr x = dest_addr e"
  shows "mirrors (h(p \<mapsto> e)) (T(dest_addr e \<mapsto> next_hop e))"
  unfolding mirrors_def
proof (intro conjI allI impI)
  fix d nh
  show "((T(dest_addr e \<mapsto> next_hop e)) d = Some nh) = (\<exists>q x. (h(p \<mapsto> e)) q = Some x \<and> dest_addr x = d \<and> rt_state x = VALID \<and> next_hop x = nh)"
    (is "?t = ?l")
  proof (cases "d = dest_addr e")
    case True
    have "?l \<longleftrightarrow> next_hop e = nh"
    proof
      assume ?l
      then obtain q x where x: "(h(p \<mapsto> e)) q = Some x" "dest_addr x = d" "next_hop x = nh" by blast
      then show "next_hop e = nh" using new [of q x] True by (auto split: if_splits)
    next
      assume "next_hop e = nh"
      then show ?l using e True by (intro exI [of _ p] exI [of _ e]) simp
    qed
    then show ?thesis using True by auto
  next
    case False
    have "?l \<longleftrightarrow> (\<exists>q x. h q = Some x \<and> dest_addr x = d \<and> rt_state x = VALID \<and> next_hop x = nh)"
    proof
      assume ?l
      then show "\<exists>q x. h q = Some x \<and> dest_addr x = d \<and> rt_state x = VALID \<and> next_hop x = nh"
        using False by (auto split: if_splits)
    next
      assume "\<exists>q x. h q = Some x \<and> dest_addr x = d \<and> rt_state x = VALID \<and> next_hop x = nh"
      then obtain q x where x: "h q = Some x" "dest_addr x = d" "rt_state x = VALID" "next_hop x = nh" by blast
      then have "q \<noteq> p" using old False by auto
      then show ?l using x by auto
    qed
    then show ?thesis using False mirrorsD(3) [OF m] by simp
  qed
next
  fix q r x x' assume "(h(p \<mapsto> e)) q = Some x" "(h(p \<mapsto> e)) r = Some x'" "dest_addr x = dest_addr x'"
  then show "q = r" using mirrorsD(1) [OF m] new by (auto split: if_splits)
next
  fix q x assume "(h(p \<mapsto> e)) q = Some x" "rt_state x = VALID" "next_hop x = 0"
  then show "dest_addr x = 0" using mirrorsD(2) [OF m] e by (auto split: if_splits)
next
  fix q x assume "(h(p \<mapsto> e)) q = Some x"
  then show "rt_state x = VALID \<or> rt_state x = INVALID" using mirrorsD(4) [OF m] e by (auto split: if_splits)
qed

lemma mirrors_invalid:
  assumes m: "mirrors h T" and h: "h p = Some e" "rt_state e \<noteq> VALID"
  shows "T(dest_addr e := None) = T"
proof
  fix d
  have "T d = None" if "d = dest_addr e"
  proof (rule ccontr)
    assume "T d \<noteq> None"
    then obtain q x where "h q = Some x" "dest_addr x = d" "rt_state x = VALID" using mirrorsD(3) [OF m] by blast
    moreover from this have "q = p" using mirrorsD(1) [OF m _ h(1)] that by blast
    ultimately show False using h by simp
  qed
  then show "(T(dest_addr e := None)) d = T d" by simp
qed

section \<open>Operations that only give routes up\<close>

text \<open>What an operation may change of the invariant: routes, and what was told.\<close>

definition known :: "node \<Rightarrow> (nat \<Rightarrow> int) \<times> (ptr \<Rightarrow> rt_entry option) \<times> (u32 \<Rightarrow> u32 option)" where
  "known s = (env_ret s, rts s, told (nl_out s))"

definition in_step :: "node \<Rightarrow> bool" where
  "in_step s \<longleftrightarrow> (\<forall>n. 0 \<le> env_ret s n) \<and> mirrors (rts s) (told (nl_out s))"

lemma known_in_step: "known s' = known s \<Longrightarrow> in_step s' \<longleftrightarrow> in_step s"
  by (simp add: known_def in_step_def)

lemma stays_frame: "frame known m \<Longrightarrow> stays in_step m"
  unfolding stays_def frame_def using known_in_step by blast

lemma stays_simple [stays_rule]:
  "stays P u \<Longrightarrow> stays P (only_if b u)" "stays P (reads f)" "(\<And>s. P s \<Longrightarrow> P (g s)) \<Longrightarrow> stays P (modify g)"
  by (auto simp: stays_def)

lemma stays_loops [stays_rule]:
  "(\<And>x. stays P (g x)) \<Longrightarrow> stays P (for_each g xs)"
  "(\<And>x c. stays P (k x c)) \<Longrightarrow> stays P (fold_each k xs b)"
proof -
  show "stays P (for_each g xs)" if "\<And>x. stays P (g x)" using that by (induction xs) (auto intro: stays_rule)
  show "stays P (fold_each k xs b)" if "\<And>x c. stays P (k x c)"
    using that by (induction xs arbitrary: b) (auto intro: stays_rule)
qed

text \<open>Operations that touch neither.\<close>

lemma known_timer [frame_rule]:
  "frame known (upd_timer t g)" "frame known (timer_remove t)" "frame known (timer_add t)" "frame known (timer_init t h d)"
  unfolding timer_remove_def timer_add_def upd_timer_def timer_init_def by (auto intro!: frame_rule simp: known_def)

lemma known_timer_set [frame_rule]: "frame known (timer_set_timeout t m)" "frame known (set_rt_handler p h)"
  unfolding timer_set_timeout_def set_rt_handler_def by (auto intro!: frame_rule simp: known_def)

lemma known_seek [frame_rule]:
  "frame known (seek_list_check d)" "frame known (seek_list_remove e)" "frame known (seek_list_insert d sq ttl fl)"
  "frame known (seek_at p)" "frame known (seek_upd p g)"
  unfolding seek_list_check_def seek_list_remove_def seek_list_insert_def malloc_def seek_at_def seek_upd_def
  by (auto intro!: frame_rule simp: known_def frame_def [of _ "State _"] split: option.splits)

lemma known_rreq_lists [frame_rule]:
  "frame known (rreq_record_check a i)" "frame known (rreq_blacklist_check a)"
  "frame known (rreq_record_insert a i)" "frame known (rreq_blacklist_insert a)"
  "frame known (rreq_record_timeout p)" "frame known (rreq_blacklist_timeout p)"
  unfolding rreq_record_check_def rreq_blacklist_check_def rreq_record_insert_def rreq_blacklist_insert_def
    rreq_record_timeout_def rreq_blacklist_timeout_def malloc_def
  by (auto intro!: frame_rule simp: known_def frame_def [of _ "State _"])

lemma known_put [frame_rule]: "frame known (put_msg i bs)" "frame known aodv_socket_new_msg" "frame known (aodv_socket_queue_msg len)"
  "frame known (get8 i)" "frame known (get32 i)" "frame known (set_recv i bs)"
  unfolding put_msg_def aodv_socket_new_msg_def aodv_socket_queue_msg_def get8_def get32_def set_recv_def
  by (auto intro!: frame_rule simp: known_def)

lemma known_send [frame_rule]: "frame known (rate_check ty now)" "frame known (rt_table_check d)"
  unfolding rate_check_def rt_table_check_def Let_def
  by (auto intro!: frame_rule simp: known_def split: option.splits prod.splits)

lemma known_socket [frame_rule]: "frame known (aodv_socket_send d len ttl)"
  unfolding aodv_socket_send_def by (auto intro!: frame_rule simp: known_def)

lemma known_nl_send:
  assumes "\<And>T. apply_msg n T = T"
  shows "frame known (nl_send nl n)"
proof -
  have "apply_msg (n\<lparr>nlmsg_seq := sq, nlmsg_pid := pid, nlmsg_flags := fl\<rparr>) T = T" for sq pid fl T
    using assms [of T] by (cases "nl_body n") (auto simp: apply_msg_def split: if_splits)
  then show ?thesis
    unfolding frame_def nl_send_def by (auto simp: known_def told_append split: nlsock.splits)
qed

lemma known_nl [frame_rule]:
  "frame known (nl_kernel_route act fl i d g nm me)" "frame known (nl_send_no_route_found_msg d)" "frame known nl_send_conf_msg"
  unfolding nl_kernel_route_def nl_send_no_route_found_msg_def nl_send_conf_msg_def Let_def
  by (auto intro!: frame_rule known_nl_send simp: apply_msg_def aodv_msg_of_def split: prod.splits)

lemma known_rerr [frame_rule]:
  "frame known (rerr_create fl d sq)" "frame known (rerr_add_udest d sq)" "frame known (first_prec e)" "frame known crash"
  unfolding rerr_create_def rerr_add_udest_def first_prec_def crash_def Let_def by (auto intro!: frame_rule simp: known_def)

lemma known_mention [frame_rule]: "frame known (rerr_mention fl e acc)"
  unfolding rerr_mention_def by (auto intro!: frame_rule split: prod.splits)

lemma known_update_timeout [frame_rule]: "frame known (rt_table_update_timeout x l)" "frame known (hello_timer_used p)"
  unfolding rt_table_update_timeout_def hello_timer_used_def Let_def by (auto intro!: frame_rule simp: known_def)

lemma known_route_timeouts [frame_rule]: "frame known (rt_table_update_route_timeouts f b)" "frame known (extend_route p now)"
  unfolding rt_table_update_route_timeouts_def extend_route_def by (auto intro!: frame_rule simp: known_def)

lemma known_rreq [frame_rule]: "frame known (rreq_create fl d sq og)" "frame known (rreq_send d sq ttl fl)"
  unfolding rreq_send_def rreq_create_def by (auto intro!: frame_rule simp: known_def)

text \<open>What is told of a route.\<close>

lemma known_tell:
  assumes env: "\<And>n. 0 \<le> env_ret s n"
  shows "known (snd (run_state (nl_send_add_route_msg d nh me l fl i) s)) = (env_ret s, rts s, (told (nl_out s))(d \<mapsto> nh))"
    and "known (snd (run_state (nl_send_del_route_msg d nh me) s)) = (env_ret s, rts s, (told (nl_out s))(d := None))"
proof -
  note f = frameD [OF known_nl(1)]
  show "known (snd (run_state (nl_send_add_route_msg d nh me l fl i) s)) = (env_ret s, rts s, (told (nl_out s))(d \<mapsto> nh))"
    by (simp add: nl_send_add_route_msg_def Let_def nl_send_aodv [OF env] case_prod_beta f)
      (simp add: known_def told_append apply_msg_def blank_rt_msg_def)
  show "known (snd (run_state (nl_send_del_route_msg d nh me) s)) = (env_ret s, rts s, (told (nl_out s))(d := None))"
    by (simp add: nl_send_del_route_msg_def nl_send_aodv [OF env] case_prod_beta f)
      (simp add: known_def told_append apply_msg_def blank_rt_msg_def)
qed

lemma stays_upd [stays_rule]:
  assumes "\<And>e. dest_addr (u e) = dest_addr e \<and> rt_state (u e) = rt_state e \<and> next_hop (u e) = next_hop e"
  shows "stays in_step (rt_upd p u)"
  unfolding stays_def
proof (intro allI impI)
  fix s assume "in_step s"
  then show "in_step (snd (run_state (rt_upd p u) s))"
    using mirrors_same [of "rts s" "told (nl_out s)" p _ "u _"] assms
    by (cases "rts s p") (auto simp: in_step_def rt_upd_def)
qed

lemma stays_frames [stays_rule]:
  "stays in_step (rt_at p)" "stays in_step gettimeofday" "stays in_step syscall" "stays in_step (demand b)"
  by (rule stays_frame, auto intro!: frame_rule simp: known_def)+

text \<open>Invalidating and deleting a route, and losing a neighbour.\<close>

lemma in_step_known: "known s' = (E, h, T) \<Longrightarrow> in_step s' \<longleftrightarrow> (\<forall>n. 0 \<le> E n) \<and> mirrors h T"
  by (auto simp: known_def in_step_def)

lemma invalidate_known:
  assumes env: "\<And>n. 0 \<le> env_ret s n" and e: "rts s p = Some e" "rt_state e \<noteq> INVALID"
  shows "known (snd (run_state (rt_table_invalidate (Some p)) s)) = (env_ret s,
    (rts s)(p \<mapsto> e\<lparr>rt_state := INVALID, hello_cnt := 0, dest_seqno := seqno_incr (dest_seqno e), last_hello_time := zero_time\<rparr>),
    (told (nl_out s))(dest_addr e := None))"
proof -
  let ?s1 = "s\<lparr>tick := Suc (tick s)\<rparr>"
  define pre where "pre = do { timer_remove (Rt_timer p); timer_remove (Hello_timer p); timer_remove (Ack_timer p) }"
  define mid where "mid = do {
     rt_upd p (\<lambda>e. e\<lparr>rt_state := INVALID\<rparr>);
     modify (\<lambda>s. s\<lparr>num_active := num_active s - 1\<rparr>);
     rt_upd p (\<lambda>e. e\<lparr>hello_cnt := 0, dest_seqno := seqno_incr (dest_seqno e), last_hello_time := zero_time\<rparr>) }"
  define post where "post = (if has (rt_flags e) RT_REPAIR then do {
      set_rt_handler p Local_repair_timeout;
      t \<leftarrow> reads active_route_timeout;
      timer_set_timeout (Rt_timer p) t }
    else do {
      set_rt_handler p Route_delete_timeout;
      t \<leftarrow> reads delete_period;
      timer_set_timeout (Rt_timer p) t })"
  let ?s2 = "snd (run_state pre ?s1)" let ?s3 = "snd (run_state mid ?s2)"
  have "snd (run_state (rt_table_invalidate (Some p)) s) = snd (run_state post
      (snd (run_state (nl_send_del_route_msg (dest_addr e) (next_hop e) (ucast (hopcnt e))) ?s3)))"
    using e by (simp add: rt_table_invalidate_def pre_def mid_def post_def case_prod_beta)
  moreover have "frame known pre" "frame known post" unfolding pre_def post_def by (auto intro!: frame_rule simp: known_def)
  moreover have "known ?s1 = known s" by (simp add: known_def)
  ultimately have k: "known (snd (run_state (rt_table_invalidate (Some p)) s))
      = known (snd (run_state (nl_send_del_route_msg (dest_addr e) (next_hop e) (ucast (hopcnt e))) ?s3))" "known ?s2 = known s"
    by (simp_all add: frameD)
  have "rts ?s2 p = Some e" "rts ?s2 = rts s" "env_ret ?s2 = env_ret s" "told (nl_out ?s2) = told (nl_out s)"
    using k(2) e by (simp_all add: known_def)
  then have "env_ret ?s3 = env_ret s" "told (nl_out ?s3) = told (nl_out s)" "rts ?s3 = (rts s)(p \<mapsto>
      e\<lparr>rt_state := INVALID, hello_cnt := 0, dest_seqno := seqno_incr (dest_seqno e), last_hello_time := zero_time\<rparr>)"
    by (simp_all add: mid_def)
  then show ?thesis unfolding k using known_tell(2) [of ?s3] env by simp
qed

lemma stays_invalidate [stays_rule]: "stays in_step (rt_table_invalidate x)"
proof (cases x)
  case None
  then show ?thesis unfolding rt_table_invalidate_def by (auto intro!: stays_rule)
next
  case (Some p)
  show ?thesis unfolding stays_def Some
  proof (intro allI impI)
    fix s assume s: "in_step s"
    show "in_step (snd (run_state (rt_table_invalidate (Some p)) s))"
    proof (cases "\<exists>e. rts s p = Some e \<and> rt_state e \<noteq> INVALID")
      case True
      then obtain e where e: "rts s p = Some e" "rt_state e \<noteq> INVALID" by blast
      have env: "\<And>n. 0 \<le> env_ret s n" and m: "mirrors (rts s) (told (nl_out s))" using s by (auto simp: in_step_def)
      let ?e = "e\<lparr>rt_state := INVALID, hello_cnt := 0, dest_seqno := seqno_incr (dest_seqno e), last_hello_time := zero_time\<rparr>"
      have "mirrors ((rts s)(p \<mapsto> ?e)) ((told (nl_out s))(dest_addr e := None))" by (rule mirrors_withdraw [OF m e(1)]) auto
      then show ?thesis using in_step_known [OF invalidate_known [OF env e]] env by simp
    next
      case False
      then have "known (snd (run_state (rt_table_invalidate (Some p)) s)) = known s"
        by (cases "rts s p") (auto simp: rt_table_invalidate_def rt_at_def blank_rt_def known_def)
      then show ?thesis using s known_in_step by blast
    qed
  qed
qed

lemma stays_precursors [stays_rule]: "stays in_step (precursor_list_destroy x)" "stays in_step (precursor_add x a)" "stays in_step (precursor_remove x a)"
  unfolding precursor_list_destroy_def precursor_add_def precursor_remove_def by (auto intro!: stays_rule)

lemmas stays_sends [stays_rule] = known_timer [THEN stays_frame] known_timer_set [THEN stays_frame]
  known_mention [THEN stays_frame] known_rerr [THEN stays_frame] known_socket [THEN stays_frame] known_send [THEN stays_frame]
  known_put [THEN stays_frame] known_seek [THEN stays_frame] known_nl [THEN stays_frame] known_rreq [THEN stays_frame]
  known_update_timeout [THEN stays_frame] known_route_timeouts [THEN stays_frame] known_rreq_lists [THEN stays_frame]

lemma stays_link_break_entry [stays_rule]: "stays in_step (link_break_entry rt p acc)"
  unfolding link_break_entry_def by (auto intro!: stays_rule)

lemma stays_link_break [stays_rule]: "stays in_step (neighbor_link_break x)"
  unfolding neighbor_link_break_def link_break_bucket_def link_break_send_def by (auto intro!: stays_rule)

lemma stays_delete [stays_rule]: "stays in_step (rt_table_delete x)"
proof (cases x)
  case None
  then show ?thesis unfolding rt_table_delete_def by (auto intro!: stays_rule)
next
  case (Some p)
  define pre where "pre = do { modify (\<lambda>s. s\<lparr>tbl := (\<lambda>i. remove1 p (tbl s i))\<rparr>); precursor_list_destroy (Some p) }"
  define tell where "tell = do {
     e \<leftarrow> rt_at p;
     only_if (rt_state e = VALID) (do {
       nl_send_del_route_msg (dest_addr e) (next_hop e) (ucast (hopcnt e));
       modify (\<lambda>s. s\<lparr>num_active := num_active s - 1\<rparr>) }) }"
  define post where "post = do {
     timer_remove (Rt_timer p); timer_remove (Hello_timer p); timer_remove (Ack_timer p);
     modify (\<lambda>s. s\<lparr>num_entries := num_entries s - 1\<rparr>) }"
  have run: "snd (run_state (rt_table_delete x) s) = (let s1 = snd (run_state post (snd (run_state tell (snd (run_state pre s)))))
      in s1\<lparr>rts := (rts s1)(p := None)\<rparr>)" for s
    by (simp add: Some rt_table_delete_def pre_def tell_def post_def case_prod_beta Let_def)
  have pre: "stays in_step pre" unfolding pre_def by (intro stays_rule stays_frame frame_rule) (auto simp: known_def)
  have post: "frame known post" unfolding post_def by (auto intro!: frame_rule simp: known_def)
  show ?thesis unfolding stays_def
  proof (intro allI impI)
    fix s assume "in_step s"
    let ?s1 = "snd (run_state pre s)" let ?s2 = "snd (run_state tell ?s1)"
    have env: "\<And>n. 0 \<le> env_ret ?s1 n" and m: "mirrors (rts ?s1) (told (nl_out ?s1))"
      using pre \<open>in_step s\<close> by (auto simp: stays_def in_step_def)
    have fin: "known (snd (run_state (rt_table_delete x) s)) = (env_ret ?s2, (rts ?s2)(p := None), told (nl_out ?s2))"
      using frameD [OF post, of ?s2] unfolding run by (simp add: known_def Let_def)
    show "in_step (snd (run_state (rt_table_delete x) s))"
    proof (cases "rts ?s1 p")
      case None
      then have "known ?s2 = known ?s1" by (simp add: tell_def rt_at_def blank_rt_def known_def)
      then show ?thesis using in_step_known [OF fin] env m None by (simp add: known_def fun_upd_idem)
    next
      case (Some e)
      have w: "mirrors ((rts ?s1)(p := None)) ((told (nl_out ?s1))(dest_addr e := None))"
        by (rule mirrors_withdraw [OF m Some]) simp
      show ?thesis
      proof (cases "rt_state e = VALID")
        case True
        have "known ?s2 = (env_ret ?s1, rts ?s1, (told (nl_out ?s1))(dest_addr e := None))"
          using True Some known_tell(2) [OF env] by (simp add: tell_def case_prod_beta known_def)
        then show ?thesis using in_step_known [OF fin] env w by (simp add: known_def)
      next
        case False
        then have "?s2 = ?s1" using Some by (simp add: tell_def)
        then show ?thesis using in_step_known [OF fin] env w mirrors_invalid [OF m Some False] by simp
      qed
    qed
  qed
qed

section \<open>What never happens\<close>

text \<open>
  \<^verbatim>\<open>local_repair\<close> is 0 and nothing sets it, so no route is ever flagged for repair and
  \<^verbatim>\<open>local_repair_timeout\<close>, which would withdraw a route that may be valid, never becomes the
  handler of a timer. Every message to the module has the header the module asks for.
\<close>

definition framed :: "int \<Rightarrow> nlmsg \<Rightarrow> bool" where
  "framed pid m \<longleftrightarrow> nlmsg_pid m = pid \<and> (case nl_body m of
       Rt_msg r \<Rightarrow> nlmsg_len m = 44 \<and> nlmsg_flags m = 5 \<and>
         nlmsg_type m \<in> {KAODVM_ADDROUTE, KAODVM_DELROUTE, KAODVM_NOROUTE_FOUND}
     | Conf_msg c \<Rightarrow> nlmsg_len m = 44 \<and> nlmsg_flags m = 5 \<and> nlmsg_type m = KAODVM_CONFIG
     | Rtm_msg r \<Rightarrow> True)"

definition calm :: "node \<Rightarrow> bool" where
  "calm s \<longleftrightarrow> \<not> local_repair s \<and> (\<forall>p e. rts s p = Some e \<longrightarrow> \<not> has (rt_flags e) RT_REPAIR)
     \<and> (\<forall>t. t_handler (timers s t) \<noteq> Some Local_repair_timeout) \<and> (\<forall>m \<in> set (nl_out s). framed (nl_pid s) m)"

named_theorems calm_first \<open>binds that must be split first\<close>

lemma stays_rt_at_flags:
  assumes "\<And>s. P s \<Longrightarrow> calm s" and "\<And>s. P s \<Longrightarrow> P (s\<lparr>fault := True\<rparr>)"
    and f: "\<And>e. \<not> has (rt_flags e) RT_REPAIR \<Longrightarrow> stays P (f e)"
  shows "stays P (State_Monad.bind (rt_at p) f)"
  unfolding stays_def
proof (intro allI impI)
  fix s assume s: "P s"
  obtain e s1 where r: "run_state (rt_at p) s = (e, s1)" by force
  then have "P s1 \<and> \<not> has (rt_flags e) RT_REPAIR"
    using s assms(1) [OF s] assms(2) [OF s]
    by (auto simp: rt_at_def calm_def blank_rt_def has_def split: option.splits)
  then show "P (snd (run_state (State_Monad.bind (rt_at p) f) s))" using f [of e] r by (simp add: stays_def)
qed

lemma calm_rt_at [calm_first]:
  "(\<And>e. \<not> has (rt_flags e) RT_REPAIR \<Longrightarrow> stays calm (f e)) \<Longrightarrow> stays calm (State_Monad.bind (rt_at p) f)"
  by (rule stays_rt_at_flags) (auto simp: calm_def)

lemma calm_local_repair [calm_first]:
  "stays calm (f False) \<Longrightarrow> stays calm (State_Monad.bind (reads local_repair) f)"
  unfolding stays_def by (auto simp: calm_def)

lemma calm_else:
  "\<not> b \<Longrightarrow> stays P m' \<Longrightarrow> stays P (if b then m else m')"
  "\<not> b \<Longrightarrow> stays P m' \<Longrightarrow> stays P (if b \<and> c then m else m')"
  "\<not> b \<Longrightarrow> stays P (only_if b u)"
  by (simp_all add: stays_def)

lemma calm_off [calm_first]: "stays P (only_if (False \<and> c) u)"
  by (simp add: stays_def)

lemma calm_basic [stays_rule]:
  "stays calm (rt_at p)"
  "(\<And>e. \<not> has (rt_flags e) RT_REPAIR \<Longrightarrow> \<not> has (rt_flags (u e)) RT_REPAIR) \<Longrightarrow> stays calm (rt_upd p u)"
  "(\<And>x. t_handler x \<noteq> Some Local_repair_timeout \<Longrightarrow> t_handler (g x) \<noteq> Some Local_repair_timeout) \<Longrightarrow> stays calm (upd_timer t g)"
  "stays calm gettimeofday" "stays calm syscall" "stays calm (demand b)" "stays calm malloc"
  "stays calm (seek_at q)" "stays calm (seek_upd q v)" "stays calm crash"
  by (auto simp: stays_def calm_def rt_at_def rt_upd_def demand_def seek_at_def seek_upd_def split: option.split)

lemma calm_scan [stays_rule]: "stays calm (scan h test ps)"
  by (induction ps) (auto intro!: stays_rule simp: crash_def calm_def)

lemma calm_timers [stays_rule]:
  "stays calm (timer_remove t)" "stays calm (timer_add t)"
  "h \<noteq> Local_repair_timeout \<Longrightarrow> stays calm (timer_init t h d)"
  "h \<noteq> Local_repair_timeout \<Longrightarrow> stays calm (set_rt_handler p h)"
  unfolding timer_remove_def timer_add_def timer_init_def set_rt_handler_def
  by (auto intro!: stays_rule simp: calm_def)

lemma calm_timer_set [stays_rule]: "stays calm (timer_set_timeout t m)"
  unfolding timer_set_timeout_def by (auto intro!: stays_rule)

lemma calm_lists [stays_rule]:
  "stays calm (seek_list_check d)" "stays calm (seek_list_remove e)" "stays calm (seek_list_insert d sq ttl fl)"
  "stays calm (rreq_record_check a i)" "stays calm (rreq_blacklist_check a)"
  "stays calm (rreq_record_insert a i)" "stays calm (rreq_blacklist_insert a)"
  "stays calm (rreq_record_timeout p)" "stays calm (rreq_blacklist_timeout p)"
  unfolding seek_list_check_def seek_list_remove_def seek_list_insert_def rreq_record_check_def rreq_blacklist_check_def
    rreq_record_insert_def rreq_blacklist_insert_def rreq_record_timeout_def rreq_blacklist_timeout_def
  by (auto intro!: stays_rule simp: calm_def)

lemma calm_put [stays_rule]: "stays calm (put_msg i bs)" "stays calm aodv_socket_new_msg"
  "stays calm (aodv_socket_queue_msg len)" "stays calm (get8 i)" "stays calm (get32 i)" "stays calm (set_recv i bs)"
  unfolding put_msg_def aodv_socket_new_msg_def aodv_socket_queue_msg_def get8_def get32_def set_recv_def
  by (auto intro!: stays_rule simp: calm_def)

lemma calm_send [stays_rule]: "stays calm (rate_check ty now)" "stays calm (rt_table_check d)"
  unfolding rate_check_def rt_table_check_def Let_def
  by (auto intro!: stays_rule simp: calm_def split: option.splits prod.splits)

lemma calm_socket [stays_rule]: "stays calm (aodv_socket_send d len ttl)"
  unfolding aodv_socket_send_def by (auto intro!: stays_rule simp: calm_def)

lemma calm_nl_send:
  assumes "\<And>sq pid fl. framed pid (n\<lparr>nlmsg_seq := sq, nlmsg_pid := pid, nlmsg_flags := nlmsg_flags n OR NLM_F_ACK\<rparr>)"
  shows "stays calm (nl_send nl n)"
  using assms unfolding stays_def nl_send_def by (cases nl) (auto simp: calm_def)

lemma calm_nl [stays_rule]: "stays calm (nl_kernel_route act fls i d g nm me)"
  "stays calm (nl_send_no_route_found_msg d)" "stays calm (nl_send_del_route_msg d nh me)"
  "stays calm (nl_send_add_route_msg d nh me l fl i)" "stays calm nl_send_conf_msg"
proof -
  have r: "stays calm (nl_kernel_route act fls i d g nm me)" for act fls i d g nm me
    unfolding nl_kernel_route_def Let_def by (auto intro!: stays_rule calm_nl_send simp: framed_def split: prod.splits)
  have m: "stays calm (nl_send nl (aodv_msg_of ty b))"
    if "case b of Rt_msg r \<Rightarrow> ty \<in> {101, 102, 106} | Conf_msg c \<Rightarrow> ty = 109 | Rtm_msg r \<Rightarrow> False" for nl ty b
  proof (rule calm_nl_send)
    have "(1 :: int) OR 4 = 5" by simp
    then show "framed pid ((aodv_msg_of ty b)\<lparr>nlmsg_seq := sq, nlmsg_pid := pid,
        nlmsg_flags := nlmsg_flags (aodv_msg_of ty b) OR NLM_F_ACK\<rparr>)" for sq pid
      using that by (cases b) (auto simp: framed_def aodv_msg_of_def NLMSG_LENGTH_def NLMSG_ALIGN_def)
  qed
  show "stays calm (nl_kernel_route act fls i d g nm me)" by (rule r)
  show "stays calm (nl_send_no_route_found_msg d)" "stays calm (nl_send_del_route_msg d nh me)"
    "stays calm (nl_send_add_route_msg d nh me l fl i)" "stays calm nl_send_conf_msg"
    unfolding nl_send_no_route_found_msg_def nl_send_del_route_msg_def nl_send_add_route_msg_def nl_send_conf_msg_def Let_def
    by (auto intro!: stays_rule r m)
qed

lemma calm_rerr [stays_rule]:
  "stays calm (rerr_create fl d sq)" "stays calm (rerr_add_udest d sq)" "stays calm (first_prec e)"
  unfolding rerr_create_def rerr_add_udest_def first_prec_def Let_def by (auto intro!: stays_rule split: list.split)

lemma calm_mention [stays_rule]: "stays calm (rerr_mention fl e acc)"
  unfolding rerr_mention_def by (auto intro!: stays_rule split: prod.splits)

lemma calm_timeouts [stays_rule]: "stays calm (rt_table_update_timeout x l)" "stays calm (hello_timer_used p)"
  "stays calm (extend_route p now)"
  unfolding rt_table_update_timeout_def hello_timer_used_def extend_route_def Let_def by (auto intro!: stays_rule)

lemma calm_route_timeouts [stays_rule]: "stays calm (rt_table_update_route_timeouts f b)"
  unfolding rt_table_update_route_timeouts_def by (auto intro!: stays_rule)

lemma calm_rreq [stays_rule]: "stays calm (rreq_create fl d sq og)" "stays calm (rreq_send d sq ttl fl)"
  unfolding rreq_send_def rreq_create_def by (auto intro!: stays_rule simp: calm_def)

lemma calm_invalidate [stays_rule]: "stays calm (rt_table_invalidate x)"
  unfolding rt_table_invalidate_def
  by (rule calm_first | (rule calm_else, assumption) | rule stays_rule | simp add: calm_def)+

lemma calm_precursors [stays_rule]: "stays calm (precursor_list_destroy x)" "stays calm (precursor_add x a)"
  "stays calm (precursor_remove x a)"
  unfolding precursor_list_destroy_def precursor_add_def precursor_remove_def by (auto intro!: stays_rule)

lemma calm_delete [stays_rule]: "stays calm (rt_table_delete x)"
  unfolding rt_table_delete_def by (auto intro!: stays_rule simp: calm_def)

lemma calm_link_break_entry [stays_rule]: "stays calm (link_break_entry rt p acc)"
  unfolding link_break_entry_def by (rule calm_first | (rule calm_else, assumption) | rule stays_rule | simp)+

lemma calm_link_break [stays_rule]: "stays calm (neighbor_link_break x)"
  unfolding neighbor_link_break_def link_break_bucket_def link_break_send_def by (auto intro!: stays_rule)

section \<open>Inserting and updating\<close>

lemma mirrors_idle:
  assumes m: "mirrors h T" and e: "rt_state e = INVALID" and new: "h p = None" "\<And>q x. h q = Some x \<Longrightarrow> dest_addr x \<noteq> dest_addr e"
  shows "mirrors (h(p \<mapsto> e)) T"
proof -
  have "T(dest_addr e := None) = T"
  proof
    fix d
    have "T d = None" if "d = dest_addr e"
    proof (rule ccontr)
      assume "T d \<noteq> None"
      then obtain q x where "h q = Some x" "dest_addr x = d" using mirrorsD(3) [OF m] by blast
      then show False using new(2) that by blast
    qed
    then show "(T(dest_addr e := None)) d = T d" by simp
  qed
  moreover define v where "v = e\<lparr>rt_state := VALID, next_hop := 1\<rparr>"
  have v: "rt_state v = VALID" "next_hop v \<noteq> 0" "dest_addr v = dest_addr e" by (simp_all add: v_def)
  have "mirrors (h(p \<mapsto> v)) (T(dest_addr v \<mapsto> next_hop v))"
  proof (rule mirrors_announce [OF m])
    show "q = p" if "h q = Some x" "dest_addr x = dest_addr v" for q x using new(2) [OF that(1)] that(2) v by simp
    show "dest_addr x = dest_addr v" if "h p = Some x" for x using that new(1) by simp
  qed (use v in simp_all)
  then have "mirrors (h(p \<mapsto> v, p \<mapsto> e)) (T(dest_addr v \<mapsto> next_hop v, dest_addr v := None))"
    by (rule mirrors_withdraw) (use v e in auto)
  ultimately show ?thesis using v by simp
qed

lemma insert_known:
  assumes inv: "INV L n s" and no: "absent dest s" and env: "\<And>n. 0 \<le> env_ret s n"
  shows "known (snd (run_state (rt_table_insert dest nh hops seqno lifetime st flags) s)) =
    (env_ret s, (rts s)(brk s \<mapsto> new_entry dest nh hops seqno st flags),
     if st = INVALID then told (nl_out s) else (told (nl_out s))(dest \<mapsto> nh))"
proof -
  let ?s1 = "snd (run_state (rt_entry_new dest nh hops seqno st flags) s)"
  let ?p = "fst (run_state (rt_entry_new dest nh hops seqno st flags) s)"
  have k1: "env_ret ?s1 = env_ret s" "rts ?s1 = (rts s)(brk s \<mapsto> new_entry dest nh hops seqno st flags)" "nl_out ?s1 = nl_out s"
    by (simp_all add: rts_entry_new) (simp_all add: rt_entry_new_def hashing_def timer_init_def case_prod_beta)
  define rest where "rest life = do {
     only_if (life \<noteq> 0) (timer_set_timeout (Rt_timer ?p) (sint life));
     e \<leftarrow> rt_at ?p;
     only_if (rt_state e = VALID) (do { sk \<leftarrow> seek_list_check dest; seek_list_remove sk; return () }) }" for life :: u32
  have rest: "frame known (rest life)" for life unfolding rest_def by (auto intro!: frame_rule simp: known_def)
  have run: "snd (run_state (rt_table_insert dest nh hops seqno lifetime st flags) s)
      = snd (run_state (rt_entry_start ?p dest nh hops lifetime st flags) ?s1)"
    by (simp add: run_insert [OF inv no] case_prod_beta)
  show ?thesis
  proof (cases "st = INVALID")
    case True
    have "frame known (rt_entry_start ?p dest nh hops lifetime st flags)"
      unfolding rt_entry_start_def True by (auto intro!: frame_rule simp: known_def)
    then have "known (snd (run_state (rt_table_insert dest nh hops seqno lifetime st flags) s)) = known ?s1"
      unfolding run by (rule frameD)
    then show ?thesis using True k1 by (simp only: known_def simp_thms if_True)
  next
    case False
    let ?s2 = "?s1\<lparr>num_active := num_active ?s1 + 1\<rparr>"
    have "snd (run_state (rt_entry_start ?p dest nh hops lifetime st flags) ?s1) = snd (run_state (rest lifetime)
        (snd (run_state (nl_send_add_route_msg dest nh hops lifetime flags (dev_ifindex ?s2)) ?s2)))"
      using False by (simp add: rt_entry_start_def rest_def case_prod_beta)
    then show ?thesis using False known_tell(1) [of ?s2] env k1 by (simp add: run frameD [OF rest])
  qed
qed

lemma update_known:
  assumes e: "rts s p = Some e" and env: "\<And>n. 0 \<le> env_ret s n" and kept: "\<not> (1 < hops \<and> hopcnt e = 1)"
    and flags: "\<not> has (rt_flags e) RT_REPAIR"
  shows "known (snd (run_state (rt_table_update p next hops seqno lifetime VALID flags) s)) = (env_ret s,
    (rts s)(p \<mapsto> e\<lparr>rt_flags := flags, dest_seqno := seqno, next_hop := next, hopcnt := ucast hops, rt_state := VALID\<rparr>),
    if rt_state e = INVALID \<or> next_hop e \<noteq> 0 \<and> next_hop e \<noteq> next then (told (nl_out s))(dest_addr e \<mapsto> next) else told (nl_out s))"
proof -
  let ?a = "run_state (update_announce e (dev_ifindex s) next hops lifetime VALID flags) s"
  let ?e1 = "e\<lparr>rt_flags := flags, dest_seqno := seqno, next_hop := next, hopcnt := ucast hops\<rparr>"
  have fl: "fst ?a = flags" using flags by (simp add: update_announce_def case_prod_beta Let_def)
  have a: "known (snd ?a) = (env_ret s, rts s, if rt_state e = INVALID \<or> next_hop e \<noteq> 0 \<and> next_hop e \<noteq> next
      then (told (nl_out s))(dest_addr e \<mapsto> next) else told (nl_out s))"
    using known_tell(1) [of "s\<lparr>num_active := num_active s + 1\<rparr>"] known_tell(1) [of s] env flags
    by (simp add: update_announce_def case_prod_beta Let_def) (simp add: known_def)
  define mid where "mid = do {
     set_rt_handler p Route_expire_timeout;
     only_if (\<not> has flags RT_INET_DEST) (do { rt_table_update_timeout (Some p) lifetime; return () }) }"
  define post where "post = do { sk \<leftarrow> seek_list_check (dest_addr e); seek_list_remove sk; return () }"
  have f: "frame known mid" "frame known post" unfolding mid_def post_def by (auto intro!: frame_rule)
  let ?s1 = "(snd ?a)\<lparr>rts := (rts s)(p \<mapsto> ?e1)\<rparr>" let ?s2 = "snd (run_state mid ?s1)"
  have r: "rts (snd ?a) = rts s" using a by (simp add: known_def)
  have k2: "known ?s2 = known ?s1" by (rule frameD [OF f(1)])
  then have r2: "rts ?s2 p = Some ?e1" by (simp add: known_def)
  have "update_fields p (dest_addr e) next hops seqno lifetime VALID flags = do {
      rt_upd p (\<lambda>e. e\<lparr>rt_flags := flags, dest_seqno := seqno, next_hop := next, hopcnt := ucast hops\<rparr>);
      mid; rt_upd p (\<lambda>e. e\<lparr>rt_state := VALID\<rparr>); post }"
    by (simp add: update_fields_def mid_def post_def only_if_def)
  then have "snd (run_state (rt_table_update p next hops seqno lifetime VALID flags) s)
      = snd (run_state post (?s2\<lparr>rts := (rts ?s2)(p \<mapsto> ?e1\<lparr>rt_state := VALID\<rparr>)\<rparr>))"
    using e kept fl r r2 by (cases "hopcnt e = 1") (simp_all add: rt_table_update_def case_prod_beta)
  then show ?thesis using k2 a by (simp add: frameD [OF f(2)]) (simp add: known_def)
qed

definition synced :: "node \<Rightarrow> bool" where
  "synced s \<longleftrightarrow> in_step s \<and> calm s"

lemma stays_synced: "stays in_step m \<Longrightarrow> stays calm m \<Longrightarrow> stays synced m"
  by (simp add: stays_def synced_def)

lemma synced_upd: "rts s p = Some e \<Longrightarrow> calm s \<Longrightarrow> \<not> has (rt_flags e) RT_REPAIR"
  by (auto simp: calm_def)

lemma calm_update:
  assumes "\<not> has flags RT_REPAIR"
  shows "stays calm (rt_table_update p next hops seqno lifetime st flags)"
proof -
  have ann: "stays calm (State_Monad.bind (update_announce e i next hops lifetime st flags) f)"
    if "\<not> has (rt_flags e) RT_REPAIR" "stays calm (f flags)" for e i and f :: "u8 \<Rightarrow> ptr daemon"
    using that unfolding update_announce_def Let_def
    by (auto simp: bind_if bind_assoc intro!: stays_rule) (auto simp: calm_def)
  have fields: "stays calm (update_fields p d next hops seqno lifetime st flags)" for d
    using assms unfolding update_fields_def by (auto intro!: stays_rule)
  show ?thesis
    unfolding rt_table_update_def
    by (rule calm_first | (rule ann, assumption) | rule stays_rule fields | simp)+
qed

lemma calm_insert:
  assumes "\<not> has flags RT_REPAIR"
  shows "stays calm (rt_table_insert dest nh hops seqno lifetime st flags)"
proof -
  have new: "stays calm (rt_entry_new dest nh hops seqno st flags)"
    using assms unfolding rt_entry_new_def by (auto intro!: stays_rule simp: calm_def)
  have start: "stays calm (rt_entry_start p dest nh hops lifetime st flags)" for p
    unfolding rt_entry_start_def using assms
    by (intro stays_rule calm_else) (auto simp: calm_def intro!: stays_rule)
  show ?thesis unfolding rt_table_insert_def Let_def
    by (auto intro!: stays_rule new start split: prod.splits)
qed

lemma insert_synced:
  assumes inv: "INV L n s" and no: "absent dest s" and s: "synced s"
    and ok: "st \<in> {VALID, INVALID}" "nh \<noteq> 0 \<or> dest = 0" "\<not> has flags RT_REPAIR"
  shows "synced (snd (run_state (rt_table_insert dest nh hops seqno lifetime st flags) s))"
proof -
  let ?e = "new_entry dest nh hops seqno st flags"
  have env: "\<And>n. 0 \<le> env_ret s n" and m: "mirrors (rts s) (told (nl_out s))" and u: "calm s"
    using s by (auto simp: synced_def in_step_def)
  have b: "rts s (brk s) = None" using INV_fresh [OF inv] by auto
  have e: "dest_addr ?e = dest" "next_hop ?e = nh" "rt_state ?e = st" by (simp_all add: new_entry_def)
  have new: "\<And>q x. rts s q = Some x \<Longrightarrow> dest_addr x \<noteq> dest" using no by (simp add: absent_def)
  have "mirrors ((rts s)(brk s \<mapsto> ?e)) (if st = INVALID then told (nl_out s) else (told (nl_out s))(dest \<mapsto> nh))"
  proof (cases "st = INVALID")
    case True
    then show ?thesis using mirrors_idle [OF m _ b, of ?e] e new by simp
  next
    case False
    have "mirrors ((rts s)(brk s \<mapsto> ?e)) ((told (nl_out s))(dest_addr ?e \<mapsto> next_hop ?e))"
      by (rule mirrors_announce [OF m]) (use False ok e new b in auto)
    then show ?thesis using False e by simp
  qed
  then show ?thesis
    using in_step_known [OF insert_known [OF inv no env]] env calm_insert [OF ok(3)] u by (simp add: synced_def stays_def)
qed

lemma update_synced:
  assumes e: "rts s p = Some e" and s: "synced s" and kept: "\<not> (1 < hops \<and> hopcnt e = 1)"
    and ok: "next \<noteq> 0 \<or> dest_addr e = 0" "next_hop e = 0 \<longrightarrow> rt_state e = VALID \<longrightarrow> next = 0" "\<not> has flags RT_REPAIR"
  shows "synced (snd (run_state (rt_table_update p next hops seqno lifetime VALID flags) s))"
proof -
  let ?e = "e\<lparr>rt_flags := flags, dest_seqno := seqno, next_hop := next, hopcnt := ucast hops, rt_state := VALID\<rparr>"
  have env: "\<And>n. 0 \<le> env_ret s n" and m: "mirrors (rts s) (told (nl_out s))" and u: "calm s"
    using s by (auto simp: synced_def in_step_def)
  have "mirrors ((rts s)(p \<mapsto> ?e)) (if rt_state e = INVALID \<or> next_hop e \<noteq> 0 \<and> next_hop e \<noteq> next
      then (told (nl_out s))(dest_addr e \<mapsto> next) else told (nl_out s))"
  proof (cases "rt_state e = INVALID \<or> next_hop e \<noteq> 0 \<and> next_hop e \<noteq> next")
    case True
    have "mirrors ((rts s)(p \<mapsto> ?e)) ((told (nl_out s))(dest_addr ?e \<mapsto> next_hop ?e))"
    proof (rule mirrors_announce [OF m])
      show "q = p" if "rts s q = Some x" "dest_addr x = dest_addr ?e" for q x
        using mirrorsD(1) [OF m that(1) e] that(2) by simp
    qed (use ok e in auto)
    then show ?thesis using True by simp
  next
    case False
    then have "rt_state e = VALID" "next_hop e = next" using mirrorsD(4) [OF m e] ok(2) by auto
    then show ?thesis using mirrors_same [OF m e, of ?e] False by simp
  qed
  then show ?thesis
    using in_step_known [OF update_known [OF e env kept synced_upd [OF e u]]] env calm_update [OF ok(3)] u
    by (simp add: synced_def stays_def)
qed

section \<open>Handlers\<close>

lemma synced_rt_at:
  "(\<And>e. \<not> has (rt_flags e) RT_REPAIR \<Longrightarrow> stays synced (f e)) \<Longrightarrow> stays synced (State_Monad.bind (rt_at p) f)"
  by (rule stays_rt_at_flags) (auto simp: synced_def in_step_def calm_def)

lemmas stays_structure = stays_bind stays_return stays_cases stays_simple stays_loops

lemma synced_discovery: "stays synced (route_discovery_timeout x)"
  unfolding route_discovery_timeout_def
  by (rule synced_rt_at | (rule calm_else, assumption) | rule stays_structure | (rule stays_synced, rule stays_rule, rule stays_rule))+

lemma calm_handlers [stays_rule]:
  "stays calm (route_expire_timeout x)" "stays calm (hello_timeout x)"
  unfolding route_expire_timeout_def hello_timeout_def
  by (rule calm_first | rule stays_rule)+

lemma step_handlers [stays_rule]:
  "stays in_step (route_expire_timeout x)" "stays in_step (hello_timeout x)"
  unfolding route_expire_timeout_def hello_timeout_def by (auto intro!: stays_rule)

lemma calm_hello [stays_rule]: "stays calm hello_send" "stays calm hello_stop"
  unfolding hello_send_def hello_stop_def rrep_create_def by (auto intro!: stays_rule simp: calm_def)

lemma step_hello [stays_rule]: "stays in_step hello_send" "stays in_step hello_stop"
  unfolding hello_send_def hello_stop_def rrep_create_def by (auto intro!: stays_rule simp: in_step_def)

lemma synced_call: "f \<noteq> Local_repair_timeout \<Longrightarrow> stays synced (call f d)"
  using synced_discovery
  by (cases f; cases d)
    (auto intro!: stays_synced stays_rule simp: route_delete_timeout_def rrep_ack_timeout_def wait_on_reboot_timeout_def
      print_rt_table_def synced_def in_step_def calm_def)

text \<open>The timer loop keeps what the handlers keep that timers may have.\<close>

locale steady =
  fixes P :: "node \<Rightarrow> bool"
  assumes handlers: "P s \<Longrightarrow> t_handler (timers s t) = Some f \<Longrightarrow> stays P (call f (t_data (timers s t)))"
    and queues: "P s \<Longrightarrow> P (s\<lparr>tq := q\<rparr>)" "P s \<Longrightarrow> P (s\<lparr>exptq := e\<rparr>)" "P s \<Longrightarrow> P (s\<lparr>tick := i\<rparr>)"
    and unused: "P s \<Longrightarrow> P (s\<lparr>timers := (timers s)(t := (timers s t)\<lparr>t_used := False\<rparr>)\<rparr>)"
begin

lemma stays_expire: "stays P (expire_timer call t)"
  unfolding stays_def
proof (intro allI impI)
  fix s assume s: "P s"
  let ?s = "s\<lparr>exptq := remove1 t (exptq s), timers := (timers s)(t := (timers s t)\<lparr>t_used := False\<rparr>)\<rparr>"
  have p: "P ?s" using unused [OF queues(2) [OF s]] by simp
  show "P (snd (run_state (expire_timer call t) s))"
  proof (cases "t_handler (timers s t)")
    case (Some f)
    then show ?thesis using handlers [OF p, of t f] p by (simp add: expire_timer_def upd_timer_def stays_def)
  qed (use p in \<open>simp add: expire_timer_def upd_timer_def\<close>)
qed

lemma stays_run_expired: "stays P (run_expired call fuel)"
proof (induction fuel)
  case (Suc fuel)
  have "stays P (case q of [] \<Rightarrow> return () | t # x \<Rightarrow> do { expire_timer call t; run_expired call fuel })" for q
    using stays_bind [OF stays_expire] Suc by (cases q) (auto intro: stays_rule)
  then show ?case by (auto intro!: stays_rule)
qed (auto intro: stays_rule)

lemma stays_age_queue: "stays P (timer_age_queue call)"
proof -
  have m: "stays P (move_expired now)" for now
    unfolding move_expired_def Let_def using queues(1) [OF queues(2)] by (auto intro!: stays_rule)
  have t: "stays P (timer_timeout call now)" for now
    unfolding timer_timeout_def by (intro stays_rule m stays_run_expired)
  have "stays P gettimeofday" using queues(3) by (simp add: stays_def)
  then show ?thesis unfolding timer_age_queue_def by (auto intro!: stays_rule t split: list.split)
qed

end

lemma calm_handler: "calm s \<Longrightarrow> t_handler (timers s t) \<noteq> Some Local_repair_timeout"
  by (simp add: calm_def)

interpretation synced: steady synced
proof
  show "stays synced (call f (t_data (timers s t)))" if "synced s" "t_handler (timers s t) = Some f" for s t f
    using synced_call [of f] calm_handler [of s t] that by (simp add: synced_def)
qed (simp_all add: synced_def in_step_def calm_def)

lemma synced_requests:
  "stays synced (rreq_route_discovery d fl)" "stays synced (rreq_local_repair x a)" "stays synced (nl_send_rerr d a)"
proof -
  have "stays in_step (rreq_route_discovery d fl)" "stays calm (rreq_route_discovery d fl)"
    unfolding rreq_route_discovery_def by (auto intro!: stays_rule split: prod.split)
  then show "stays synced (rreq_route_discovery d fl)" by (rule stays_synced)
  have "stays in_step (rreq_local_repair x a)" "stays calm (rreq_local_repair x a)"
    unfolding rreq_local_repair_def by (auto intro!: stays_rule)
  then show "stays synced (rreq_local_repair x a)" by (rule stays_synced)
  have "stays in_step (nl_send_rerr d a)" "stays calm (nl_send_rerr d a)"
    unfolding nl_send_rerr_def by (auto intro!: stays_rule split: prod.split)
  then show "stays synced (nl_send_rerr d a)" by (rule stays_synced)
qed

lemma synced_callback: "stays synced (nl_kaodv_callback x)"
  unfolding nl_kaodv_callback_def
  by (auto intro!: stays_structure synced_requests intro: stays_synced stays_rule split: option.split kernel_msg.split)

lemma synced_hello_update: "stays synced (hello_update_timeout p now m)"
  unfolding hello_update_timeout_def by (rule stays_synced) (auto intro!: stays_rule)

lemma check_cases:
  assumes "INV L n s" and "n < 2 ^ 32"
  obtains (none) "run_state (rt_table_check d) s = (None, s)" "absent d s"
    | (some) p e where "run_state (rt_table_check d) s = (Some p, s)" "rts s p = Some e" "dest_addr e = d"
proof -
  obtain r where r: "run_state (rt_table_check d) s = (r, s)" "\<And>p. r = Some p \<longleftrightarrow> (\<exists>e. rts s p = Some e \<and> dest_addr e = d)"
    using run_rt_check [OF assms, of d] by blast
  show thesis
  proof (cases r)
    case None
    then show thesis using r none by (auto simp: absent_def)
  next
    case (Some p)
    then show thesis using r some by auto
  qed
qed

lemma refresh_synced:
  assumes s: "synced s" and e: "rts s p = Some e" and flags: "\<not> has flags RT_REPAIR"
  shows "synced (snd (run_state (rt_table_update p (dest_addr e) 1 seqno lifetime VALID flags) s))"
proof (rule update_synced [OF e s])
  show "next_hop e = 0 \<longrightarrow> rt_state e = VALID \<longrightarrow> dest_addr e = 0"
    using s e mirrorsD(2) [of "rts s" "told (nl_out s)" p e] by (auto simp: synced_def in_step_def)
qed (use flags in auto)

lemma neighbor_add_synced:
  assumes inv: "INV L n s" and n: "n < 2 ^ 32" and s: "synced s"
  shows "synced (snd (run_state (neighbor_add src) s))"
proof -
  let ?s = "s\<lparr>tick := Suc (tick s)\<rparr>"
  have i: "INV L n ?s" using inv by simp
  have sy: "synced ?s" using s by (simp add: synced_def in_step_def calm_def)
  have tail: "stays synced (do { used \<leftarrow> hello_timer_used rt;
      only_if used (hello_update_timeout rt (env_time s (tick s)) (ALLOWED_HELLO_LOSS * HELLO_INTERVAL)) })" for rt
    by (intro stays_structure synced_hello_update stays_synced [OF stays_rule(1)] ) (auto intro!: stays_rule stays_synced)
  let ?art = "of_int (active_route_timeout s) :: u32"
  show ?thesis
  proof (rule check_cases [OF i n, of src])
    assume c: "run_state (rt_table_check src) ?s = (None, ?s)" and no: "absent src ?s"
    have "snd (run_state (neighbor_add src) s) = snd (run_state (do { used \<leftarrow> hello_timer_used (brk s);
        only_if used (hello_update_timeout (brk s) (env_time s (tick s)) (ALLOWED_HELLO_LOSS * HELLO_INTERVAL)) })
        (snd (run_state (rt_table_insert src src 1 0 ?art VALID 0) ?s)))"
      using insert_rts [OF i no, of src 1 0 ?art VALID 0] c by (simp add: neighbor_add_def deref_def case_prod_beta)
    moreover have "synced (snd (run_state (rt_table_insert src src 1 0 ?art VALID 0) ?s))"
      by (rule insert_synced [OF i no sy]) (auto simp: has_def)
    ultimately show ?thesis using tail by (simp add: stays_def)
  next
    fix p e assume c: "run_state (rt_table_check src) ?s = (Some p, ?s)" and e: "rts ?s p = Some e" and d: "dest_addr e = src"
    show ?thesis
    proof (cases "has (rt_flags e) RT_UNIDIR")
      case True
      then show ?thesis using c e sy by (simp add: neighbor_add_def)
    next
      case False
      have "snd (run_state (neighbor_add src) s) = snd (run_state (do { used \<leftarrow> hello_timer_used p;
        only_if used (hello_update_timeout p (env_time s (tick s)) (ALLOWED_HELLO_LOSS * HELLO_INTERVAL)) })
        (snd (run_state (rt_table_update p src 1 (dest_seqno e) ?art VALID (rt_flags e)) ?s)))"
        using c e False by (simp add: neighbor_add_def case_prod_beta)
      moreover have "synced (snd (run_state (rt_table_update p src 1 (dest_seqno e) ?art VALID (rt_flags e)) ?s))"
        using refresh_synced [OF sy e synced_upd [OF e]] sy d by (simp add: synced_def)
      ultimately show ?thesis using tail by (simp add: stays_def)
    qed
  qed
qed

section \<open>Receiving\<close>

lemma hello_process_synced:
  assumes inv: "INV L n s" and n: "n < 2 ^ 32" and s: "synced s"
  shows "synced (snd (run_state hello_process s))"
proof -
  let ?s = "s\<lparr>tick := Suc (tick s)\<rparr>" and ?d = "peek32 4 (recv_buf s)" and ?q = "ntohl (peek32 8 (recv_buf s))"
  let ?now = "env_time s (tick s)" and ?t = "of_int (ALLOWED_HELLO_LOSS * HELLO_INTERVAL + ROUTE_TIMEOUT_SLACK) :: u32"
  let ?st = "if receive_n_hellos s \<noteq> 0 then INVALID else VALID"
  have i: "INV L n ?s" using inv by simp
  have sy: "synced ?s" using s by (simp add: synced_def in_step_def calm_def)
  have g: "run_state (get32 4) ?s = (?d, ?s)" "run_state (get32 8) ?s = (peek32 8 (recv_buf s), ?s)"
    using INV_buffers [OF inv] by (simp_all add: run_get32)
  show ?thesis
  proof (rule check_cases [OF i n, of ?d])
    assume c: "run_state (rt_table_check ?d) ?s = (None, ?s)" and no: "absent ?d ?s"
    have ins: "fst (run_state (rt_table_insert ?d ?d 1 ?q ?t ?st 0) ?s) = Some (brk s)"
      using insert_rts [OF i no] by simp
    have "snd (run_state hello_process s) = snd (run_state (rt_upd (brk s) (\<lambda>e. e\<lparr>hello_cnt := 1\<rparr>))
        (snd (run_state (rt_table_insert ?d ?d 1 ?q ?t ?st 0) ?s)))"
      using c ins by (simp add: hello_process_def Let_def g deref_def case_prod_beta)
    moreover have "synced (snd (run_state (rt_table_insert ?d ?d 1 ?q ?t ?st 0) ?s))"
      by (rule insert_synced [OF i no sy]) (auto simp: has_def)
    moreover have "stays synced (rt_upd (brk s) (\<lambda>e. e\<lparr>hello_cnt := 1\<rparr>))" by (rule stays_synced) (auto intro!: stays_rule)
    ultimately show ?thesis by (simp add: stays_def)
  next
    fix p e assume c: "run_state (rt_table_check ?d) ?s = (Some p, ?s)" and e: "rts ?s p = Some e" and d: "dest_addr e = ?d"
    have fl: "\<not> has (rt_flags e) RT_REPAIR" using sy synced_upd [OF e] by (simp add: synced_def)
    let ?h = "has (rt_flags e) RT_UNIDIR \<and> rt_state e = VALID \<and> hopcnt e > 1"
    let ?c = "receive_n_hellos s \<noteq> 0 \<and> int (unat (hello_cnt e)) < receive_n_hellos s - 1"
    let ?u = "rt_table_update p ?d 1 ?q ?t VALID (rt_flags e)"
    have run: "snd (run_state hello_process s) = snd (run_state (if ?h then hello_update_timeout p ?now (ALLOWED_HELLO_LOSS * HELLO_INTERVAL)
        else if ?c then rt_upd p (\<lambda>e. e\<lparr>hello_cnt := (if timeval_diff ?now (last_hello_time e) < HELLO_INTERVAL + HELLO_INTERVAL div 2
                then hello_cnt e + 1 else 1), last_hello_time := ?now\<rparr>)
        else do { ?u; hello_update_timeout p ?now (ALLOWED_HELLO_LOSS * HELLO_INTERVAL) }) ?s)"
      using c e by (simp add: hello_process_def Let_def g case_prod_beta)
    have upd: "stays synced (rt_upd p (\<lambda>e. e\<lparr>hello_cnt := (if timeval_diff ?now (last_hello_time e) < HELLO_INTERVAL + HELLO_INTERVAL div 2
                then hello_cnt e + 1 else 1), last_hello_time := ?now\<rparr>))" by (rule stays_synced) (auto intro!: stays_rule)
    have "synced (snd (run_state ?u ?s))" using refresh_synced [OF sy e fl] d by simp
    then show ?thesis
      unfolding run using synced_hello_update upd sy by (simp add: stays_def case_prod_beta)
  qed
qed

lemma step_rerr [stays_rule]: "stays in_step (rerr_udest i src acc)" "stays in_step (rerr_finish made uni)"
  unfolding rerr_udest_def rerr_lost_def rerr_finish_def Let_def by (auto intro!: stays_rule)

lemma calm_rerr_lost: "stays calm (rerr_lost rt sq n acc)"
  unfolding rerr_lost_def by (auto intro!: stays_rule)

lemma calm_rerr_process [stays_rule]: "stays calm (rerr_udest i src acc)" "stays calm (rerr_finish made uni)"
  unfolding rerr_udest_def rerr_finish_def Let_def by (auto intro!: stays_rule calm_rerr_lost)

lemma synced_udests: "stays synced (rerr_udests fuel i src acc)"
proof (induction fuel arbitrary: i acc)
  case (Suc fuel)
  have "stays synced (get8 3)" "stays synced (set_recv 3 bs)" "stays synced (rerr_udest i src acc)" for bs
    by (auto intro!: stays_synced stays_rule)
  then show ?case using Suc by (auto intro!: stays_structure)
qed (auto intro: stays_return)

lemma synced_rerr_process: "stays synced (rerr_process len src dst)"
proof -
  have "stays synced (get8 3)" "stays synced (rerr_finish made uni)" for made uni by (auto intro!: stays_synced stays_rule)
  then show ?thesis unfolding rerr_process_def using synced_udests
    by (auto intro!: stays_structure)
qed

lemma synced_rrep_ack: "stays synced (rrep_ack_process src)"
  unfolding rrep_ack_process_def by (rule stays_synced) (auto intro!: stays_rule)

text \<open>Adding the sender leaves the received message alone.\<close>

lemma recv_socket: "frame recv_buf (aodv_socket_send d len ttl)"
  unfolding aodv_socket_send_def rate_check_def Let_def
  by (auto intro!: frame_rule split: option.splits prod.splits)

lemmas recv_ops = bufs_table [THEN recv_of_bufs] bufs_table_ops [THEN recv_of_bufs] bufs_rt_upd [THEN recv_of_bufs]
  bufs_nl_route [THEN recv_of_bufs] bufs_seek [THEN recv_of_bufs] bufs_timer_set [THEN recv_of_bufs] bufs_timer [THEN recv_of_bufs]

lemma recv_link_break: "frame recv_buf (neighbor_link_break x)"
  unfolding neighbor_link_break_def link_break_bucket_def link_break_send_def link_break_entry_def rerr_mention_def
  by (auto intro!: frame_rule recv_socket recv_ops split: prod.splits)

lemma recv_update: "frame recv_buf (rt_table_update p d hops sq lt st fl)"
  unfolding rt_table_update_def update_announce_def update_fields_def Let_def
  by (auto intro!: frame_rule recv_link_break recv_ops split: prod.splits)

lemma recv_neighbor_add: "frame recv_buf (neighbor_add src)"
  unfolding neighbor_add_def deref_def crash_def hello_timer_used_def hello_update_timeout_def Let_def
  by (auto intro!: frame_rule recv_update recv_ops split: prod.splits)

text \<open>
  What may arrive without an update of a route to more hops: no RREQ, and of the RREPs only the
  HELLO, which is broadcast with a TTL of 1. An empty datagram would be read as the last one.
\<close>

definition quiet_datagram :: "u8 list \<Rightarrow> cmsg list \<Rightarrow> bool" where
  "quiet_datagram bytes cs \<longleftrightarrow> bytes \<noteq> [] \<and> hd bytes \<noteq> AODV_RREQ \<and>
     (hd bytes = AODV_RREP \<longrightarrow> scan_cmsgs cs (- 1, 0xffffffff) = (1, AODV_BROADCAST))"

definition quiet :: "event \<Rightarrow> bool" where
  "quiet ev = (case ev of Datagram (Received bytes src cs) \<Rightarrow> quiet_datagram bytes cs | _ \<Rightarrow> True)"

lemma package_process_synced:
  assumes inv: "INV L n s" and n: "n < 126" and L: "\<And>p. Seek p \<notin> L" and s: "synced s"
    and ty: "recv_buf s ! 0 \<noteq> AODV_RREQ" "recv_buf s ! 0 = AODV_RREP \<Longrightarrow> ttl = 1 \<and> dst = AODV_BROADCAST"
  shows "synced (snd (run_state (aodv_socket_package_process len src dst ttl) s))"
proof -
  let ?c = "recv_buf s ! 0 = AODV_RREP \<and> ttl = 1 \<and> dst = AODV_BROADCAST"
  define s1 where "s1 = (if ?c then s\<lparr>recv_buf := poke 0 [AODV_HELLO] (recv_buf s)\<rparr> else s)"
  have len: "length (recv_buf s) = 1024" using INV_buffers [OF inv] by simp
  have i1: "INV L n s1" using INV_recv_buf [OF inv, of "poke 0 [AODV_HELLO] (recv_buf s)"] inv len by (simp add: s1_def)
  have sy1: "synced s1" using s by (simp add: s1_def synced_def in_step_def calm_def)
  have t1: "recv_buf s1 ! 0 \<notin> {AODV_RREQ, AODV_RREP}" "length (recv_buf s1) = 1024"
    using ty len by (auto simp: s1_def nth_poke)
  let ?s2 = "snd (run_state (neighbor_add src) s1)"
  have i2: "INV L (Suc n) ?s2" using spec_snd [OF keeps_neighbor_add [OF n L] i1] .
  have sy2: "synced ?s2" using neighbor_add_synced [OF i1 _ sy1] n by simp
  have r2: "recv_buf ?s2 = recv_buf s1" using frameD [OF recv_neighbor_add] .
  let ?m = "if recv_buf s1 ! 0 = AODV_HELLO then hello_process
    else if recv_buf s1 ! 0 = AODV_RERR then rerr_process len src dst
    else if recv_buf s1 ! 0 = AODV_RREP_ACK then rrep_ack_process src else return ()"
  have "snd (run_state (aodv_socket_package_process len src dst ttl) s) = snd (run_state ?m ?s2)"
  proof -
    have first: "run_state (only_if ?c (set_recv 0 [AODV_HELLO])) s = ((), s1)" using len by (simp add: s1_def run_set_recv)
    have "run_state (get8 0) s = (recv_buf s ! 0, s)" "run_state (get8 0) ?s2 = (recv_buf s1 ! 0, ?s2)"
      using len t1(2) r2 by (simp_all add: run_get8)
    then have "snd (run_state (aodv_socket_package_process len src dst ttl) s) = snd (run_state
        (let ty = recv_buf s1 ! 0 in if ty = AODV_HELLO then hello_process
     else if ty = AODV_RREQ then rreq_process len src dst ttl
     else if ty = AODV_RREP then rrep_process len src dst ttl
     else if ty = AODV_RERR then rerr_process len src dst
     else if ty = AODV_RREP_ACK then rrep_ack_process src
     else return ()) ?s2)"
      by (simp only: aodv_socket_package_process_def run_state_bind first prod.case Let_def case_prod_beta fst_conv snd_conv)
    then show ?thesis using t1(1) by (simp only: Let_def insert_iff empty_iff if_False simp_thms de_Morgan_disj)
  qed
  moreover have "synced (snd (run_state ?m ?s2))"
    using hello_process_synced [OF i2 _ sy2] n synced_rerr_process synced_rrep_ack sy2 by (simp add: stays_def)
  ultimately show ?thesis by simp
qed

lemma handle_synced:
  assumes inv: "INV L n s" and n: "n < 126" and L: "\<And>p. Seek p \<notin> L" and s: "synced s" and q: "quiet ev"
  shows "synced (snd (run_state (handle ev) s))"
proof (cases ev)
  case (Kernel m)
  then show ?thesis using synced_callback s by (simp add: handle_def stays_def)
next
  case (Datagram r)
  show ?thesis
  proof (cases r)
    case (Received bytes src cs)
    let ?s1 = "s\<lparr>recv_buf := poke 0 (take BUF_SIZE bytes) (recv_buf s)\<rparr>"
    let ?m = "scan_cmsgs cs (- 1, 0xffffffff)"
    have len: "length (recv_buf s) = 1024" using INV_buffers [OF inv] by simp
    have i1: "INV L n ?s1" using INV_recv_buf [OF inv] len by simp
    have sy1: "synced ?s1" using s by (simp add: synced_def in_step_def calm_def)
    have q: "quiet_datagram bytes cs" using q Datagram Received by (simp add: quiet_def)
    then have t: "recv_buf ?s1 ! 0 = hd bytes" using len by (cases bytes) (auto simp: nth_poke quiet_datagram_def)
    have "synced (snd (run_state (aodv_socket_package_process l src (snd ?m) (fst ?m)) ?s1))" for l
      by (rule package_process_synced [OF i1 n L sy1]) (use t q in \<open>auto simp: quiet_datagram_def\<close>)
    moreover have "snd (run_state (handle ev) s) = (if fst ?m < 0 \<or> dev_enabled s \<and> src = dev_ipaddr s then ?s1
        else snd (run_state (aodv_socket_package_process (int (length (take BUF_SIZE bytes))) src (snd ?m) (fst ?m)) ?s1))"
      using len by (auto simp: handle_def Datagram Received aodv_socket_read_def run_set_recv Let_def case_prod_beta)
    ultimately show ?thesis using sy1 by simp
  qed (use s Datagram in \<open>simp add: handle_def aodv_socket_read_def\<close>)
qed (use s in \<open>simp add: handle_def\<close>)

lemma handle_all_synced:
  assumes L: "\<And>p. Seek p \<notin> L"
  shows "INV L n s \<Longrightarrow> n + 2 * length evs \<le> 126 \<Longrightarrow> synced s \<Longrightarrow> \<forall>ev \<in> set evs. quiet ev \<Longrightarrow>
    synced (snd (run_state (for_each handle evs) s))"
proof (induction evs arbitrary: n s)
  case (Cons ev evs)
  have n: "n < 125" using Cons.prems by simp
  have "INV L (Suc (Suc n)) (snd (run_state (handle ev) s))" using spec_snd [OF handle_keeps [OF n L] Cons.prems(1)] .
  moreover have "synced (snd (run_state (handle ev) s))"
    using Cons.prems n by (intro handle_synced [where L = L and n = n] L) auto
  ultimately show ?case using Cons.IH [of "Suc (Suc n)"] Cons.prems by (simp add: case_prod_beta)
qed simp

lemma turn_synced:
  assumes inv: "INV {Waiting 0} n s" and n: "n + 2 * length evs \<le> 126" and s: "synced s" and q: "\<forall>ev \<in> set evs. quiet ev"
  shows "synced (snd (run_state (main_turn evs) s))"
proof -
  let ?s = "snd (run_state (timer_age_queue call) s)"
  have "INV {Waiting 0} n ?s" using spec_snd [OF keeps_age_queue inv] n by simp
  moreover have "synced ?s" using synced.stays_age_queue s by (simp add: stays_def)
  ultimately show ?thesis
    using handle_all_synced [of "{Waiting 0}" n ?s evs] n q by (simp add: main_turn_def case_prod_beta)
qed

end
