(* ===== verification/Flood.thy ===== *)
theory Flood
  imports Mirror
begin

text \<open>
  What the two messages of a route discovery do at a node that hears of the sender for the first
  time: a RREQ on its way to another node, and the RREP that ends the node's own search.
\<close>

section \<open>What the tables leave alone\<close>

abbreviation outer :: "node \<Rightarrow> _" where
  "outer \<equiv> \<lambda>s. ((send_buf s, recv_buf s), sent s, (num_rreq s, rreq_ratelimit s, ratelimit s), (env_ret s, env_time s),
     (dev_ipaddr s, wait_on_reboot s))"

abbreviation whole :: "node \<Rightarrow> _" where
  "whole \<equiv> \<lambda>s. (outer s, recs s)"

lemma whole_timer [frame_rule]:
  "frame whole (upd_timer t g)" "frame whole (timer_init t h d)" "frame whole (timer_remove t)"
  "frame whole (timer_add t)"
  unfolding timer_init_def timer_remove_def timer_add_def upd_timer_def
  by (auto intro!: frame_rule)

lemma whole_timer_set [frame_rule]: "frame whole (timer_set_timeout t m)" "frame whole (set_rt_handler p h)"
  unfolding timer_set_timeout_def set_rt_handler_def by (auto intro!: frame_rule)

lemma whole_nl [frame_rule]: "frame whole (nl_send nl m)" "frame whole (nl_kernel_route a f i d g nm me)"
  "frame whole (nl_send_add_route_msg d nh me l fl i)"
proof -
  show n: "frame whole (nl_send nl m)" for nl m unfolding frame_def nl_send_def by (auto split: nlsock.splits)
  show k: "frame whole (nl_kernel_route a f i d g nm me)" for a f i d g nm me
    unfolding nl_kernel_route_def Let_def by (auto intro!: frame_rule n split: prod.splits)
  show "frame whole (nl_send_add_route_msg d nh me l fl i)"
    unfolding nl_send_add_route_msg_def Let_def by (auto intro!: frame_rule n k)
qed

lemma whole_seek [frame_rule]: "frame whole (seek_list_check d)" "frame whole (seek_list_remove e)"
  unfolding seek_list_check_def seek_list_remove_def by (auto intro!: frame_rule)

lemma whole_insert [frame_rule]: "frame whole (rt_entry_new d nh hops sq st fl)"
  "frame whole (rt_entry_start p d nh hops lt st fl)" "frame whole (rt_table_insert d nh hops sq lt st fl)"
proof -
  show n: "frame whole (rt_entry_new d nh hops sq st fl)"
    unfolding rt_entry_new_def malloc_def by (auto intro!: frame_rule simp: frame_def [of _ "State _"] split: prod.splits)
  show e: "frame whole (rt_entry_start p d nh hops lt st fl)" for p
    unfolding rt_entry_start_def by (auto intro!: frame_rule)
  show "frame whole (rt_table_insert d nh hops sq lt st fl)"
    unfolding rt_table_insert_def Let_def by (auto intro!: frame_rule n e split: prod.splits)
qed

lemma whole_outer: "frame whole m \<Longrightarrow> frame outer m"
  by (simp add: frame_def)

lemma outer_record: "frame outer (rreq_record_insert og i)"
  unfolding rreq_record_insert_def rreq_record_check_def malloc_def
  by (auto intro!: frame_rule whole_timer [THEN whole_outer] whole_timer_set [THEN whole_outer] simp: frame_def [of _ "State _"])

lemma rts_record [frame_rule]: "frame rts (rreq_record_insert og i)"
  unfolding rreq_record_insert_def rreq_record_check_def malloc_def
  by (auto intro!: frame_rule simp: frame_def [of _ "State _"])

section \<open>A RREQ that is passed on\<close>

lemma record_insert_recs:
  assumes "run_state (rreq_record_check og i) s = (None, s)"
  shows "\<exists>q. recs (snd (run_state (rreq_record_insert og i) s)) q = Some \<lparr>rec_orig_addr = og, rec_rreq_id = i\<rparr>"
proof -
  have "recs (snd (run_state (timer_set_timeout t m) u)) = recs u" "recs (snd (run_state (timer_init t h d) u)) = recs u"
    for t m h d u using frameD [OF whole_timer_set(1)] frameD [OF whole_timer(2)] by simp_all
  then show ?thesis using assms by (intro exI [of _ "brk s"]) (simp add: rreq_record_insert_def case_prod_beta)
qed

lemma send_rreq:
  assumes env: "\<And>n. 0 \<le> env_ret s n" and len: "len \<le> length (send_buf s)" and ty: "send_buf s ! 0 = AODV_RREQ"
    and room: "num_rreq s < RREQ_RATELIMIT"
  shows "sent (snd (run_state (aodv_socket_send dest len ttl) s))
    = sent s @ [\<lparr>pk_dest = dest, pk_ttl = ttl, pk_data = take len (send_buf s)\<rparr>]"
proof -
  have e: "\<not> env_ret s n < 0" for n using env by (simp add: not_less)
  show ?thesis using len ty room e
    by (cases "ratelimit s") (simp_all add: aodv_socket_send_def rate_check_def rate_step_def Let_def)
qed

lemma forward_sends:
  assumes env: "\<And>n. 0 \<le> env_ret s n" and b: "length (send_buf s) = 1024" "length (recv_buf s) = 1024"
    and len: "4 \<le> len" "len \<le> 1024" and ty: "recv_buf s ! 0 = AODV_RREQ" and room: "num_rreq s < RREQ_RATELIMIT"
  shows "sent (snd (run_state (rreq_forward len ttl) s))
    = sent s @ [\<lparr>pk_dest = AODV_BROADCAST, pk_ttl = ttl, pk_data = (take len (recv_buf s))[3 := recv_buf s ! 3 + 1]\<rparr>]"
proof -
  let ?b = "poke 0 (take len (recv_buf s)) (send_buf s)"
  let ?c = "poke 3 [recv_buf s ! 3 + 1] ?b"
  have l: "length ?b = 1024" "length ?c = 1024" using b len by simp_all
  have at: "?b ! 3 = recv_buf s ! 3" "?c ! 0 = AODV_RREQ" using b len ty by (simp_all add: nth_poke)
  have t: "take len ?c = (take len (recv_buf s))[3 := recv_buf s ! 3 + 1]"
    by (rule nth_equalityI) (use b len in \<open>auto simp: nth_poke nth_list_update\<close>)
  have "snd (run_state (rreq_forward len ttl) s)
      = snd (run_state (aodv_socket_send AODV_BROADCAST len ttl) (s\<lparr>send_buf := ?c\<rparr>))"
    using b len at(1) l by (simp add: rreq_forward_def aodv_socket_queue_msg_def put_msg_def min_def)
  then show ?thesis
    using send_rreq [of "s\<lparr>send_buf := ?c\<rparr>" len AODV_BROADCAST ttl] env l len at(2) room t by simp
qed

lemma whole_rreq_forward: "frame (\<lambda>s. (rts s, recs s, recv_buf s, dev_ipaddr s)) (rreq_forward len ttl)"
  unfolding rreq_forward_def aodv_socket_queue_msg_def put_msg_def aodv_socket_send_def rate_check_def Let_def
  by (auto intro!: frame_rule split: option.splits prod.splits)

lemma check_absent:
  assumes "INV L n s" and "n < 2 ^ 32" and "absent d s" shows "run_state (rt_table_check d) s = (None, s)"
proof -
  obtain r where r: "run_state (rt_table_check d) s = (r, s)" "\<And>p. r = Some p \<longleftrightarrow> (\<exists>e. rts s p = Some e \<and> dest_addr e = d)"
    using run_rt_check [OF assms(1,2), of d] by blast
  then show ?thesis using assms(3) by (cases r) (auto simp: absent_def)
qed


text \<open>The RREQ of node 5 for node 9, and its reply, as bytes.\<close>

definition heard_rreq :: buffer where
  "heard_rreq = poke 16 (le32 5) (poke 8 (le32 9) (AODV_RREQ # replicate 1023 0))"

lemma heard_rreq_fields: "length heard_rreq = 1024" "heard_rreq ! 0 = AODV_RREQ" "heard_rreq ! 3 = 0"
  "peek32 16 heard_rreq = 5" "peek32 8 heard_rreq = 9"
  by (simp_all add: heard_rreq_def nth_poke peek32_le32 peek32_poke_other)

lemma node0_hears:
  assumes "length b = 1024"
  shows "wf (node0\<lparr>recv_buf := b\<rparr>)" "length (all_rts (tbl (node0\<lparr>recv_buf := b\<rparr>))) < 126"
    "absent d (node0\<lparr>recv_buf := b\<rparr>)" "env_ret node0 n = 0" "dev_ipaddr node0 = 0" "num_rreq node0 = 0"
    "recs node0 = Map.empty" "bls node0 = Map.empty" "sent node0 = []" "rts node0 = Map.empty" "nl_out node0 = []"
  using INV_wf [OF INV_recv_buf [OF node0_INV]] INV_size [OF node0_INV] assms
  by (auto simp: node0_def globals_def absent_def all_rts_def)


section \<open>A RREP that ends a search\<close>

lemma stops_search:
  assumes w: "wf s"
  shows "unsought d (snd (run_state (do { sk \<leftarrow> seek_list_check d; seek_list_remove sk; return () }) s))"
proof (cases "fst (run_state (seek_list_check d) s)")
  case None
  then have "unsought d s" using sk.check_None_iff [OF w, of d] by (auto simp: unsought_def)
  then show ?thesis using None sk.check_state [OF w, of d] by (simp add: case_prod_beta seek_list_remove_def)
next
  case (Some q)
  obtain e where e: "seeks s q = Some e" "sk_dest_addr e = d" using sk.check_Some_iff [OF w] Some by blast
  have "sk_dest_addr e' \<noteq> d" if "seeks s q' = Some e'" "q' \<noteq> q" for q' e'
    using that e w sk.check_Some_iff [OF w, of d q'] Some by auto
  moreover have "frame seeks (timer_remove t)" for t unfolding timer_remove_def upd_timer_def by (auto intro!: frame_rule)
  ultimately have "unsought d (s'\<lparr>seeks := (seeks s')(q := None)\<rparr>)" if "seeks s' = seeks s" for s'
    using that by (auto simp: unsought_def)
  then show ?thesis
    using Some sk.check_state [OF w, of d] frameD [OF \<open>\<And>t. frame seeks (timer_remove t)\<close>]
    by (simp add: case_prod_beta seek_list_remove_def)
qed

lemma entry_start_stops:
  assumes inv: "INV L n s" and L: "\<And>p. Seek p \<notin> L" "Rt p \<in> L" and e: "rts s p = Some e" "rt_state e = VALID"
  shows "unsought dest (snd (run_state (rt_entry_start p dest nh hops lt VALID fl) s))"
proof -
  let ?stop = "do { sk \<leftarrow> seek_list_check dest; seek_list_remove sk; return () }"
  define pre where "pre = do { modify (\<lambda>s. s\<lparr>num_active := num_active s + 1\<rparr>); ifindex \<leftarrow> reads dev_ifindex;
    nl_send_add_route_msg dest nh hops lt fl ifindex; only_if (lt \<noteq> 0) (timer_set_timeout (Rt_timer p) (sint lt)) }"
  have run: "run_state (rt_entry_start p dest nh hops lt VALID fl) s
      = run_state (do { pre; e \<leftarrow> rt_at p; only_if (rt_state e = VALID) ?stop }) s"
    by (simp add: rt_entry_start_def pre_def case_prod_beta)
  let ?s = "snd (run_state pre s)"
  have k: "spec (INV L n) pre (\<lambda>_. INV L n)"
    unfolding pre_def by (insert L) (rule keeps_first | rule keeps_rule | simp)+
  have w: "wf ?s" using INV_wf [OF spec_snd [OF k inv]] .
  have "frame rts pre" unfolding pre_def by (auto intro!: frame_rule)
  then have "rts ?s p = Some e" using e(1) by (simp add: frameD)
  then have "snd (run_state (rt_entry_start p dest nh hops lt VALID fl) s) = snd (run_state ?stop ?s)"
    unfolding run using e(2) by (simp add: rt_at_def case_prod_beta)
  then show ?thesis using stops_search [OF w] by (simp only:)
qed

lemma insert_stops:
  assumes inv: "INV L n s" and L: "\<And>p. Seek p \<notin> L" and no: "absent dest s"
  shows "unsought dest (snd (run_state (rt_table_insert dest nh hops sq lt VALID fl) s))"
proof -
  let ?s = "snd (run_state (rt_entry_new dest nh hops sq VALID fl) s)"
  have p: "fst (run_state (rt_entry_new dest nh hops sq VALID fl) s) = brk s" by (rule rts_entry_new(2))
  have "INV (insert (Rt (brk s)) L) (Suc n) ?s"
    using specD [OF rt_entry_new_keeps [of L n dest nh hops sq VALID fl], of s "brk s" ?s] inv no p by (simp add: prod_eq_iff)
  moreover have "rts ?s (brk s) = Some (new_entry dest nh hops sq VALID fl)" by (simp add: rts_entry_new(1))
  ultimately show ?thesis
    using entry_start_stops [of "insert (Rt (brk s)) L" "Suc n" ?s "brk s" _ dest nh hops lt fl] L
    by (simp add: run_insert [OF inv no] case_prod_beta p new_entry_def)
qed

lemma ack_frame: "frame (\<lambda>s. (rts s, seeks s, nl_out s)) (rrep_send_ack x)"
  unfolding rrep_send_ack_def rrep_ack_create_def deref_def crash_def aodv_socket_new_msg_def put_msg_def set_recv_def get8_def
    aodv_socket_send_def rate_check_def Let_def
  by (auto intro!: frame_rule split: option.splits prod.splits)



end
