(* ===== verification/Mirror_Runs.thy ===== *)
theory Mirror_Runs
  imports Mirror
begin

text \<open>
  From the daemon's table to the module's: \<open>quiet_run\<close> are the runs in which only quiet messages arrive,
  \<open>receive_all\<close> is the module reading messages one after the other. The last part is the update that
  leaves the two tables different.
\<close>

section \<open>The daemon's runs\<close>

lemma synced_main_init: "stays synced (main_init ifindex ip bc)"
proof -
  have conf: "stays synced nl_send_conf_msg" by (intro stays_synced stays_rule)
  have log: "stays synced log_rt_table_init"
    unfolding log_rt_table_init_def by (rule stays_synced) (auto intro!: stays_rule)
  have host: "stays synced (host_init ifindex ip bc)"
    unfolding host_init_def by (rule stays_synced) (auto intro!: stays_rule simp: in_step_def calm_def)
  show ?thesis unfolding main_init_def rt_table_init_def
    by (auto intro!: stays_structure conf log host simp: synced_def in_step_def calm_def)
qed

inductive quiet_run :: "(nat \<Rightarrow> timeval) \<Rightarrow> (nat \<Rightarrow> int) \<Rightarrow> node \<Rightarrow> bool" for time ret where
  start: "quiet_run time ret (snd (run_state (main_init ifindex ip bc) (globals time ret pid)))"
| turn: "quiet_run time ret s \<Longrightarrow> length (all_rts (tbl s)) + 2 * length evs \<le> 126 \<Longrightarrow> list_all quiet evs \<Longrightarrow>
    quiet_run time ret (snd (run_state (main_turn evs) s))"

lemma quiet_reachable: "quiet_run time ret s \<Longrightarrow> reachable time ret s"
  by (induction rule: quiet_run.induct) (auto intro: reachable.intros)

lemma quiet_synced:
  assumes "quiet_run time ret s" and ret: "\<And>n. 0 \<le> ret n"
  shows "synced s"
  using assms(1)
proof (induction rule: quiet_run.induct)
  case (start ifindex ip bc pid)
  have "synced (globals time ret pid)"
    using ret by (simp add: synced_def in_step_def calm_def mirrors_def told_def globals_def)
  then show ?case using synced_main_init by (simp add: stays_def)
next
  case (turn s evs)
  then show ?case
    using turn_synced [OF reachable_INV [OF quiet_reachable] _ turn.IH] by (simp add: list_all_iff)
qed

section \<open>The module's reading of a message\<close>

definition next_hops :: "kernel \<Rightarrow> u32 \<Rightarrow> u32 option" where
  "next_hops k d = map_option x_nhop (routes k d)"

definition receive_all :: "buffer \<Rightarrow> nlmsg list \<Rightarrow> kernel \<Rightarrow> kernel" where
  "receive_all after ms = fold (\<lambda>m. kaodv_netlink_rcv_skb (wire after m)) ms"

definition to_module :: "nlmsg \<Rightarrow> bool" where
  "to_module m = (case nl_body m of Rtm_msg r \<Rightarrow> False | _ \<Rightarrow> True)"

lemma told_to_module: "told (filter to_module ms) = told ms"
proof -
  have "fold apply_msg (filter to_module ms) T = fold apply_msg ms T" for T
    by (induction ms arbitrary: T) (auto simp: to_module_def apply_msg_def split: nl_body.splits)
  then show ?thesis by (simp add: told_def)
qed

text \<open>What the packet queue leaves alone.\<close>

definition keeping :: "kernel \<Rightarrow> expl_entry list \<times> u32 \<times> int \<times> (nat \<Rightarrow> bool)" where
  "keeping k = (expl_list k, expl_len k, peer_pid k, k_ok k)"

lemma keeping_take: "check_delqueue_entry p k = (x, k') \<Longrightarrow> keeping k' = keeping k"
  by (auto simp: keeping_def check_delqueue_entry_def split: option.splits)

lemma keeping_emit: "keeping (emit evs k) = keeping k"
  by (simp add: keeping_def emit_def)

lemma keeping_bodies: "keeping (snd (drop_packet e n k)) = keeping k" "keeping (snd (send_packet d e n k)) = keeping k"
  by (auto simp: keeping_def drop_packet_def send_packet_def ip_pkt_encapsulate_def kcall_def kcheck_def emit_def Let_def
      case_prod_beta split: option.split)

lemma keeping_drop: "keeping (snd (drop_loop d n k)) = keeping k"
proof (induction d n k rule: drop_loop.induct)
  case (1 d n k)
  obtain x k1 where t: "check_delqueue_entry (dest_cmp d) k = (x, k1)" by force
  show ?case
  proof (cases x)
    case (Some e)
    then have "keeping (snd (drop_loop d n k)) = keeping (snd (drop_packet e n k1))"
      using t "1.IH" [OF t [symmetric] Some refl] by (subst drop_loop.simps) (simp add: Let_def)
    then show ?thesis using keeping_take [OF t] keeping_bodies by simp
  qed (use t in \<open>subst drop_loop.simps; simp add: keeping_take\<close>)
qed

lemma keeping_send: "keeping (snd (send_loop d n k)) = keeping k"
proof (induction d n k rule: send_loop.induct)
  case (1 d n k)
  obtain x k1 where t: "check_delqueue_entry (dest_cmp d) k = (x, k1)" by force
  show ?case
  proof (cases x)
    case (Some e)
    then have "keeping (snd (send_loop d n k)) = keeping (snd (send_packet d e n k1))"
      using t "1.IH" [OF t [symmetric] Some refl] by (subst send_loop.simps) (simp add: Let_def)
    then show ?thesis using keeping_take [OF t] keeping_bodies by simp
  qed (use t in \<open>subst send_loop.simps; simp add: keeping_take\<close>)
qed

lemma keeping_verdict: "keeping (snd (kaodv_queue_set_verdict v d k)) = keeping k"
  by (simp add: kaodv_queue_set_verdict_def keeping_drop keeping_send)

lemma rt_msg_of_addresses:
  "m_dest (rt_msg_of (rt_msg_bytes m)) = m_dest m \<and> m_nhop (rt_msg_of (rt_msg_bytes m)) = m_nhop m"
proof -
  let ?m = "m\<lparr>m_ifindex := sint (of_int (m_ifindex m) :: u32), m_time := sint (of_int (m_time m) :: u32)\<rparr>"
  have r: "- (2 ^ 31) \<le> sint w \<and> sint w < 2 ^ 31" for w :: u32 using sint_ge [of w] sint_lt [of w] by simp
  have "rt_msg_bytes m = rt_msg_bytes ?m @ []" by (simp add: rt_msg_bytes_def)
  moreover have "rt_msg_of (rt_msg_bytes ?m @ []) = ?m" by (rule rt_msg_of_bytes) (use r in simp_all)
  ultimately show ?thesis by (metis kaodv_rt_msg.select_convs(3,4) kaodv_rt_msg.surjective kaodv_rt_msg.update_convs(6,7))
qed


text \<open>The module in the states that matter here: bound to nobody else, its table in order.\<close>

definition listens :: "int \<Rightarrow> kernel \<Rightarrow> bool" where
  "listens pid k \<longleftrightarrow> (peer_pid k = 0 \<or> peer_pid k = pid) \<and> expl_ok k \<and> (\<forall>n. k_ok k n)"

lemma keeping_listens: "keeping k' = keeping k \<Longrightarrow> (listens pid k' \<longleftrightarrow> listens pid k) \<and> next_hops k' = next_hops k"
  by (auto simp: keeping_def listens_def expl_ok_def next_hops_def routes_cong [of k' k])

lemma card_next_hops:
  assumes "expl_ok k" shows "card (dom (next_hops k)) = length (expl_list k)"
proof -
  have "dom (next_hops k) = x_daddr ` set (expl_list k)"
    using routes_None [of k] by (auto simp: next_hops_def dom_def)
  then show ?thesis using distinct_card [OF expl_okD [OF assms]] by simp
qed

lemma add_or_update_follows:
  assumes l: "listens pid k" and room: "card (dom (next_hops k)) \<le> 1024"
  shows "listens pid (snd (add_or_update m k)) \<and> next_hops (snd (add_or_update m k)) = (next_hops k)(m_dest m \<mapsto> m_nhop m)"
proof -
  have ok: "expl_ok k" "k_ok k (k_calls k)" using l by (simp_all add: listens_def)
  have "expl_room k"
    using room ok expl_len_nat [OF ok(1)] by (simp add: expl_room_def card_next_hops word_le_nat_alt)
  note add = add_or_update_effect [OF this ok(2), of m]
  have "k_ok (snd (add_or_update m k)) = k_ok k"
    by (auto simp: add_or_update_def kaodv_expl_add_def kaodv_expl_update_def expl_add_entry_def kcall_def Let_def split: option.split)
  then show ?thesis using add add_or_update_frame [of m k] l by (auto simp: listens_def next_hops_def stamp_def)
qed

lemma del_follows:
  assumes l: "listens pid k"
  shows "listens pid (snd (kaodv_expl_del d k)) \<and> next_hops (snd (kaodv_expl_del d k)) = (next_hops k)(d := None)"
proof (cases "routes k d")
  case None
  then show ?thesis using l by (auto simp: kaodv_expl_del_def routes_def kaodv_expl_get_def next_hops_def)
next
  case (Some e)
  have "peer_pid (snd (kaodv_expl_del d k)) = peer_pid k" "k_ok (snd (kaodv_expl_del d k)) = k_ok k"
    by (auto simp: kaodv_expl_del_def expl_del_entry_def split: option.split)
  then show ?thesis using del_effect [OF _ Some] l by (auto simp: listens_def next_hops_def case_prod_beta)
qed

lemma keeping_acked: "keeping (let (status, k') = z in if status < (0::int) then emit [Nl_ack status] k' else emit [Nl_ack 0] k') = keeping (snd z)"
  by (simp add: case_prod_beta keeping_emit)

lemma rcv_follows:
  fixes after :: buffer
  assumes f: "framed pid m" "to_module m" and pid: "0 < pid" "pid < 2 ^ 31"
    and l: "listens pid k" and room: "card (dom (next_hops k)) \<le> 1024"
  defines "k' \<equiv> kaodv_netlink_rcv_skb (wire after m) k"
  shows "listens pid k' \<and> next_hops k' = apply_msg m (next_hops k)"
proof (cases "nl_body m")
  case (Rt_msg r)
  let ?k = "k\<lparr>peer_pid := pid\<rparr>" let ?b = "rt_msg_bytes r"
  have k: "listens pid ?k" "next_hops ?k = next_hops k"
    using l by (auto simp: listens_def expl_ok_def next_hops_def routes_cong [of ?k k])
  have m: "m = \<lparr>nlmsg_len = 44, nlmsg_type = nlmsg_type m, nlmsg_flags = 5, nlmsg_seq = nlmsg_seq m, nlmsg_pid = pid, nl_body = Rt_msg r\<rparr>"
    using f(1) Rt_msg by (simp add: framed_def)
  have w: "wire after m = nl_header_bytes 44 (of_int (nlmsg_type m)) 5 (of_int (nlmsg_seq m)) (of_int pid) @ ?b"
    by (subst m) (rule wire_rt_msg)
  have peer: "peer_pid k = 0 \<or> peer_pid k = sint (of_int pid :: u32)" using l by (simp add: listens_def sint_of_pid [OF pid])
  have rcv: "keeping k' = keeping (snd (kaodv_netlink_receive_peer (ucast (of_int (nlmsg_type m) :: u16)) ?b ?k))"
    unfolding k'_def using rcv_request [OF _ peer w] pid by (simp only: keeping_acked sint_of_pid [OF pid])
  consider "nlmsg_type m = 101" | "nlmsg_type m = 102" | "nlmsg_type m = 106" using f(1) Rt_msg by (auto simp: framed_def)
  then show ?thesis
  proof cases
    case 1
    have "kaodv_netlink_receive_peer 101 ?b ?k = (fst (add_or_update (rt_msg_of ?b) ?k),
        snd (kaodv_queue_set_verdict KAODV_QUEUE_SEND (m_dest r) (snd (add_or_update (rt_msg_of ?b) ?k))))"
      using rt_msg_of_addresses [of r] by (simp add: kaodv_netlink_receive_peer_def Let_def case_prod_beta)
    then have kk: "keeping k' = keeping (snd (add_or_update (rt_msg_of ?b) ?k))" using rcv 1 by (simp add: keeping_verdict)
    then show ?thesis
      using keeping_listens [OF kk, of pid] add_or_update_follows [OF k(1), of "rt_msg_of ?b"] room k(2) 1 Rt_msg rt_msg_of_addresses [of r]
      by (simp add: apply_msg_def)
  next
    case 2
    have "kaodv_netlink_receive_peer 102 ?b ?k = (0,
        snd (kaodv_queue_set_verdict KAODV_QUEUE_DROP (m_dest r) (snd (kaodv_expl_del (m_dest r) ?k))))"
      using rt_msg_of_addresses [of r] by (simp add: kaodv_netlink_receive_peer_def Let_def)
    then have kk: "keeping k' = keeping (snd (kaodv_expl_del (m_dest r) ?k))" using rcv 2 by (simp add: keeping_verdict)
    then show ?thesis
      using keeping_listens [OF kk, of pid] del_follows [OF k(1), of "m_dest r"] k(2) 2 Rt_msg by (simp add: apply_msg_def)
  next
    case 3
    have "snd (kaodv_netlink_receive_peer 106 ?b ?k) = snd (kaodv_queue_set_verdict KAODV_QUEUE_DROP (m_dest r) ?k)"
      using rt_msg_of_addresses [of r] by (simp add: kaodv_netlink_receive_peer_def Let_def)
    then have kk: "keeping k' = keeping ?k" using rcv 3 by (simp add: keeping_verdict)
    then show ?thesis using keeping_listens [OF kk, of pid] k 3 Rt_msg by (simp add: apply_msg_def)
  qed
next
  case (Conf_msg c)
  let ?rest = "take 28 (le32 (of_int c) @ after)"
  have w: "wire after m = nl_header_bytes 44 109 5 (of_int (nlmsg_seq m)) (of_int pid) @ ?rest"
    using f(1) Conf_msg by (simp add: framed_def wire_def body_bytes_def)
  note h = nl_header_fields [of 44 109 5 "of_int (nlmsg_seq m)" "of_int pid" ?rest]
  have "k' = k \<or> (\<exists>x s k1. k' = emit [Nl_ack s] k1 \<and> (k1 = k \<or> k1 = k\<lparr>peer_pid := pid\<rparr> \<or> k1 = k\<lparr>peer_pid := pid, k_active_route_timeout := x\<rparr>))"
    unfolding k'_def kaodv_netlink_rcv_skb_def Let_def w h sint_of_pid [OF pid]
    by (auto simp: kaodv_netlink_receive_peer_def)
  moreover have "listens pid (k\<lparr>peer_pid := pid\<rparr>) \<and> next_hops (k\<lparr>peer_pid := pid\<rparr>) = next_hops k"
    "listens pid (k\<lparr>peer_pid := pid, k_active_route_timeout := x\<rparr>) \<and> next_hops (k\<lparr>peer_pid := pid, k_active_route_timeout := x\<rparr>) = next_hops k" for x
    using l by (auto simp: listens_def expl_ok_def next_hops_def intro!: ext arg_cong [where f = "map_option x_nhop"] fun_cong [OF routes_cong])
  ultimately have "listens pid k' \<and> next_hops k' = next_hops k"
    using l keeping_listens [OF keeping_emit] by metis
  then show ?thesis using Conf_msg by (simp add: apply_msg_def)
qed (use f in \<open>simp add: to_module_def\<close>)


lemma receive_all_follows:
  "list_all (framed pid) ms \<Longrightarrow> list_all to_module ms \<Longrightarrow> listens pid k \<Longrightarrow>
   \<forall>i. card (dom (fold apply_msg (take i ms) (next_hops k))) \<le> 1024 \<Longrightarrow> 0 < pid \<Longrightarrow> pid < 2 ^ 31 \<Longrightarrow>
   next_hops (receive_all after ms k) = fold apply_msg ms (next_hops k)"
proof (induction ms arbitrary: k)
  case (Cons m ms)
  have "card (dom (next_hops k)) \<le> 1024" using Cons.prems(4) [rule_format, of 0] by simp
  then have r: "listens pid (kaodv_netlink_rcv_skb (wire after m) k)"
    "next_hops (kaodv_netlink_rcv_skb (wire after m) k) = apply_msg m (next_hops k)"
    using rcv_follows [of pid m k after] Cons.prems by simp_all
  have "\<forall>i. card (dom (fold apply_msg (take i ms) (apply_msg m (next_hops k)))) \<le> 1024"
    using Cons.prems(4) by (metis comp_apply fold_simps(2) take_Suc_Cons)
  then show ?case using Cons.IH [OF _ _ r(1)] Cons.prems r(2) by (simp add: receive_all_def)
qed (simp add: receive_all_def)

lemma take_filter: "\<exists>j. take i (filter P xs) = filter P (take j xs)"
proof (induction xs arbitrary: i)
  case (Cons x xs)
  show ?case
  proof (cases "P x \<and> i = 0")
    case True
    then show ?thesis by (intro exI [of _ 0]) simp
  next
    case False
    obtain j where "take (if P x then i - 1 else i) (filter P xs) = filter P (take j xs)" using Cons by blast
    then show ?thesis using False by (intro exI [of _ "Suc j"]) (cases i; auto)
  qed
qed simp

section \<open>A neighbour that moves away\<close>

lemma link_break_tells:
  assumes inv: "INV L n s" and e: "rts s p = Some e" "hopcnt e = 1" "rt_state e = VALID"
    and env: "\<And>n. 0 \<le> env_ret s n" and m: "mirrors h T" "h p = Some x" "dest_addr x = dest_addr e" "rts s = h(p \<mapsto> e)"
    and T: "(told (nl_out s))(dest_addr e := None) = T(dest_addr e := None)"
  shows "let s' = snd (run_state (neighbor_link_break (Some p)) s) in in_step s' \<and> told (nl_out s') (dest_addr e) = None
    \<and> (\<exists>e'. rts s' p = Some e' \<and> dest_addr e' = dest_addr e)"
proof -
  let ?e = "e\<lparr>rt_state := INVALID, hello_cnt := 0, dest_seqno := seqno_incr (dest_seqno e), last_hello_time := zero_time\<rparr>"
  let ?s1 = "snd (run_state (rt_table_invalidate (Some p)) s)" let ?s' = "snd (run_state (neighbor_link_break (Some p)) s)"
  define rest where "rest = do {
     e \<leftarrow> rt_at p;
     acc \<leftarrow> (if nprecursor e \<noteq> 0 \<and> \<not> has (rt_flags e) RT_REPAIR then rerr_mention 0 e (False, 0) else return (False, 0));
     only_if (\<not> has (rt_flags e) RT_REPAIR) (precursor_list_destroy (Some p));
     (made, uni) \<leftarrow> fold_each (link_break_bucket p) [0..<RT_TABLESIZE] acc;
     link_break_send made uni }"
  have s': "?s' = snd (run_state rest ?s1)" using e by (simp add: neighbor_link_break_def rest_def case_prod_beta)
  have "mirrors ((rts s)(p \<mapsto> ?e)) (T(dest_addr x := None))"
    unfolding m(4) using mirrors_withdraw [OF m(1,2), of "Some ?e"] m(3) by simp
  moreover have "known ?s1 = (env_ret s, (rts s)(p \<mapsto> ?e), T(dest_addr x := None))"
    using invalidate_known [OF env e(1)] e(3) T m(3) by simp
  ultimately have "in_step ?s1" using in_step_known env by simp
  moreover have "stays in_step rest"
    unfolding rest_def link_break_bucket_def link_break_send_def by (auto intro!: stays_rule)
  ultimately have in': "in_step ?s'" unfolding s' by (simp add: stays_def)
  note tab = INV_table [OF inv]
  obtain s3 acc e3 where s3: "degraded {p} (rts s) (rts s3)" "tbl s3 = tbl s" "rts s3 p = Some e3" "rt_state e3 = INVALID"
    and run: "run_state (neighbor_link_break (Some p)) s =
      run_state (do { (made, uni) \<leftarrow> fold_each (link_break_bucket p) [0..<RT_TABLESIZE] acc; link_break_send made uni }) s3"
    using link_break_start [OF e(1,2)] by blast
  let ?s4 = "snd (run_state (fold_each (link_break_bucket p) [0..<RT_TABLESIZE] acc) s3)"
  have d3: "dest_addr e3 = dest_addr e" using degraded_fields [OF s3(1) e(1) s3(3)] by (simp add: lowered_def)
  have "dom (rts s3) = dom (rts s)" using s3(1) by (simp add: degraded_def)
  then have "\<forall>i \<in> set [0..<RT_TABLESIZE]. set (tbl s3 i) \<subseteq> dom (rts s3)" using bucket_live [OF tab] s3(2) by simp
  note loop = broken_buckets [OF s3(3) this, of acc, unfolded d3]
  have "rts ?s' = rts ?s4" unfolding run by (simp add: case_prod_beta frameD [OF rts_link_break_send])
  moreover have dg: "degraded UNIV (rts s3) (rts ?s4)" using loop by (simp add: broken_def)
  obtain e' where e': "rts ?s4 p = Some e'" "rt_state e' = INVALID" using degraded_invalid [OF dg s3(3,4)] by blast
  moreover have "dest_addr e' = dest_addr e" using degraded_fields [OF dg s3(3) e'(1)] d3 by (simp add: lowered_def)
  ultimately have r: "rts ?s' p = Some e'" "dest_addr e' = dest_addr e" "rt_state e' = INVALID" by simp_all
  have mm: "mirrors (rts ?s') (told (nl_out ?s'))" using in' by (simp add: in_step_def)
  have "told (nl_out ?s') (dest_addr e) = None"
    using fun_cong [OF mirrors_invalid [OF mm r(1)], of "dest_addr e"] r by simp
  then show ?thesis using in' r unfolding Let_def by blast
qed


section \<open>A run that ends with a route\<close>

text \<open>The daemon starts, and a message of the neighbour 20 arrives.\<close>

definition heard :: node where
  "heard = snd (run_state (main_turn [Datagram (Received [9] 20 [Cm_ttl 1])]) (snd (run_state (main_init 1 10 255) node0)))"

abbreviation outbox :: "node \<Rightarrow> nlmsg list \<times> int" where
  "outbox \<equiv> \<lambda>s. (nl_out s, nl_pid s)"

lemma outbox_frames:
  "frame outbox (rt_entry_new d nh hops sq st fl)" "frame outbox (timer_set_timeout t m)" "frame outbox (rt_at p)"
  "frame outbox (seek_list_check d)" "frame outbox (seek_list_remove e)" "frame outbox (hello_timer_used p)"
  "frame outbox (rt_upd p u)"
  unfolding rt_entry_new_def hashing_def timer_init_def timer_set_timeout_def timer_remove_def timer_add_def upd_timer_def
    seek_list_check_def seek_list_remove_def hello_timer_used_def malloc_def Let_def
  by (auto intro!: frame_rule simp: frame_def [of _ "State _"] split: option.splits)

lemma outbox_hello: "frame outbox (hello_update_timeout p now m)"
  unfolding hello_update_timeout_def by (auto intro!: frame_rule outbox_frames)

lemma insert_outbox:
  assumes inv: "INV L n s" and no: "absent dest s" and env: "\<And>n. 0 \<le> env_ret s n"
  shows "length (nl_out (snd (run_state (rt_table_insert dest nh hops seqno lifetime VALID flags) s))) = length (nl_out s) + 2
    \<and> nl_pid (snd (run_state (rt_table_insert dest nh hops seqno lifetime VALID flags) s)) = nl_pid s"
proof -
  let ?r = "run_state (rt_entry_new dest nh hops seqno VALID flags) s"
  let ?s2 = "(snd ?r)\<lparr>num_active := num_active (snd ?r) + 1\<rparr>"
  let ?s3 = "snd (run_state (nl_send_add_route_msg dest nh hops lifetime flags (dev_ifindex ?s2)) ?s2)"
  define rest where "rest life = do {
     only_if (life \<noteq> 0) (timer_set_timeout (Rt_timer (fst ?r)) (sint life));
     e \<leftarrow> rt_at (fst ?r);
     only_if (rt_state e = VALID) (do { sk \<leftarrow> seek_list_check dest; seek_list_remove sk; return () }) }" for life :: u32
  have env2: "env_ret ?s2 = env_ret s" by (simp add: rt_entry_new_def hashing_def timer_init_def case_prod_beta)
  have f: "frame outbox (rest l)" for l
    unfolding rest_def by (auto intro!: frame_rule outbox_frames)
  have "snd (run_state (rt_table_insert dest nh hops seqno lifetime VALID flags) s) = snd (run_state (rest lifetime) ?s3)"
    by (simp add: run_insert [OF inv no] rt_entry_start_def rest_def case_prod_beta)
  then have "outbox (snd (run_state (rt_table_insert dest nh hops seqno lifetime VALID flags) s)) = outbox ?s3"
    by (simp only: frameD [OF f])
  moreover have "length (nl_out ?s3) = length (nl_out ?s2) + 2 \<and> nl_pid ?s3 = nl_pid ?s2"
    using env env2 by (simp add: nl_send_add_route_msg_def Let_def nl_send_aodv nl_kernel_route_def case_prod_beta nl_send_def not_less)
  moreover have "outbox ?s2 = outbox s" using frameD [OF outbox_frames(1)] by simp
  ultimately show ?thesis by simp
qed

lemma outbox_tail:
  "frame outbox (do { used \<leftarrow> hello_timer_used rt; only_if used (hello_update_timeout rt now m) })"
  by (auto intro!: frame_rule outbox_frames outbox_hello)

lemma log_started: "run_state log_rt_table_init node0 = ((), node0\<lparr>tick := 1, tq := [Rt_log_timer], timers := (timers node0)
    (Rt_log_timer := \<lparr>t_used = True, t_timeout = \<lparr>tv_sec = 10, tv_usec = 0\<rparr>, t_handler = Some Print_rt_table, t_data = None\<rparr>)\<rparr>)"
  by (simp add: node0_def globals_def log_rt_table_init_def timer_init_def timer_set_timeout_def timer_add_def
      attached_def upd_timer_def add_msec_def zero_time_def wrap32_def Let_def)

lemma started:
  defines "s \<equiv> snd (run_state (main_init 1 10 255) node0)"
  shows "tq s = [Rt_log_timer]" "exptq s = []" "rts s = Map.empty" "length (nl_out s) = 1" "nl_pid s = 1"
    "t_timeout (timers s Rt_log_timer) = \<lparr>tv_sec = 10, tv_usec = 0\<rparr>" "env_time s = (\<lambda>_. zero_time)" "env_ret s = (\<lambda>_. 0)"
    "dev_ipaddr s = 10"
proof -
  have n: "exptq node0 = []" "rts node0 = Map.empty" "nl_out node0 = []" "nl_pid node0 = 1" "env_time node0 = (\<lambda>_. zero_time)"
    "env_ret node0 = (\<lambda>_. 0)" by (simp_all add: node0_def globals_def)
  show "tq s = [Rt_log_timer]" "exptq s = []" "rts s = Map.empty" "length (nl_out s) = 1" "nl_pid s = 1"
    "t_timeout (timers s Rt_log_timer) = \<lparr>tv_sec = 10, tv_usec = 0\<rparr>" "env_time s = (\<lambda>_. zero_time)" "env_ret s = (\<lambda>_. 0)"
    "dev_ipaddr s = 10"
    by (simp_all add: s_def main_init_def rt_table_init_def host_init_def log_started n nl_send_conf_msg_def nl_send_aodv case_prod_beta)
qed

lemma age_queue_idle:
  assumes "exptq s = []" and "tq s = t # q" and "\<not> due (env_time s (tick s)) (timers s t)"
  shows "snd (run_state (timer_age_queue call) s) = s\<lparr>tick := Suc (tick s)\<rparr>"
proof -
  have "s\<lparr>tick := Suc (tick s), exptq := [], tq := t # q\<rparr> = s\<lparr>tick := Suc (tick s)\<rparr>" using assms(1,2) by simp
  then show ?thesis
    using assms by (simp add: timer_age_queue_def timer_timeout_def move_expired_def case_prod_beta)
qed

lemma unknown_type:
  assumes "recv_buf s ! 0 = 9" and "length (recv_buf s) = 1024"
  shows "snd (run_state (aodv_socket_package_process l src dst ttl) s) = snd (run_state (neighbor_add src) s)"
proof -
  let ?s = "snd (run_state (neighbor_add src) s)"
  have g: "run_state (get8 0) s = (9, s)" "run_state (get8 0) ?s = (9, ?s)"
    using assms frameD [OF recv_neighbor_add, of src s] by (simp_all add: run_get8)
  have n: "(9 :: u8) \<noteq> AODV_RREP" by simp
  show ?thesis
    by (simp only: aodv_socket_package_process_def run_state_bind g prod.case case_prod_beta fst_conv snd_conv only_if_def n simp_thms if_False)
      (simp add: g)
qed

lemma heard_facts:
  "length (nl_out heard) = 3" "nl_pid heard = 1" "\<exists>p e. rts heard p = Some e \<and> dest_addr e = 20 \<and> rt_state e = VALID \<and> next_hop e = 20"
proof -
  define s0 where "s0 = snd (run_state (main_init 1 10 255) node0)"
  note started = started [folded s0_def]
  let ?s1 = "s0\<lparr>tick := Suc (tick s0)\<rparr>" let ?s2 = "?s1\<lparr>recv_buf := poke 0 [9] (recv_buf ?s1)\<rparr>"
  have inv0: "INV {Waiting 0} 0 s0" unfolding s0_def node0_def by (rule start_keeps)
  then have inv1: "INV {Waiting 0} 0 ?s1" by simp
  have len: "length (recv_buf ?s1) = 1024" using INV_buffers [OF inv1] by simp
  then have inv2: "INV {Waiting 0} 0 ?s2" by (intro INV_recv_buf [OF inv1]) simp
  have "\<not> due zero_time (timers s0 Rt_log_timer)" by (simp add: due_def started timeval_diff_def zero_time_def wrap32_def)
  then have a: "snd (run_state (timer_age_queue call) s0) = ?s1"
    using age_queue_idle [OF started(2,1)] started(7) by simp
  have no: "absent 20 ?s2" by (simp add: absent_def started)
  let ?s3 = "?s2\<lparr>tick := Suc (tick ?s2)\<rparr>" let ?art = "of_int (active_route_timeout ?s2) :: u32"
  define s4 where "s4 = snd (run_state (rt_table_insert 20 20 1 0 ?art VALID 0) ?s3)"
  have e3: "?s3 = ?s1\<lparr>tick := Suc (tick ?s1), recv_buf := poke 0 [9] (recv_buf ?s1)\<rparr>" by simp
  have inv3: "INV {Waiting 0} 0 ?s3" unfolding e3 by (rule INV_recv_buf) (use inv1 len in simp_all)
  have no3: "absent 20 ?s3" by (simp add: absent_def started)
  have c: "run_state (rt_table_check 20) ?s3 = (None, ?s3)"
    by (rule check_cases [OF inv3, of 20]) (use started in auto)
  define tail where "tail rt = do { used \<leftarrow> hello_timer_used rt;
      only_if used (hello_update_timeout rt (env_time ?s2 (tick ?s2)) (ALLOWED_HELLO_LOSS * HELLO_INTERVAL)) }" for rt
  let ?s5 = "snd (run_state (tail (brk ?s3)) s4)"
  have add: "snd (run_state (neighbor_add 20) ?s2) = ?s5"
    using insert_rts [OF inv3 no3, of 20 1 0 ?art VALID 0] c
    by (simp add: neighbor_add_def deref_def case_prod_beta s4_def tail_def)
  have "recv_buf ?s2 ! 0 = 9" "length (recv_buf ?s2) = 1024" using len by (simp_all add: nth_poke)
  from unknown_type [OF this] have pp: "snd (run_state (aodv_socket_package_process 1 20 0xffffffff 1) ?s2) = ?s5"
    using add by (simp only:)
  have h: "heard = ?s5"
    using len a pp started(9) by (simp add: heard_def s0_def [symmetric] main_turn_def handle_def aodv_socket_read_def run_set_recv Let_def case_prod_beta)
  have o: "outbox ?s5 = outbox s4" unfolding tail_def by (rule frameD [OF outbox_tail])
  have env3: "\<And>n. 0 \<le> env_ret ?s3 n" using started(8) by simp
  show "length (nl_out heard) = 3" "nl_pid heard = 1"
    using o insert_outbox [OF inv3 no3 env3, of 20 1 0 ?art 0] started(4,5) by (simp_all add: h s4_def)
  have "frame rts (timer_set_timeout t m)" "frame rts (hello_timer_used p)" for t m p
    unfolding hello_timer_used_def by (auto intro!: frame_rule)
  note f = frameD [OF this(1)] frameD [OF this(2)]
  have "rts s4 (brk ?s3) = Some (new_entry 20 20 1 0 VALID 0)"
    using insert_rts [OF inv3 no3, of 20 1 0 ?art VALID 0] by (simp add: s4_def)
  then have "\<exists>e. rts heard (brk ?s3) = Some e \<and> dest_addr e = 20 \<and> rt_state e = VALID \<and> next_hop e = 20"
    unfolding h tail_def hello_update_timeout_def
    by (cases "fst (run_state (hello_timer_used (brk s0)) s4)") (simp_all add: case_prod_beta f rt_upd_def new_entry_def)
  then show "\<exists>p e. rts heard p = Some e \<and> dest_addr e = 20 \<and> rt_state e = VALID \<and> next_hop e = 20"
    by blast
qed

lemma card_told: "card (dom (told ms)) \<le> length ms \<and> finite (dom (told ms))"
proof (induction ms rule: rev_induct)
  case (snoc m ms)
  have "dom (apply_msg m T) \<subseteq> (case nl_body m of Rt_msg r \<Rightarrow> insert (m_dest r) (dom T) | _ \<Rightarrow> dom T)" for T
    by (auto simp: apply_msg_def split: nl_body.split if_splits)
  from this [of "told ms"] obtain x where "dom (apply_msg m (told ms)) \<subseteq> insert x (dom (told ms))"
    by (cases "nl_body m") auto
  moreover have "finite (insert x (dom (told ms)))" "card (insert x (dom (told ms))) \<le> Suc (length ms)"
    using snoc by (simp_all add: card_insert_if)
  ultimately show ?case
    using card_mono [of "insert x (dom (told ms))" "dom (apply_msg m (told ms))"] finite_subset by (auto simp: told_append)
qed (simp add: told_def)

section \<open>Properties\<close>

text \<open>
  C6: the module knows the daemon's routes. After any run in which no RREQ, and of the RREPs only
  HELLOs arrive, whatever else happens, and while all system calls succeed: once the module has read
  the messages the daemon has sent it, it has a route to a destination exactly if the daemon has a
  valid one, and with the same next hop. The module starts without routes, has memory, and its
  table does not overflow on the way.
\<close>

theorem module_mirrors_routes:
  assumes run: "quiet_run time ret s" and ret: "\<forall>n. 0 \<le> ret n" and pid: "0 < nl_pid s" "nl_pid s < 2 ^ 31"
    and k: "listens (nl_pid s) k" "expl_list k = []" and room: "\<forall>i. card (dom (told (take i (nl_out s)))) \<le> 1024"
  shows "next_hops (receive_all after (filter to_module (nl_out s)) k) d = Some nh \<longleftrightarrow>
    (\<exists>p e. rts s p = Some e \<and> dest_addr e = d \<and> rt_state e = VALID \<and> next_hop e = nh)"
proof -
  let ?ms = "filter to_module (nl_out s)"
  have sy: "synced s" using quiet_synced [OF run] ret by simp
  have k0: "next_hops k = Map.empty" using k(2) by (auto simp: next_hops_def routes_def kaodv_expl_get_def expl_check_def)
  have r: "\<forall>i. card (dom (fold apply_msg (take i ?ms) (next_hops k))) \<le> 1024"
  proof
    fix i
    obtain j where "take i ?ms = filter to_module (take j (nl_out s))" using take_filter by blast
    then show "card (dom (fold apply_msg (take i ?ms) (next_hops k))) \<le> 1024"
      using room told_to_module [of "take j (nl_out s)"] by (simp add: k0 told_def)
  qed
  have "next_hops (receive_all after ?ms k) = fold apply_msg ?ms (next_hops k)"
    by (rule receive_all_follows [OF _ _ k(1) r pid]) (use sy in \<open>auto simp: synced_def calm_def list_all_iff\<close>)
  also have "\<dots> = told (nl_out s)" using told_to_module by (simp add: k0 told_def)
  finally show ?thesis using mirrorsD(3) [of "rts s" "told (nl_out s)"] sy by (simp add: synced_def in_step_def)
qed

theorem module_mirrors_routes_witness:
  "next_hops (receive_all [] (filter to_module (nl_out heard)) kernel0) 20 = Some 20"
proof -
  let ?s0 = "snd (run_state (main_init 1 10 255) node0)"
  have "quiet_run (\<lambda>_. zero_time) (\<lambda>_. 0) ?s0" unfolding node0_def by (rule quiet_run.start)
  moreover have "length (all_rts (tbl ?s0)) = 0"
    using start_keeps [of 1 10 255 "\<lambda>_. zero_time" "\<lambda>_. 0" 1] by (simp add: node0_def INV_def)
  ultimately have run: "quiet_run (\<lambda>_. zero_time) (\<lambda>_. 0) heard"
    unfolding heard_def by (intro quiet_run.turn) (simp_all add: quiet_def quiet_datagram_def)
  have "card (dom (told (take i (nl_out heard)))) \<le> 1024" for i
    using card_told [of "take i (nl_out heard)"] heard_facts(1) by simp
  moreover have "listens (nl_pid heard) kernel0" "expl_list kernel0 = []"
    by (simp_all add: listens_def kernel0_def expl_ok_def)
  ultimately show ?thesis using module_mirrors_routes [OF run, of kernel0 "[]" 20 20] heard_facts(2,3) by simp
qed



end
