(* ===== verification/Module_Msgs.thy ===== *)
theory Module_Msgs
  imports Mirror_Runs
begin

text \<open>
  What holds in every reachable state, whatever arrives: \<open>calm\<close> of \<^verbatim>\<open>Mirror.thy\<close> for the
  handlers of route requests and replies too. No route is ever under repair, and every message the
  daemon sends the module has a form that the module accepts.
\<close>

section \<open>Requests and replies\<close>

lemma has_or: "has (a OR b) c \<longleftrightarrow> has a c \<or> has b c"
  by (simp add: has_def bit.conj_disj_distrib2 or_eq_0_iff)

lemma calm_unidir [stays_rule]: "stays calm (rt_upd p (\<lambda>e. e\<lparr>rt_flags := rt_flags e OR RT_UNIDIR\<rparr>))"
  by (rule stays_rule) (simp add: has_or, simp add: has_def)

lemma calm_replies [stays_rule]: "stays calm (rrep_create fl pf hops d sq og life)" "stays calm rrep_ack_create"
  "stays calm (rrep_ack_process src)" "stays calm (ack_timer_used p)" "stays calm (deref x)"
  unfolding rrep_create_def rrep_ack_create_def rrep_ack_process_def ack_timer_used_def deref_def
  by (auto intro!: stays_rule split: option.split)

lemma calm_rrep_send [stays_rule]: "stays calm (rrep_send rv fw len)"
  unfolding rrep_send_def by (auto intro!: stays_rule)

lemma calm_rrep_forward [stays_rule]: "stays calm (rrep_forward len rv fw ttl)"
  unfolding rrep_forward_def by (auto intro!: stays_rule)

lemma calm_fwd_route [stays_rule]: "stays calm (rrep_fwd_route fw d src hc sq life)"
  unfolding rrep_fwd_route_def
  by (rule calm_first | rule stays_rule | rule calm_insert calm_update | assumption | simp add: has_def)+

lemma calm_rrep_process [stays_rule]: "stays calm (rrep_process len src dst ttl)"
  unfolding rrep_process_def rrep_send_ack_def rrep_arrived_def Let_def
  by (auto intro!: stays_rule split: option.split)

lemma calm_reverse [stays_rule]: "stays calm (rreq_reverse_route og src hc sq life)"
  unfolding rreq_reverse_route_def
  by (rule calm_first | rule stays_rule | rule calm_insert calm_update | assumption | simp add: has_def)+

lemma calm_rreq_parts [stays_rule]: "stays calm (rreq_forward len ttl)" "stays calm (rreq_answer rv ds)"
  "stays calm (rreq_forward_or_drop fw ds len ttl)" "stays calm (rreq_intermediate p rv now)"
  unfolding rreq_forward_def rreq_answer_def rreq_forward_or_drop_def rreq_intermediate_def Let_def
  by (auto intro!: stays_rule simp: calm_def)

lemma calm_rreq_process [stays_rule]: "stays calm (rreq_process len src dst ttl)"
  unfolding rreq_process_def rreq_accept_def Let_def by (auto intro!: stays_rule)

section \<open>The other handlers\<close>

lemma calm_hello_process [stays_rule]: "stays calm hello_process" "stays calm (hello_update_timeout p now m)"
proof -
  show u: "stays calm (hello_update_timeout p now m)" for p now m
    unfolding hello_update_timeout_def by (auto intro!: stays_rule)
  show "stays calm hello_process"
    unfolding hello_process_def Let_def
    by (rule calm_first | rule stays_rule u | rule calm_insert calm_update | assumption | simp add: has_def)+
qed

lemma calm_neighbor_add [stays_rule]: "stays calm (neighbor_add src)"
  unfolding neighbor_add_def Let_def
  by (rule calm_first | rule stays_rule | rule calm_insert calm_update | assumption | simp add: has_def)+

lemma calm_udests [stays_rule]: "stays calm (rerr_udests fuel i src acc)"
  by (induction fuel arbitrary: i acc) (auto intro!: stays_rule)

lemma calm_package [stays_rule]: "stays calm (aodv_socket_package_process len src dst ttl)"
  unfolding aodv_socket_package_process_def rerr_process_def Let_def by (auto intro!: stays_rule)

lemma calm_requests [stays_rule]: "stays calm (rreq_route_discovery d fl)" "stays calm (rreq_local_repair x a)"
  "stays calm (nl_send_rerr d a)"
  unfolding rreq_route_discovery_def rreq_local_repair_def nl_send_rerr_def by (auto intro!: stays_rule split: prod.split)

lemma calm_handle: "stays calm (handle ev)"
  unfolding handle_def aodv_socket_read_def nl_kaodv_callback_def Let_def
  by (auto intro!: stays_rule split: event.split recv_result.split kernel_msg.split prod.split option.split)

lemma calm_discovery: "stays calm (route_discovery_timeout x)"
  unfolding route_discovery_timeout_def
  by (rule calm_first | (rule calm_else, assumption) | rule stays_rule | assumption)+

lemma calm_call: "f \<noteq> Local_repair_timeout \<Longrightarrow> stays calm (call f d)"
  using calm_discovery
  by (cases f; cases d) (auto intro!: stays_rule simp: route_delete_timeout_def rrep_ack_timeout_def wait_on_reboot_timeout_def
      print_rt_table_def calm_def)

interpretation calm: steady calm
proof
  show "stays calm (call f (t_data (timers s t)))" if "calm s" "t_handler (timers s t) = Some f" for s t f
    using calm_call [of f] calm_handler [OF that(1), of t] that(2) by simp
qed (simp_all add: calm_def)

section \<open>Runs\<close>

lemma calm_main_init: "stays calm (main_init ifindex ip bc)"
  unfolding main_init_def log_rt_table_init_def rt_table_init_def host_init_def
  by (auto intro!: stays_rule simp: calm_def)

lemma calm_turn: "stays calm (main_turn evs)"
  unfolding main_turn_def by (intro stays_rule calm.stays_age_queue calm_handle)

lemma reachable_calm: "reachable time ret s \<Longrightarrow> calm s"
proof (induction rule: reachable.induct)
  case (start ifindex ip bc pid)
  have "calm (globals time ret pid)" by (simp add: calm_def globals_def)
  then show ?case using calm_main_init by (simp add: stays_def)
next
  case (turn s evs)
  then show ?case using calm_turn by (simp add: stays_def)
qed

section \<open>The module's answer\<close>

lemma update_status: "kaodv_expl_get d k \<noteq> None \<Longrightarrow> fst (kaodv_expl_update d nh t fl i k) = 0"
  by (auto simp: kaodv_expl_update_def kaodv_expl_get_def split: option.splits)

lemma receive_status:
  assumes "length body = 28" and "ty \<in> {101, 102, 106, 109}"
  shows "fst (kaodv_netlink_receive_peer ty body k) \<in> {0, 1, - ENOMEM, - ENOSPC}
    \<and> (ty \<noteq> 101 \<longrightarrow> fst (kaodv_netlink_receive_peer ty body k) = 0)
    \<and> peer_pid (snd (kaodv_netlink_receive_peer ty body k)) = peer_pid k"
proof -
  have q: "peer_pid (snd (kaodv_queue_set_verdict v d k)) = peer_pid k" for v d k
    using keeping_verdict [of v d k] by (simp add: keeping_def)
  have a: "fst (add_or_update (rt_msg_of body) k) \<in> {0, 1, - ENOMEM, - ENOSPC}"
    using update_status [of "m_dest (rt_msg_of body)" k]
    by (auto simp: add_or_update_def kaodv_expl_add_def expl_add_entry_def Let_def case_prod_beta)
  have p: "peer_pid (snd (add_or_update m k)) = peer_pid k" "peer_pid (snd (kaodv_expl_del d k)) = peer_pid k" for m d
    by (auto simp: add_or_update_def kaodv_expl_add_def kaodv_expl_update_def expl_add_entry_def kcall_def kaodv_expl_del_def
        expl_del_entry_def Let_def case_prod_beta split: option.split)
  show ?thesis using assms a by (auto simp: kaodv_netlink_receive_peer_def Let_def case_prod_beta q p)
qed

text \<open>
  C8: what the daemon sends the module is well-formed. In every reachable state, whatever has
  arrived, each message to the module has one of the four types it knows, the length of its
  bytes, and flags and sender that it accepts; a module that listens to this daemon or to nobody
  answers with 0, or, for a new route only, that memory or the table has run out.
\<close>

theorem daemon_messages_accepted:
  assumes r: "reachable time ret s" and m: "m \<in> set (nl_out s)" "to_module m"
    and pid: "0 < nl_pid s" "nl_pid s < 2 ^ 31" and peer: "peer_pid k \<in> {0, nl_pid s}" and after: "24 \<le> length after"
  defines "k' \<equiv> kaodv_netlink_rcv_skb (wire after m) k"
  shows "nlmsg_type m \<in> {KAODVM_ADDROUTE, KAODVM_DELROUTE, KAODVM_NOROUTE_FOUND, KAODVM_CONFIG}
    \<and> int (length (wire after m)) = nlmsg_len m \<and> peer_pid k' = nl_pid s
    \<and> last (k_out k') \<in> {Nl_ack 0, Nl_ack (- ENOMEM), Nl_ack (- ENOSPC)}
    \<and> (nlmsg_type m \<noteq> KAODVM_ADDROUTE \<longrightarrow> last (k_out k') = Nl_ack 0)"
proof -
  have f: "framed (nl_pid s) m" using reachable_calm [OF r] m(1) by (simp add: calm_def)
  then have h: "nlmsg_len m = 44" "nlmsg_flags m = 5" "nlmsg_pid m = nl_pid s" "nlmsg_type m \<in> {101, 102, 106, 109}"
    using m(2) by (cases "nl_body m"; auto simp: framed_def to_module_def)+
  define body where "body = take 28 (body_bytes (nl_body m) @ after)"
  have len: "length body = 28" using m(2) after by (cases "nl_body m") (auto simp: body_def body_bytes_def to_module_def)
  have w: "wire after m = nl_header_bytes 44 (of_int (nlmsg_type m)) 5 (of_int (nlmsg_seq m)) (of_int (nl_pid s)) @ body"
    by (simp add: wire_def h(1-3) body_def)
  define ty :: u8 where "ty = ucast (of_int (nlmsg_type m) :: u16)"
  have ty: "ty \<in> {101, 102, 106, 109}" "ty = 101 \<longleftrightarrow> nlmsg_type m = 101" using h(4) by (auto simp: ty_def)
  obtain st k1 where rp: "kaodv_netlink_receive_peer ty body (k\<lparr>peer_pid := nl_pid s\<rparr>) = (st, k1)" by force
  have "k' = (if st < 0 then emit [Nl_ack st] k1 else emit [Nl_ack 0] k1)"
    unfolding k'_def w using rcv_framed [of "of_int (nl_pid s)" k body] len peer rp
    by (auto simp: sint_of_pid [OF pid] pid(1) ty_def)
  then show ?thesis
    using receive_status [OF len ty(1), of "k\<lparr>peer_pid := nl_pid s\<rparr>"] rp ty h(4) len
    by (auto simp: w h(1) emit_fields emit_view)
qed

theorem daemon_messages_accepted_witness:
  "let s = snd (run_state (main_init 1 10 255) node0);
      k' = kaodv_netlink_rcv_skb (wire (replicate 24 0) (nl_out s ! 0)) two_waiting in
    nlmsg_type (nl_out s ! 0) = KAODVM_CONFIG \<and> peer_pid k' = 1 \<and> last (k_out k') = Nl_ack 0"
proof -
  let ?s = "snd (run_state (main_init 1 10 255) node0)"
  let ?f = "\<lambda>s. (nl_out s, nl_pid s, env_ret s, active_route_timeout s)"
  have "frame ?f log_rt_table_init" unfolding log_rt_table_init_def timer_set_timeout_def timer_init_def timer_add_def timer_remove_def upd_timer_def
    by (auto intro!: frame_rule split: option.splits)
  then have l: "?f (snd (run_state log_rt_table_init node0)) = ?f node0" by (rule frameD)
  have v: "nl_out node0 = []" "nl_pid node0 = 1" "env_ret node0 = (\<lambda>_. 0)" "active_route_timeout node0 = 3000"
    by (simp_all add: node0_def globals_def)
  have n: "nl_out ?s = [\<lparr>nlmsg_len = 44, nlmsg_type = 109, nlmsg_flags = 5, nlmsg_seq = 1, nlmsg_pid = 1, nl_body = Conf_msg 3000\<rparr>]"
    "nl_pid ?s = 1"
    using l v by (simp_all add: main_init_def rt_table_init_def host_init_def nl_send_conf_msg_def nl_send_aodv case_prod_beta wrap32_id)
  have r: "reachable (\<lambda>_. zero_time) (\<lambda>_. 0) ?s" unfolding node0_def by (rule reachable.start)
  have k: "peer_pid two_waiting = 0" by (simp add: two_waiting_def two_expl_def)
  show ?thesis
    using daemon_messages_accepted [OF r, of "nl_out ?s ! 0" two_waiting "replicate 24 0"] n k
    by (simp add: Let_def to_module_def)
qed

end
