(* ===== verification/Format.thy ===== *)
theory Format
  imports Prelude
begin

text \<open>
  The text that logs and \<^verbatim>\<open>/proc\<close> entries are made of: the conversions of
  \<^verbatim>\<open>sprintf\<close> the program uses, on strings without the terminating NUL, and
  \<^verbatim>\<open>inet_ntoa\<close>. An address is a word in memory order, so its first octet is the low byte.
\<close>

section \<open>Conversions\<close>

fun dec :: "nat \<Rightarrow> string" where
  "dec n = (if n < 10 then [char_of (48 + n)] else dec (n div 10) @ [char_of (48 + n mod 10)])"

declare dec.simps [simp del]

definition dec_int :: "int \<Rightarrow> string" where
  "dec_int i = (if i < 0 then CHR ''-'' # dec (nat (- i)) else dec (nat i))"

text \<open>\<open>%-ns\<close>, \<open>%ns\<close> and \<open>%0nd\<close>.\<close>

definition ljust :: "nat \<Rightarrow> string \<Rightarrow> string" where
  "ljust n s = s @ replicate (n - length s) CHR '' ''"

definition rjust :: "nat \<Rightarrow> string \<Rightarrow> string" where
  "rjust n s = replicate (n - length s) CHR '' '' @ s"

definition zeros :: "nat \<Rightarrow> nat \<Rightarrow> string" where
  "zeros n k = replicate (n - length (dec k)) CHR ''0'' @ dec k"

definition newline :: string where
  "newline = [char_of (10 :: nat)]"

definition octet :: "nat \<Rightarrow> u32 \<Rightarrow> nat" where
  "octet i a = unat a div 256 ^ i mod 256"

definition dotted :: "u32 \<Rightarrow> string" where
  "dotted a = dec (octet 0 a) @ ''.'' @ dec (octet 1 a) @ ''.'' @ dec (octet 2 a) @ ''.'' @ dec (octet 3 a)"

section \<open>Widths\<close>

lemma length_dec: "n < 10 ^ Suc k \<Longrightarrow> length (dec n) \<le> Suc k"
proof (induction k arbitrary: n)
  case 0
  then show ?case by (subst dec.simps) simp
next
  case (Suc k)
  then have "n div 10 < 10 ^ Suc k" by (simp add: div_less_iff_less_mult mult.commute)
  from Suc.IH [OF this] show ?case by (subst dec.simps) simp
qed

lemma dec_nonempty: "dec n \<noteq> []"
  by (subst dec.simps) simp

lemma length_dec_u32: "length (dec (unat (w :: u32))) \<le> 10"
proof -
  have "unat w < 2 ^ LENGTH(32)" by (rule unsigned_less)
  then show ?thesis using length_dec [of "unat w" 9] by simp
qed

lemma length_dec_u8: "length (dec (unat (w :: u8))) \<le> 3"
  using length_dec [of "unat w" 2] unat8_less [of w] by simp

lemma length_ljust: "length (ljust n s) = max n (length s)"
  by (simp add: ljust_def max_def)

lemma length_rjust: "length (rjust n s) = max n (length s)"
  by (simp add: rjust_def max_def)

lemma length_zeros: "length (zeros n k) = max n (length (dec k))"
  by (simp add: zeros_def max_def)

lemma octet_less: "octet i a < 256"
  by (simp add: octet_def)

lemma length_octet: "length (dec (octet i a)) \<le> 3"
  using length_dec [of "octet i a" 2] octet_less [of i a] by simp

lemma length_dotted: "length (dotted a) \<le> 15"
  using length_octet [of 0 a] length_octet [of 1 a] length_octet [of 2 a] length_octet [of 3 a] by (simp add: dotted_def)

section \<open>Reading numbers back\<close>

definition digit :: "char \<Rightarrow> bool" where
  "digit c \<longleftrightarrow> 48 \<le> (of_char c :: nat) \<and> (of_char c :: nat) \<le> 57"

definition undec :: "string \<Rightarrow> nat" where
  "undec s = foldl (\<lambda>n c. 10 * n + (of_char c - 48)) 0 s"

text \<open>\<^verbatim>\<open>inet_addr\<close> on a complete dotted address.\<close>

definition undotted :: "string \<Rightarrow> u32" where
  "undotted s = (
     let a = takeWhile digit s; s = drop (Suc (length a)) s;
         b = takeWhile digit s; s = drop (Suc (length b)) s;
         c = takeWhile digit s; s = drop (Suc (length c)) s
     in of_nat (undec a + 256 * undec b + 256 ^ 2 * undec c + 256 ^ 3 * undec s))"

lemma of_char_digit: "n < 10 \<Longrightarrow> (of_char (char_of (48 + n) :: char) :: nat) = 48 + n"
  by (simp add: take_bit_nat_eq_self)

lemma dec_digits: "list_all digit (dec n)"
proof (induction n rule: dec.induct)
  case (1 n)
  have "digit (char_of (48 + k))" if "k < 10" for k :: nat using of_char_digit [OF that] that by (simp add: digit_def)
  then show ?case using 1 by (subst dec.simps) auto
qed

lemma undec_snoc: "undec (s @ [c]) = 10 * undec s + (of_char c - 48)"
  by (simp add: undec_def)

lemma undec_dec: "undec (dec n) = n"
proof (induction n rule: dec.induct)
  case (1 n)
  show ?case
  proof (cases "n < 10")
    case True
    then show ?thesis by (subst dec.simps) (simp add: undec_def of_char_digit)
  next
    case False
    have "undec (dec n) = 10 * undec (dec (n div 10)) + n mod 10"
      using False by (subst dec.simps) (simp add: undec_snoc of_char_digit)
    then show ?thesis using 1 [OF False] by simp
  qed
qed

lemma takeWhile_dec: "takeWhile digit (dec n @ CHR ''.'' # s) = dec n"
  using dec_digits [of n] by (simp add: list_all_iff takeWhile_tail digit_def)

lemma octets_sum:
  "octet 0 a + 256 * octet 1 a + 256 ^ 2 * octet 2 a + 256 ^ 3 * octet 3 a = unat a"
proof -
  define n where "n = unat a"
  have n: "n < 256 * (256 * (256 * 256))" unfolding n_def using unsigned_less [of a, where ?'a = nat] by simp
  have "n = n mod 256 + 256 * (n div 256 mod 256 + 256 * (n div 256 div 256 mod 256 + 256 * (n div 256 div 256 div 256)))"
    by (metis add.commute mult_div_mod_eq)
  moreover have "n div 256 div 256 div 256 < 256" using n by (simp add: less_mult_imp_div_less div_mult2_eq [symmetric])
  ultimately show ?thesis
    by (simp add: octet_def n_def [symmetric] div_mult2_eq [symmetric] algebra_simps)
qed

lemma undotted_dotted: "undotted (dotted a) = a"
proof -
  have "undotted (dotted a) = of_nat (octet 0 a + 256 * octet 1 a + 256 ^ 2 * octet 2 a + 256 ^ 3 * octet 3 a)"
    by (simp add: undotted_def dotted_def takeWhile_dec undec_dec Let_def)
  then show ?thesis by (simp only: octets_sum) simp
qed

end
