(* ===== verification/Debug_Log.thy ===== *)
theory Debug_Log
  imports Format Daemon_Monad
begin

text \<open>
  The text of the daemon's logs, \<^verbatim>\<open>debug.c\<close>: addresses and flags as strings, a log
  line, and the dump of the routing table, as the strings that are handed to \<^verbatim>\<open>write\<close>.
  The functions that return a pointer to a static buffer give its contents here, except
  \<^verbatim>\<open>ip_to_str\<close>, where calls share the buffer and the result is an offset into it.
  \<^verbatim>\<open>localtime\<close> and \<^verbatim>\<open>strerror\<close> are parameters.
\<close>

section \<open>Names of values\<close>

definition packet_type :: "u32 \<Rightarrow> string" where
  "packet_type ty = (if ty = 1 then ''AODV_RREQ'' else if ty = 2 then ''AODV_RREP'' else if ty = 3 then ''AODV_RERR''
     else ''Unknown packet type '' @ dec_int (sint ty))"

definition rreq_flags_to_str :: "buffer \<Rightarrow> string" where
  "rreq_flags_to_str b = (if has (b ! 1) 1 then ''J'' else []) @ (if has (b ! 1) 2 then ''R'' else [])
     @ (if has (b ! 1) 4 then ''G'' else []) @ (if has (b ! 1) 8 then ''D'' else [])"

definition rrep_flags_to_str :: "buffer \<Rightarrow> string" where
  "rrep_flags_to_str b = (if has (b ! 1) 1 then ''R'' else []) @ (if has (b ! 1) 2 then ''A'' else [])"

definition rt_flags_to_str :: "u8 \<Rightarrow> string" where
  "rt_flags_to_str flags = (if has flags RT_UNIDIR then ''U'' else []) @ (if has flags RT_REPAIR then ''R'' else [])
     @ (if has flags RT_INET_DEST then ''I'' else [])"

definition state_to_str :: "u8 \<Rightarrow> string" where
  "state_to_str st = (if st = VALID then ''VAL'' else if st = INVALID then ''INV'' else ''?'')"

text \<open>The table \<^verbatim>\<open>timeout_func\<close>; \<^verbatim>\<open>hello_send\<close> is a handler that is not in it.\<close>

definition timeout_func :: "(string \<times> handler) list" where
  "timeout_func = [(''rreq_record_timeout'', Rreq_record_timeout), (''rreq_blacklist_timeout'', Rreq_blacklist_timeout),
     (''route_discovery_timeout'', Route_discovery_timeout), (''local_repair_timeout'', Local_repair_timeout),
     (''route_expire_timeout'', Route_expire_timeout), (''route_delete_timeout'', Route_delete_timeout),
     (''hello_timeout'', Hello_timeout), (''rrep_ack_timeout'', Rrep_ack_timeout),
     (''wait_on_reboot_timeout'', Wait_on_reboot_timeout), (''print_rt_table'', Print_rt_table)]"

definition ptr_to_func_name :: "handler \<Rightarrow> string" where
  "ptr_to_func_name action = (case find (\<lambda>(name, f). action = f) timeout_func of
       Some (name, f) \<Rightarrow> name | None \<Rightarrow> ''Unkown function'')"

text \<open>The lines \<^verbatim>\<open>log_pkt_fields\<close> logs for a message.\<close>

definition log_pkt_fields :: "buffer \<Rightarrow> string list" where
  "log_pkt_fields b = (
     if b ! 0 = AODV_RREQ then
       [''rreq->flags:'' @ rreq_flags_to_str b @ '' rreq->hopcount='' @ dec (unat (b ! 3))
          @ '' rreq->rreq_id='' @ dec_int (sint (ntohl (peek32 4 b))),
        ''rreq->dest_addr:'' @ dotted (peek32 8 b) @ '' rreq->dest_seqno='' @ dec_int (sint (ntohl (peek32 12 b))),
        ''rreq->orig_addr:'' @ dotted (peek32 16 b) @ '' rreq->orig_seqno='' @ dec_int (sint (ntohl (peek32 20 b)))]
     else if b ! 0 = AODV_RREP then
       [''rrep->flags:'' @ rrep_flags_to_str b @ '' rrep->hopcount='' @ dec (unat (b ! 3)),
        ''rrep->dest_addr:'' @ dotted (peek32 4 b) @ '' rrep->dest_seqno='' @ dec_int (sint (ntohl (peek32 8 b))),
        ''rrep->orig_addr:'' @ dotted (peek32 12 b) @ '' rrep->lifetime='' @ dec_int (sint (ntohl (peek32 16 b)))]
     else if b ! 0 = AODV_RERR then
       [''rerr->dest_count:'' @ dec (unat (b ! 3)) @ '' rerr->flags='' @ (if has (b ! 1) 1 then ''N'' else ''-'')]
     else [])"

section \<open>Addresses\<close>

text \<open>
  The static variables of \<^verbatim>\<open>ip_to_str\<close>: four slots of 16 characters that are used in turn.
  The result is the offset of the slot; \<open>string_at\<close> is what the caller reads there, up to the NUL.
\<close>

record ring =
  ring_buf :: string
  ring_index :: nat

definition NUL :: char where
  "NUL = char_of (0 :: nat)"

definition ip_to_str :: "u32 \<Rightarrow> ring \<Rightarrow> nat \<times> ring" where
  "ip_to_str addr r = (ring_index r, \<lparr>ring_buf = poke (ring_index r) (dotted addr @ [NUL]) (ring_buf r),
     ring_index = (ring_index r + 16) mod 64\<rparr>)"

definition devs_ip_to_str :: "node \<Rightarrow> ring \<Rightarrow> nat \<times> ring" where
  "devs_ip_to_str s r = ip_to_str (dev_ipaddr s) r"

definition string_at :: "nat \<Rightarrow> ring \<Rightarrow> string" where
  "string_at i r = takeWhile (\<lambda>c. c \<noteq> NUL) (drop i (ring_buf r))"

section \<open>A log line\<close>

datatype log_act = Log_line string | Syslog int string | Stderr string | Log_exit

definition write_to_log_file :: "int \<Rightarrow> int \<Rightarrow> string \<Rightarrow> log_act list" where
  "write_to_log_file log_file_fd written msg =
     (if log_file_fd = 0 then [Stderr ''Could not write to log file'']
      else if msg = [] then [Stderr ''len=0'']
      else if written < 0 then [Stderr ''Could not write to log file'']
      else [Log_line msg])"

abbreviation (input) LOG_ERR :: int where "LOG_ERR \<equiv> 3"
abbreviation (input) LOG_WARNING :: int where "LOG_WARNING \<equiv> 4"
abbreviation (input) LOG_NOTICE :: int where "LOG_NOTICE \<equiv> 5"

definition clock_text :: "(int \<Rightarrow> nat \<times> nat \<times> nat) \<Rightarrow> timeval \<Rightarrow> string" where
  "clock_text localtime now = (let (h, m, s) = localtime (tv_sec now) in
     zeros 2 h @ '':'' @ zeros 2 m @ '':'' @ zeros 2 s @ ''.'' @ zeros 3 (nat (tv_usec now div 1000)))"

definition alog_line :: "(int \<Rightarrow> nat \<times> nat \<times> nat) \<Rightarrow> (int \<Rightarrow> string) \<Rightarrow> timeval \<Rightarrow> int \<Rightarrow> string \<Rightarrow> string \<Rightarrow> string" where
  "alog_line localtime strerror now errnum fn msg = ''['' @ clock_text localtime now @ ''] '' @ fn @ '': '' @ msg
     @ (if errnum = 0 then [] else '': '' @ strerror errnum) @ newline"

text \<open>
  \<open>msg\<close> is the formatted message, written into a buffer of 256 characters, from the ninth on for a
  warning; the line is put together in one of 1024. \<open>None\<close> is a write behind the end of a buffer. The
  length is tested after the line has been written.
\<close>

definition alog :: "(int \<Rightarrow> nat \<times> nat \<times> nat) \<Rightarrow> (int \<Rightarrow> string) \<Rightarrow> timeval \<Rightarrow> int \<Rightarrow> int \<Rightarrow>
    bool \<Rightarrow> bool \<Rightarrow> int \<Rightarrow> int \<Rightarrow> string \<Rightarrow> string \<Rightarrow> log_act list option" where
  "alog localtime strerror now log_file_fd written debug log_to_file type errnum fn msg =
     (if (if type = LOG_WARNING then 9 else 0) + length msg \<ge> 256 then None
      else
        let line = alog_line localtime strerror now errnum fn msg;
            syslog = (if type \<le> LOG_NOTICE then
                [Syslog type (fn @ '': '' @ msg @ (if errnum \<noteq> 0 then '': '' @ strerror errnum else []))] else [])
              @ (if type \<le> LOG_ERR then [Log_exit] else [])
        in if \<not> debug \<and> \<not> log_to_file then Some syslog
           else if length line \<ge> 1024 then None
           else if length line > 1024 then Some (Stderr ''alog(): buffer data size to limit!'' # syslog)
           else Some ((if log_to_file then write_to_log_file log_file_fd written line else []) @ syslog))"

section \<open>The dump of the routing table\<close>

fun spaced :: "string list \<Rightarrow> string" where
  "spaced [] = []"
| "spaced [x] = x"
| "spaced (x # y # xs) = x @ '' '' @ spaced (y # xs)"

definition rt_header :: "(int \<Rightarrow> nat \<times> nat \<times> nat) \<Rightarrow> timeval \<Rightarrow> node \<Rightarrow> string" where
  "rt_header localtime now s = ''# Time: '' @ clock_text localtime now @ '' IP: '' @ dotted (dev_ipaddr s)
     @ '' seqno '' @ dec (unat (host_seqno s)) @ '' entries/active: '' @ dec (unat (num_entries s)) @ ''/''
     @ dec (unat (num_active s)) @ newline
     @ spaced [ljust 15 ''Destination'', ljust 15 ''Next hop'', ljust 3 ''HC'', ljust 3 ''St.'', ljust 5 ''Seqno'',
         ljust 6 ''Expire'', ljust 5 ''Flags'', ljust 5 ''Iface'', ljust 15 ''Precursors''] @ newline"

text \<open>\<^verbatim>\<open>timeval_diff\<close> is an \<^verbatim>\<open>int\<close> that is printed as an \<^verbatim>\<open>unsigned long\<close>.\<close>

definition rt_fields :: "timeval \<Rightarrow> string \<Rightarrow> node \<Rightarrow> ptr \<Rightarrow> rt_entry \<Rightarrow> string list" where
  "rt_fields now ifname s rt e = [ljust 15 (dotted (dest_addr e)), ljust 15 (dotted (next_hop e)),
     ljust 3 (dec (unat (hopcnt e))), ljust 3 (state_to_str (rt_state e)),
     ljust 5 (if dest_seqno e = 0 then ''-'' else dec (unat (dest_seqno e))),
     ljust 6 (dec (if hopcnt e = 255 then 0 else nat (timeval_diff (t_timeout (timers s (Rt_timer rt))) now mod 2 ^ 32))),
     ljust 5 (rt_flags_to_str (rt_flags e)), ljust 5 ifname]"

text \<open>
  What is written for an entry. \<open>rt_buf\<close> is the text that waits in the buffer: the line of the
  route with the first precursor, to which each further precursor is added before a write.
\<close>

fun precursor_writes :: "string \<Rightarrow> u32 list \<Rightarrow> string list" where
  "precursor_writes rt_buf [] = (if rt_buf \<noteq> [] then [rt_buf] else [])"
| "precursor_writes rt_buf (pr # prs) =
     (rt_buf @ rjust 64 '' '' @ '' '' @ ljust 15 (dotted pr) @ newline) # precursor_writes [] prs"

definition rt_entry_writes :: "timeval \<Rightarrow> string \<Rightarrow> node \<Rightarrow> ptr \<Rightarrow> string list" where
  "rt_entry_writes now ifname s rt = (case rts s rt of None \<Rightarrow> []
     | Some e \<Rightarrow> (case precursors e of
           [] \<Rightarrow> [spaced (rt_fields now ifname s rt e) @ newline]
         | pr # prs \<Rightarrow> precursor_writes (spaced (rt_fields now ifname s rt e @ [ljust 15 (dotted pr)]) @ newline) prs))"

definition rt_table_writes :: "(int \<Rightarrow> nat \<times> nat \<times> nat) \<Rightarrow> timeval \<Rightarrow> string \<Rightarrow> node \<Rightarrow> string list" where
  "rt_table_writes localtime now ifname s =
     (if num_entries s = 0 then []
      else rt_header localtime now s #
        concat (map (\<lambda>i. concat (map (rt_entry_writes now ifname s) (tbl s i))) [0..<RT_TABLESIZE]))"

section \<open>Lemmas\<close>

lemma length_NUL: "NUL \<notin> set (dotted a)"
proof -
  have "NUL \<notin> set (dec n)" for n
  proof
    assume "NUL \<in> set (dec n)"
    then have "digit NUL" using dec_digits [of n] by (simp add: list_all_iff)
    then show False by (simp add: digit_def NUL_def)
  qed
  moreover have "NUL \<noteq> CHR ''.''" by code_simp
  ultimately show ?thesis by (simp add: dotted_def)
qed

definition slots_ok :: "ring \<Rightarrow> bool" where
  "slots_ok r \<longleftrightarrow> length (ring_buf r) = 64 \<and> ring_index r \<in> {0, 16, 32, 48}"

text \<open>The address \<open>a\<close> can be read at offset \<open>p\<close>.\<close>

definition shows_at :: "nat \<Rightarrow> u32 \<Rightarrow> ring \<Rightarrow> bool" where
  "shows_at p a r \<longleftrightarrow> (\<forall>k \<le> length (dotted a). ring_buf r ! (p + k) = (dotted a @ [NUL]) ! k)"

lemma shows_at_string:
  assumes "shows_at p a r" and "p + 16 \<le> length (ring_buf r)"
  shows "string_at p r = dotted a"
proof -
  have l: "length (dotted a @ [NUL]) \<le> 16" using length_dotted [of a] by simp
  have "take (length (dotted a @ [NUL])) (drop p (ring_buf r)) = dotted a @ [NUL]"
    by (rule nth_equalityI) (use assms l in \<open>auto simp: shows_at_def less_Suc_eq_le\<close>)
  then obtain t where t: "drop p (ring_buf r) = (dotted a @ [NUL]) @ t" by (metis append_take_drop_id)
  have "c \<noteq> NUL" if "c \<in> set (dotted a)" for c using that length_NUL [of a] by metis
  then show ?thesis unfolding string_at_def t by (simp add: takeWhile_tail)
qed

lemma ip_to_str_fresh:
  assumes "slots_ok r" shows "slots_ok (snd (ip_to_str a r)) \<and> shows_at (ring_index r) a (snd (ip_to_str a r))"
  using assms length_dotted [of a] by (auto simp: slots_ok_def shows_at_def ip_to_str_def nth_poke less_Suc_eq_le)

lemma ip_to_str_keeps:
  assumes "slots_ok r" and "shows_at p b r" and "p \<in> {0, 16, 32, 48}" and "p \<noteq> ring_index r"
  shows "shows_at p b (snd (ip_to_str a r))"
proof -
  have "\<not> (ring_index r \<le> p + k \<and> p + k < ring_index r + length (dotted a @ [NUL]))" "p + k < 64" if "k \<le> length (dotted b)" for k
    using assms(1,3,4) that length_dotted [of a] length_dotted [of b] by (auto simp: slots_ok_def)
  then show ?thesis
    using assms(1,2) length_dotted [of a] by (auto simp: slots_ok_def shows_at_def ip_to_str_def nth_poke)
qed


text \<open>Some more calls leave a string alone, as long as they do not come round to its slot.\<close>

definition print_all :: "u32 list \<Rightarrow> ring \<Rightarrow> ring" where
  "print_all addrs = fold (\<lambda>a r. snd (ip_to_str a r)) addrs"

lemma print_all_ok: "slots_ok r \<Longrightarrow> slots_ok (print_all addrs r)
    \<and> ring_index (print_all addrs r) = (ring_index r + 16 * length addrs) mod 64"
proof (induction addrs arbitrary: r)
  case Nil
  then show ?case by (auto simp: print_all_def slots_ok_def)
next
  case (Cons a addrs)
  have "ring_index (snd (ip_to_str a r)) = (ring_index r + 16) mod 64" by (simp add: ip_to_str_def)
  then have "(ring_index (snd (ip_to_str a r)) + 16 * length addrs) mod 64 = (ring_index r + 16 * length (a # addrs)) mod 64"
    by (simp add: mod_simps algebra_simps)
  then show ?case using Cons.IH [of "snd (ip_to_str a r)"] ip_to_str_fresh [OF Cons.prems] by (simp add: print_all_def)
qed

lemma print_all_keeps:
  "slots_ok r \<Longrightarrow> shows_at p b r \<Longrightarrow> p \<in> {0, 16, 32, 48} \<Longrightarrow>
   ring_index r = (p + 16 * j) mod 64 \<Longrightarrow> 1 \<le> j \<Longrightarrow> j + length addrs \<le> 4 \<Longrightarrow> shows_at p b (print_all addrs r)"
proof (induction addrs arbitrary: r j)
  case (Cons a addrs)
  have "p \<noteq> ring_index r"
  proof
    assume "p = ring_index r"
    then have "p = (p + 16 * j) mod 64" using Cons.prems(4) by simp
    moreover have "j \<in> {1, 2, 3}" using Cons.prems(5,6) by auto
    ultimately show False using Cons.prems(3) by auto
  qed
  then have "shows_at p b (snd (ip_to_str a r))" using Cons.prems ip_to_str_keeps by blast
  moreover have "slots_ok (snd (ip_to_str a r))" using ip_to_str_fresh [OF Cons.prems(1)] by simp
  moreover have "ring_index (snd (ip_to_str a r)) = (p + 16 * Suc j) mod 64"
    using Cons.prems(4) by (simp add: ip_to_str_def mod_simps algebra_simps)
  ultimately have "shows_at p b (print_all addrs (snd (ip_to_str a r)))"
    using Cons.prems by (intro Cons.IH [of _ "Suc j"]) simp_all
  then show ?case by (simp add: print_all_def)
qed (simp add: print_all_def)

text \<open>The text of an entry, in one piece.\<close>

definition rt_entry_text :: "timeval \<Rightarrow> string \<Rightarrow> node \<Rightarrow> ptr \<Rightarrow> string" where
  "rt_entry_text now ifname s rt = (case rts s rt of None \<Rightarrow> []
     | Some e \<Rightarrow> spaced (rt_fields now ifname s rt e @ (if precursors e = [] then [] else [ljust 15 (dotted (hd (precursors e)))])) @ newline
         @ concat (map (\<lambda>pr. rjust 64 '' '' @ '' '' @ ljust 15 (dotted pr) @ newline) (tl (precursors e))))"

lemma concat_precursor_writes:
  "concat (precursor_writes buf prs) = buf @ concat (map (\<lambda>pr. rjust 64 '' '' @ '' '' @ ljust 15 (dotted pr) @ newline) prs)"
  by (induction prs arbitrary: buf) simp_all

lemma concat_entry_writes: "concat (rt_entry_writes now ifname s rt) = rt_entry_text now ifname s rt"
  by (simp add: rt_entry_writes_def rt_entry_text_def concat_precursor_writes split: option.split list.split)

lemma spaced_append: "length (spaced (xs @ [x])) \<le> length (spaced xs) + length x + 1"
  by (induction xs rule: spaced.induct) simp_all

lemma length_fields:
  assumes "length ifname \<le> 15"
  shows "length (spaced (rt_fields now ifname s rt e)) \<le> 100"
proof -
  have n: "length (dec (nat (i mod 2 ^ 32))) \<le> 10" for i :: int
    using length_dec [of "nat (i mod 2 ^ 32)" 9] by (simp add: nat_less_iff)
  have "length (dec (if hopcnt e = 255 then 0 else nat (timeval_diff (t_timeout (timers s (Rt_timer rt))) now mod 2 ^ 32))) \<le> 10"
    using n length_dec [of 0 0] by auto
  moreover have "length (rt_flags_to_str (rt_flags e)) \<le> 3" "length (state_to_str (rt_state e)) \<le> 3"
    by (simp_all add: rt_flags_to_str_def state_to_str_def)
  moreover have "length (if dest_seqno e = 0 then ''-'' else dec (unat (dest_seqno e))) \<le> 10"
    using length_dec_u32 [of "dest_seqno e"] by simp
  ultimately show ?thesis
    using assms length_dotted [of "dest_addr e"] length_dotted [of "next_hop e"] length_dec_u8 [of "hopcnt e"]
    unfolding rt_fields_def by (simp only: spaced.simps length_append length_ljust list.size One_nat_def) (simp add: max_def)
qed

lemma length_precursor_writes:
  "length buf \<le> 200 \<Longrightarrow> w \<in> set (precursor_writes buf prs) \<Longrightarrow> length w \<le> 300"
proof (induction prs arbitrary: buf)
  case (Cons pr prs)
  have "length (ljust 15 (dotted pr)) = 15" "length (rjust 64 '' '') = 64"
    using length_dotted [of pr] by (simp_all add: length_ljust length_rjust)
  then have "length w \<le> 300" if "w = buf @ rjust 64 '' '' @ '' '' @ ljust 15 (dotted pr) @ newline"
    using that Cons.prems(1) by (simp add: newline_def)
  moreover have "length w \<le> 300" if "w \<in> set (precursor_writes [] prs)" using Cons.IH [OF _ that] by simp
  ultimately show ?case using Cons.prems(2) by auto
qed (auto split: if_splits)

lemma length_entry_writes:
  assumes "length ifname \<le> 15" and "w \<in> set (rt_entry_writes now ifname s rt)"
  shows "length w \<le> 300"
proof -
  obtain e where e: "rts s rt = Some e" using assms(2) by (cases "rts s rt") (auto simp: rt_entry_writes_def)
  note l = length_fields [OF assms(1), of now s rt e]
  show ?thesis
  proof (cases "precursors e")
    case Nil
    then show ?thesis using assms(2) l e by (simp add: rt_entry_writes_def newline_def)
  next
    case (Cons pr prs)
    have "length (ljust 15 (dotted pr)) = 15" using length_dotted [of pr] by (simp add: length_ljust)
    then have "length (spaced (rt_fields now ifname s rt e @ [ljust 15 (dotted pr)]) @ newline) \<le> 200"
      using spaced_append [of "rt_fields now ifname s rt e" "ljust 15 (dotted pr)"] l by (simp add: newline_def)
    then show ?thesis by (rule length_precursor_writes) (use assms(2) e Cons in \<open>simp add: rt_entry_writes_def\<close>)
  qed
qed

definition clock_ok :: "(int \<Rightarrow> nat \<times> nat \<times> nat) \<Rightarrow> timeval \<Rightarrow> bool" where
  "clock_ok localtime now \<longleftrightarrow> (let (h, m, s) = localtime (tv_sec now) in h < 24 \<and> m < 60 \<and> s \<le> 60)
     \<and> 0 \<le> tv_usec now \<and> tv_usec now < 1000000"

lemma length_clock_text:
  assumes "clock_ok localtime now" shows "length (clock_text localtime now) = 12"
proof -
  obtain h m s where t: "localtime (tv_sec now) = (h, m, s)" by (metis prod_cases3)
  then have b: "h < 10 ^ Suc 1" "m < 10 ^ Suc 1" "s < 10 ^ Suc 1" "nat (tv_usec now div 1000) < 10 ^ Suc 2"
    using assms by (auto simp: clock_ok_def)
  show ?thesis using length_dec [OF b(1)] length_dec [OF b(2)] length_dec [OF b(3)] length_dec [OF b(4)]
    by (simp add: clock_text_def t length_zeros)
qed

lemma length_header:
  assumes "clock_ok localtime now" shows "length (rt_header localtime now s) \<le> 300"
  using length_clock_text [OF assms] length_dotted [of "dev_ipaddr s"] length_dec_u32 [of "host_seqno s"]
    length_dec_u32 [of "num_entries s"] length_dec_u32 [of "num_active s"]
  by (simp add: rt_header_def newline_def length_ljust)

section \<open>Properties\<close>

text \<open>
  The strings of \<^verbatim>\<open>ip_to_str\<close>. Up to four results may be in use at once, as in the lines
  of the routing table: after any calls, the last four of them still read as their addresses, which
  they determine, and no call leaves the buffer.
\<close>

theorem ip_to_str_last_four:
  assumes r: "slots_ok r" and k: "k < length addrs" "length addrs \<le> k + 4"
  shows "let p = fst (ip_to_str (addrs ! k) (print_all (take k addrs) r)); t = string_at p (print_all addrs r) in
    t = dotted (addrs ! k) \<and> undotted t = addrs ! k \<and> length (ring_buf (print_all addrs r)) = 64"
proof -
  let ?r = "print_all (take k addrs) r" let ?p = "ring_index ?r" let ?a = "addrs ! k"
  have ok: "slots_ok ?r" using print_all_ok [OF r] by blast
  have p: "?p \<in> {0, 16, 32, 48}" using ok by (simp add: slots_ok_def)
  have split: "addrs = take k addrs @ ?a # drop (Suc k) addrs" using k(1) by (rule id_take_nth_drop)
  have "print_all addrs r = print_all (drop (Suc k) addrs) (snd (ip_to_str ?a ?r))"
    unfolding print_all_def by (subst split) simp
  moreover have "shows_at ?p ?a (print_all (drop (Suc k) addrs) (snd (ip_to_str ?a ?r)))"
    by (rule print_all_keeps [of _ _ _ 1]) (use ip_to_str_fresh [OF ok] p k in \<open>auto simp: ip_to_str_def\<close>)
  ultimately have s: "shows_at ?p ?a (print_all addrs r)" by simp
  have l: "length (ring_buf (print_all addrs r)) = 64" using print_all_ok [OF r, of addrs] by (simp add: slots_ok_def)
  have "string_at ?p (print_all addrs r) = dotted ?a" by (rule shows_at_string [OF s]) (use l p in auto)
  then show ?thesis using l undotted_dotted by (simp add: ip_to_str_def)
qed

theorem ip_to_str_last_four_witness:
  "string_at 16 (print_all [10, 0x100a8c0, 1, 2, 3] \<lparr>ring_buf = replicate 64 NUL, ring_index = 0\<rparr>) = dotted 0x100a8c0
   \<and> dotted 0x100a8c0 = ''192.168.0.1''"
proof
  show "string_at 16 (print_all [10, 0x100a8c0, 1, 2, 3] \<lparr>ring_buf = replicate 64 NUL, ring_index = 0\<rparr>) = dotted 0x100a8c0"
    using ip_to_str_last_four [of "\<lparr>ring_buf = replicate 64 NUL, ring_index = 0\<rparr>" 1 "[10, 0x100a8c0, 1, 2, 3]"]
    by (simp add: slots_ok_def Let_def ip_to_str_def print_all_def)
qed (simp add: dotted_def octet_def dec.simps, code_simp)

text \<open>
  C38: the dump of the routing table stays in its buffer of 2048 characters: whatever the table holds,
  every string that \<^verbatim>\<open>print_rt_table\<close> builds before it writes it is shorter. Together they
  are the header and, for each entry of the table in the order of the buckets, its line and one for
  each precursor after the first.
\<close>

theorem rt_table_dump:
  assumes c: "clock_ok localtime now" and n: "length ifname \<le> 15"
  shows "(\<forall>w \<in> set (rt_table_writes localtime now ifname s). length w < 2048)
    \<and> (num_entries s \<noteq> 0 \<longrightarrow> concat (rt_table_writes localtime now ifname s) = rt_header localtime now s
        @ concat (map (rt_entry_text now ifname s) (concat (map (tbl s) [0..<RT_TABLESIZE]))))"
proof
  show "\<forall>w \<in> set (rt_table_writes localtime now ifname s). length w < 2048"
  proof
    fix w assume "w \<in> set (rt_table_writes localtime now ifname s)"
    then consider "w = rt_header localtime now s" | i p where "w \<in> set (rt_entry_writes now ifname s p)"
      by (auto simp: rt_table_writes_def split: if_splits)
    then show "length w < 2048"
      using length_header [OF c, of s] length_entry_writes [OF n] by cases fastforce+
  qed
  have "concat (concat (map (rt_entry_writes now ifname s) ps)) = concat (map (rt_entry_text now ifname s) ps)" for ps
    by (induction ps) (simp_all add: concat_entry_writes)
  then have "concat (concat (map (\<lambda>i. concat (map (rt_entry_writes now ifname s) (tbl s i))) is))
      = concat (map (rt_entry_text now ifname s) (concat (map (tbl s) is)))" for "is"
    by (induction "is") simp_all
  then show "num_entries s \<noteq> 0 \<longrightarrow> concat (rt_table_writes localtime now ifname s) = rt_header localtime now s
        @ concat (map (rt_entry_text now ifname s) (concat (map (tbl s) [0..<RT_TABLESIZE])))"
    by (simp add: rt_table_writes_def)
qed

text \<open>A table with a route to 10.0.0.2 in its bucket, and a precursor.\<close>

definition logged :: node where
  "logged = node0\<lparr>num_entries := 1, num_active := 1, dev_ipaddr := 0x100000a, tbl := (\<lambda>i. if i = 10 then [7] else []),
     rts := [7 \<mapsto> blank_rt\<lparr>dest_addr := 0x200000a, next_hop := 0x200000a, hopcnt := 1, rt_state := VALID, dest_seqno := 9, nprecursor := 1, precursors := [0x300000a]\<rparr>]\<rparr>"

theorem rt_table_dump_witness:
  "concat (rt_table_writes (\<lambda>_. (13, 5, 0)) zero_time ''br-lan'' logged) =
     rt_header (\<lambda>_. (13, 5, 0)) zero_time logged @
     ''10.0.0.2        10.0.0.2        1   VAL 9     0            br-lan 10.0.0.3       '' @ newline"
proof -
  have "rts logged 7 = Some (blank_rt\<lparr>dest_addr := 0x200000a, next_hop := 0x200000a, hopcnt := 1, rt_state := VALID, dest_seqno := 9,
      nprecursor := 1, precursors := [0x300000a]\<rparr>)" "timers logged (Rt_timer 7) = \<lparr>t_used = False, t_timeout = zero_time, t_handler = None, t_data = None\<rparr>"
    by (simp_all add: logged_def node0_def globals_def)
  moreover have "dotted 0x200000a = ''10.0.0.2''" "dotted 0x300000a = ''10.0.0.3''"
    by (simp add: dotted_def octet_def dec.simps, code_simp)+
  moreover have "dec 0 = ''0''" "dec 1 = ''1''" "dec 9 = ''9''" by code_simp+
  moreover have "rt_flags_to_str 0 = []" "state_to_str 1 = ''VAL''" by (simp_all add: rt_flags_to_str_def has_def state_to_str_def)
  moreover have "timeval_diff zero_time zero_time = 0" by (simp add: timeval_diff_def zero_time_def wrap32_def)
  ultimately have "rt_entry_text zero_time ''br-lan'' logged 7 = ''10.0.0.2        10.0.0.2        1   VAL 9     0            br-lan 10.0.0.3       '' @ newline"
    by (simp add: rt_entry_text_def rt_fields_def ljust_def blank_rt_def) (simp add: numeral_eq_Suc)
  moreover have "concat (map (tbl logged) [0..<RT_TABLESIZE]) = [7]"
  proof -
    have "concat (map (\<lambda>i. if i = 10 then [7 :: ptr] else []) is) = (if 10 \<in> set is then [7] else [])" if "distinct is" for "is" :: "nat list"
      using that by (induction "is") auto
    from this [of "[0..<64]"] show ?thesis by (simp add: logged_def)
  qed
  moreover have "clock_ok (\<lambda>_. (13, 5, 0)) zero_time" by (simp add: clock_ok_def zero_time_def)
  moreover have "num_entries logged \<noteq> 0" by (simp add: logged_def)
  ultimately show ?thesis using rt_table_dump [of "\<lambda>_. (13, 5, 0)" zero_time "''br-lan''" logged] by simp
qed

text \<open>
  A message that fits its buffer is always logged: with a function name of up to 200 and an error text
  of up to 200 characters the line has room, so the test of its length never fails.
\<close>

theorem alog_logs:
  assumes c: "clock_ok localtime now" and m: "length msg \<le> 246" "length fn \<le> 200" "length (strerror errnum) \<le> 200"
  shows "\<exists>acts. alog localtime strerror now fd written debug True type errnum fn msg =
    Some (write_to_log_file fd written (alog_line localtime strerror now errnum fn msg) @ acts)"
proof -
  have "length (alog_line localtime strerror now errnum fn msg) < 1024"
    using m length_clock_text [OF c] by (simp add: alog_line_def newline_def)
  then show ?thesis using m by (simp add: alog_def Let_def)
qed

end
