(* ===== verification/Boot.thy ===== *)
theory Boot
  imports Dispatch
begin

text \<open>
  Starting and stopping the daemon: \<^verbatim>\<open>main.c\<close>, \<^verbatim>\<open>nl_init\<close> and \<^verbatim>\<open>nl_cleanup\<close>
  of \<^verbatim>\<open>nl.c\<close>, \<^verbatim>\<open>aodv_socket_init\<close> and \<^verbatim>\<open>aodv_socket_cleanup\<close> of
  \<^verbatim>\<open>aodv_socket.c\<close>, \<^verbatim>\<open>log_init\<close> and \<^verbatim>\<open>log_cleanup\<close> of
  \<^verbatim>\<open>debug.c\<close>. The state is the operating system as far as the daemon uses it, and the node
  of the other theories. The result of the \<open>n\<close>-th system call is \<open>b_ret n\<close>, the word it stores
  for the caller \<open>b_data n\<close>. A call to \<^verbatim>\<open>exit\<close> sets \<open>b_exit\<close>; what would follow it is in the
  other branch. Messages that are only logged are left out.
\<close>

section \<open>The operating system\<close>

datatype sys_call = Geteuid | Open string | Write int string | Close int | Socket string | Bind int | Getsockname int
  | Setsockopt int string int | Ioctl int string | Stat string | System string | Remove string

datatype callback = Nl_kaodv_callback | Nl_rt_callback | Aodv_socket_read

record boot =
  b_ret :: "nat \<Rightarrow> int"
  b_data :: "nat \<Rightarrow> u32"
  b_calls :: nat
  b_trace :: "sys_call list"
  b_exit :: bool
  b_files :: "int \<Rightarrow> string option"
  b_settings :: "string \<Rightarrow> string option"
  b_node :: node
  b_ifname :: string
  b_netmask :: u32
  b_callbacks :: "(int \<times> callback) list"
  dev_sock :: int
  aodvnl_sock :: int
  rtnl_sock :: int
  log_file_fd :: int
  log_rt_fd :: int

type_synonym 'a booting = "(boot, 'a) state"

abbreviation (input) give :: "'a \<Rightarrow> 'a booting" where
  "give \<equiv> State_Monad.return"

definition looks :: "(boot \<Rightarrow> 'a) \<Rightarrow> 'a booting" where
  "looks f = State (\<lambda>b. (f b, b))"

definition changes :: "(boot \<Rightarrow> boot) \<Rightarrow> unit booting" where
  "changes g = State (\<lambda>b. ((), g b))"

definition on_node :: "'a daemon \<Rightarrow> 'a booting" where
  "on_node m = State (\<lambda>b. let (a, s) = run_state m (b_node b) in (a, b\<lparr>b_node := s\<rparr>))"

definition sys :: "sys_call \<Rightarrow> int booting" where
  "sys c = State (\<lambda>b. (b_ret b (b_calls b), b\<lparr>b_calls := Suc (b_calls b), b_trace := b_trace b @ [c]\<rparr>))"

definition exits :: "unit booting" where
  "exits = changes (\<lambda>b. b\<lparr>b_exit := True\<rparr>)"

text \<open>\<open>k\<close> after \<open>m\<close>, unless \<open>m\<close> has left the program.\<close>

definition and_then :: "unit booting \<Rightarrow> unit booting \<Rightarrow> unit booting" where
  "and_then m k = do { m; gone \<leftarrow> looks b_exit; if gone then give () else k }"

definition gets_fd :: "sys_call \<Rightarrow> string \<Rightarrow> int booting" where
  "gets_fd c path = do {
     fd \<leftarrow> sys c;
     if fd < 0 then give fd
     else do { changes (\<lambda>b. b\<lparr>b_files := (b_files b)(fd \<mapsto> path)\<rparr>); give fd } }"

definition sys_open :: "string \<Rightarrow> int booting" where
  "sys_open path = gets_fd (Open path) path"

definition sys_socket :: "string \<Rightarrow> int booting" where
  "sys_socket kind = gets_fd (Socket kind) kind"

definition sys_write :: "int \<Rightarrow> string \<Rightarrow> int booting" where
  "sys_write fd text = do {
     r \<leftarrow> sys (Write fd text);
     if r < 0 then give r
     else do {
       changes (\<lambda>b. case b_files b fd of None \<Rightarrow> b | Some path \<Rightarrow> b\<lparr>b_settings := (b_settings b)(path \<mapsto> text)\<rparr>);
       give r } }"

definition sys_close :: "int \<Rightarrow> int booting" where
  "sys_close fd = do { r \<leftarrow> sys (Close fd); changes (\<lambda>b. b\<lparr>b_files := (b_files b)(fd := None)\<rparr>); give r }"

definition sys_ioctl :: "int \<Rightarrow> string \<Rightarrow> (int \<times> u32) booting" where
  "sys_ioctl fd req = do { n \<leftarrow> looks b_calls; r \<leftarrow> sys (Ioctl fd req); d \<leftarrow> looks (\<lambda>b. b_data b n); give (r, d) }"

section \<open>Callbacks\<close>

definition attach_callback_func :: "int \<Rightarrow> callback \<Rightarrow> int booting" where
  "attach_callback_func fd func = do {
     cs \<leftarrow> looks b_callbacks;
     if length cs \<ge> 3 then give (- 1)
     else do { changes (\<lambda>b. b\<lparr>b_callbacks := b_callbacks b @ [(fd, func)]\<rparr>); give 0 } }"

text \<open>The first argument of \<^verbatim>\<open>select\<close>, and the descriptors it watches.\<close>

definition nfds :: "(int \<times> callback) list \<Rightarrow> int" where
  "nfds cs = fold (\<lambda>(fd, func) n. if fd \<ge> n then fd + 1 else n) cs 0"

section \<open>Kernel settings\<close>

text \<open>The steps of \<^verbatim>\<open>set_kernel_options\<close> and \<^verbatim>\<open>reset_kernel_options\<close>: open, write, close.\<close>

fun put_options :: "(string \<times> string) list \<Rightarrow> int booting" where
  "put_options [] = give 0"
| "put_options ((path, value) # rest) = do {
     fd \<leftarrow> sys_open path;
     if fd < 0 then give (- 1)
     else do {
       r \<leftarrow> sys_write fd value;
       if r < 0 then give (- 1)
       else do { sys_close fd; put_options rest } } }"

definition ip_forward :: string where
  "ip_forward = ''/proc/sys/net/ipv4/ip_forward''"

definition redirects :: "string \<Rightarrow> string \<Rightarrow> string" where
  "redirects ifname what = ''/proc/sys/net/ipv4/conf/'' @ ifname @ ''/'' @ what @ ''_redirects''"

definition kernel_options :: "string \<Rightarrow> string \<Rightarrow> string \<Rightarrow> string \<Rightarrow> int booting" where
  "kernel_options dev_send dev_accept all_send all_accept = do {
     r \<leftarrow> put_options [(ip_forward, ''1'')];
     if r < 0 then give (- 1)
     else do {
       en \<leftarrow> looks (\<lambda>b. dev_enabled (b_node b));
       name \<leftarrow> looks b_ifname;
       if \<not> en then give (- 1)
       else put_options [(redirects name ''send'', dev_send), (redirects name ''accept'', dev_accept),
         (redirects ''all'' ''send'', all_send), (redirects ''all'' ''accept'', all_accept)] } }"

definition set_kernel_options :: "int booting" where
  "set_kernel_options = kernel_options ''0'' ''0'' ''0'' ''0''"

definition reset_kernel_options :: "int booting" where
  "reset_kernel_options = kernel_options ''1'' ''1'' ''1'' ''0''"

section \<open>The interface and the module\<close>

definition get_if_info :: "string \<Rightarrow> u32 option booting" where
  "get_if_info type = do {
     skfd \<leftarrow> sys_socket ''inet dgram'';
     (r, addr) \<leftarrow> sys_ioctl skfd type;
     if r < 0 then do { sys_close skfd; give None }
     else do { sys_close skfd; give (Some addr) } }"

definition load_modules :: "unit booting" where
  "load_modules = do {
     st \<leftarrow> sys (Stat ''./kaodv.ko'');
     r \<leftarrow> sys (System (if st = 0 then ''/usr/sbin/insmod kaodv.ko'' else []));
     if r = - 1 then exits else give () }"

definition remove_modules :: "unit booting" where
  "remove_modules = do { sys (System ''/usr/sbin/rmmod kaodv.ko''); give () }"

text \<open>
  \<^verbatim>\<open>host_init\<close>. The first part runs only without a name, which \<^verbatim>\<open>main\<close>
  always gives: the interfaces are tried in the order of \<^verbatim>\<open>buf\<close>, one more than the kernel
  has filled in, of 32 bytes each; \<open>ifrs\<close> are the names found there, \<open>tmp_ifname\<close> what the
  array on the stack holds before. The descriptor \<^verbatim>\<open>if_sock\<close>, 0 in this part, is closed in place
  of \<^verbatim>\<open>iw_sock\<close>; later it is never closed.
\<close>

fun find_wireless :: "int \<Rightarrow> string list \<Rightarrow> string \<Rightarrow> string booting" where
  "find_wireless iw_sock [] tmp_ifname = give tmp_ifname"
| "find_wireless iw_sock (name # names) tmp_ifname = do {
     r \<leftarrow> sys (Ioctl iw_sock ''SIOCGIWNAME'');
     if r \<ge> 0 then give name else find_wireless iw_sock names tmp_ifname }"

definition wireless_name :: "string list \<Rightarrow> string \<Rightarrow> string option booting" where
  "wireless_name ifrs tmp_ifname = do {
     iw_sock \<leftarrow> sys_socket ''inet dgram'';
     (r, ifc_len) \<leftarrow> sys_ioctl iw_sock ''SIOCGIFCONF'';
     if r < 0 then do { exits; give None }
     else do {
       name \<leftarrow> find_wireless iw_sock (take (Suc (unat ifc_len div 32)) ifrs) tmp_ifname;
       if name = [] then do { exits; give None }
       else do {
         r \<leftarrow> sys (Ioctl iw_sock ''SIOCGIFINDEX'');
         if r < 0 then do { sys_close 0; exits; give None }
         else do { sys_close iw_sock; give (Some name) } } } }"

definition take_address :: "string \<Rightarrow> (u32 \<Rightarrow> boot \<Rightarrow> boot) \<Rightarrow> unit booting" where
  "take_address req put = do {
     ina \<leftarrow> get_if_info req;
     case ina of None \<Rightarrow> exits | Some addr \<Rightarrow> changes (put addr) }"

definition host_clear :: "unit booting" where
  "host_clear = do {
     on_node (modify (\<lambda>s. s\<lparr>last_forward_time := zero_time, dev_enabled := False, dev_ifindex := 0, dev_ipaddr := 0,
       dev_broadcast := 0\<rparr>));
     changes (\<lambda>b. b\<lparr>b_ifname := [], b_netmask := 0, dev_sock := 0\<rparr>) }"

definition host_attach :: "string \<Rightarrow> unit booting" where
  "host_attach name = do {
     on_node (modify (\<lambda>s. s\<lparr>host_seqno := 0, host_rreq_id := 0\<rparr>));
     now \<leftarrow> on_node gettimeofday;
     on_node (modify (\<lambda>s. s\<lparr>last_broadcast_time := now\<rparr>));
     if_sock \<leftarrow> sys_socket ''inet dgram'';
     (r, index) \<leftarrow> sys_ioctl if_sock ''SIOCGIFINDEX'';
     if r < 0 then do { sys_close if_sock; exits }
     else do {
       changes (\<lambda>b. b\<lparr>b_node := (b_node b)\<lparr>dev_ifindex := sint index\<rparr>, b_ifname := name\<rparr>);
       and_then (take_address ''SIOCGIFADDR'' (\<lambda>a b. b\<lparr>b_node := (b_node b)\<lparr>dev_ipaddr := a\<rparr>\<rparr>))
       (and_then (take_address ''SIOCGIFNETMASK'' (\<lambda>a b. b\<lparr>b_netmask := a\<rparr>))
       (and_then (take_address ''SIOCGIFBRDADDR'' (\<lambda>a b. b\<lparr>b_node := (b_node b)\<lparr>dev_broadcast := a\<rparr>\<rparr>))
       (do {
         on_node (modify (\<lambda>s. s\<lparr>dev_enabled := True\<rparr>));
         and_then load_modules (do {
           r \<leftarrow> set_kernel_options;
           if r < 0 then exits else give () }) }))) } }"

definition host_init_named :: "string \<Rightarrow> unit booting" where
  "host_init_named name = do { host_clear; host_attach name }"

definition host_init_any :: "string list \<Rightarrow> string \<Rightarrow> string option \<Rightarrow> unit booting" where
  "host_init_any ifrs tmp_ifname ifname = do {
     host_clear;
     name \<leftarrow> (case ifname of None \<Rightarrow> wireless_name ifrs tmp_ifname | Some name \<Rightarrow> give (Some name));
     case name of None \<Rightarrow> give () | Some name \<Rightarrow> host_attach name }"

section \<open>Sockets\<close>

text \<open>The two halves of \<^verbatim>\<open>nl_init\<close>; a callback that cannot be attached is only logged.\<close>

definition nl_open :: "string \<Rightarrow> (int \<Rightarrow> boot \<Rightarrow> boot) \<Rightarrow> callback \<Rightarrow> unit booting" where
  "nl_open family put func = do {
     sock \<leftarrow> sys_socket family;
     changes (put sock);
     if sock < 0 then exits
     else do {
       status \<leftarrow> sys (Bind sock);
       if status < 0 then exits
       else do {
         r \<leftarrow> sys (Getsockname sock);
         if r < 0 then exits
         else do { attach_callback_func sock func; give () } } } }"

definition nl_init :: "unit booting" where
  "nl_init = do {
     on_node (modify (\<lambda>s. s\<lparr>aodvnl_seqno := 0\<rparr>));
     and_then (nl_open ''netlink aodv'' (\<lambda>fd b. b\<lparr>aodvnl_sock := fd\<rparr>) Nl_kaodv_callback) (do {
       on_node (modify (\<lambda>s. s\<lparr>rtnl_seqno := 0\<rparr>));
       nl_open ''netlink route'' (\<lambda>fd b. b\<lparr>rtnl_sock := fd\<rparr>) Nl_rt_callback }) }"

definition nl_cleanup :: "unit booting" where
  "nl_cleanup = do {
     a \<leftarrow> looks aodvnl_sock; sys_close a;
     r \<leftarrow> looks rtnl_sock; sys_close r;
     give () }"

text \<open>
  The loop that asks for a receive buffer, 1024 bytes smaller at each turn, with \<open>n\<close> units of 1024
  bytes: the size is below \<^verbatim>\<open>RECE_BUF_SIZE\<close> only when it is 0.
\<close>

fun set_rcvbuf :: "int \<Rightarrow> nat \<Rightarrow> bool booting" where
  "set_rcvbuf sock 0 = do { r \<leftarrow> sys (Setsockopt sock ''SO_RCVBUF'' 0); give (r = 0) }"
| "set_rcvbuf sock (Suc n) = do {
     r \<leftarrow> sys (Setsockopt sock ''SO_RCVBUF'' (1024 * int (Suc n)));
     if r = 0 then give True else set_rcvbuf sock n }"

fun set_options :: "int \<Rightarrow> (string \<times> int) list \<Rightarrow> bool booting" where
  "set_options sock [] = give True"
| "set_options sock ((opt, value) # rest) = do {
     r \<leftarrow> sys (Setsockopt sock opt value);
     if r < 0 then give False else set_options sock rest }"

definition aodv_socket_init :: "unit booting" where
  "aodv_socket_init = do {
     en \<leftarrow> looks (\<lambda>b. dev_enabled (b_node b));
     if \<not> en then exits
     else do {
       sock \<leftarrow> sys_socket ''inet udp'';
       changes (\<lambda>b. b\<lparr>dev_sock := sock\<rparr>);
       if sock < 0 then exits
       else do {
         r \<leftarrow> sys (Bind sock);
         if r < 0 then exits
         else do {
           ok \<leftarrow> set_options sock [(''SO_BROADCAST'', 1), (''SO_BINDTODEVICE'', 0), (''SO_PRIORITY'', 16),
             (''IP_RECVTTL'', 1), (''IP_PKTINFO'', 1)];
           if \<not> ok then exits
           else do {
             ok \<leftarrow> set_rcvbuf sock 256;
             if \<not> ok then exits
             else do {
               r \<leftarrow> attach_callback_func sock Aodv_socket_read;
               if r < 0 then exits
               else on_node (modify (\<lambda>s. s\<lparr>num_rreq := 0, num_rerr := 0\<rparr>)) } } } } } }"

definition aodv_socket_cleanup :: "unit booting" where
  "aodv_socket_cleanup = do { fd \<leftarrow> looks dev_sock; sys_close fd; give () }"

section \<open>Logs\<close>

text \<open>\<^verbatim>\<open>log_to_file\<close> is 1 and nothing changes it.\<close>

definition log_init :: "unit booting" where
  "log_init = do {
     fd \<leftarrow> sys_open ''/var/log/aodv.log'';
     changes (\<lambda>b. b\<lparr>log_file_fd := fd\<rparr>);
     if fd < 0 then exits
     else do {
       t \<leftarrow> looks (\<lambda>b. rt_log_interval (b_node b));
       if t = 0 then give ()
       else do {
         fd \<leftarrow> sys_open ''/var/log/aodv.rtlog'';
         changes (\<lambda>b. b\<lparr>log_rt_fd := fd\<rparr>);
         if fd < 0 then exits else give () } } }"

definition log_cleanup :: "unit booting" where
  "log_cleanup = do {
     fd \<leftarrow> looks log_file_fd;
     (if fd = 0 then give () else do { sys_close fd; sys (Remove ''/var/log/aodv.log''); give () });
     t \<leftarrow> looks (\<lambda>b. rt_log_interval (b_node b));
     fd \<leftarrow> looks log_rt_fd;
     if t = 0 \<or> fd = 0 then give () else do { sys_close fd; sys (Remove ''/var/log/aodv.rtlog''); give () } }"

section \<open>The whole\<close>

text \<open>\<^verbatim>\<open>main\<close> up to its loop, and what a signal does.\<close>

definition main_boot :: "unit booting" where
  "main_boot = do {
     uid \<leftarrow> sys Geteuid;
     if uid \<noteq> 0 then exits
     else and_then log_init (do {
       on_node log_rt_table_init;
       on_node rt_table_init;
       and_then (host_init_named ''br-lan'') (and_then nl_init (do {
         on_node nl_send_conf_msg;
         aodv_socket_init })) }) }"

definition cleanup :: "unit booting" where
  "cleanup = do {
     on_node rt_table_destroy;
     aodv_socket_cleanup;
     nl_cleanup;
     remove_modules;
     reset_kernel_options;
     log_cleanup }"

definition signal_handler :: "int \<Rightarrow> unit booting" where
  "signal_handler sign_no = (if sign_no = 2 then do { cleanup; exits } else exits)"

section \<open>Running the parts\<close>

lemma run_boot [simp]:
  "run_state (looks f) b = (f b, b)" "run_state (changes g) b = ((), g b)"
  "run_state (on_node m) b = (fst (run_state m (b_node b)), b\<lparr>b_node := snd (run_state m (b_node b))\<rparr>)"
  "run_state (sys c) b = (b_ret b (b_calls b), b\<lparr>b_calls := Suc (b_calls b), b_trace := b_trace b @ [c]\<rparr>)"
  "run_state exits b = ((), b\<lparr>b_exit := True\<rparr>)"
  by (simp_all add: looks_def changes_def on_node_def sys_def exits_def case_prod_beta)

lemma and_then_alive:
  assumes "\<not> b_exit (snd (run_state (and_then m k) b))"
  shows "\<not> b_exit (snd (run_state m b)) \<and> snd (run_state (and_then m k) b) = snd (run_state k (snd (run_state m b)))"
  using assms by (auto simp: and_then_def case_prod_beta split: if_splits)

lemma host_init_any_named: "host_init_any ifrs tmp_ifname (Some name) = host_init_named name"
  by (simp add: host_init_any_def host_init_named_def)

text \<open>Without a name, a successful search hands on a name that was found or what lay on the stack.\<close>

lemma find_wireless_found: "fst (run_state (find_wireless sock names tmp_ifname) b) \<in> insert tmp_ifname (set names)"
  by (induction names arbitrary: b) (auto simp: case_prod_beta)

lemma wireless_name_found:
  assumes "fst (run_state (wireless_name ifrs tmp_ifname) b) = Some name"
  shows "name \<noteq> [] \<and> name \<in> insert tmp_ifname (set ifrs)"
proof -
  have "set (take k ifrs) \<subseteq> set ifrs" for k by (rule set_take_subset)
  then have "fst (run_state (find_wireless sock (take k ifrs) tmp_ifname) c) \<in> insert tmp_ifname (set ifrs)" for sock k c
    using find_wireless_found [of sock "take k ifrs" tmp_ifname c] by blast
  then show ?thesis using assms by (auto simp: wireless_name_def case_prod_beta split: if_splits)
qed

text \<open>\<^verbatim>\<open>select\<close> looks below \<open>nfds\<close>, which is above every descriptor.\<close>

lemma nfds_above: "(fd, func) \<in> set cs \<Longrightarrow> fd < nfds cs"
proof -
  have "n \<le> fold (\<lambda>(fd, func) n. if fd \<ge> n then fd + 1 else n) cs n
      \<and> ((fd, func) \<in> set cs \<longrightarrow> fd < fold (\<lambda>(fd, func) n. if fd \<ge> n then fd + 1 else n) cs n)" for n
  proof (induction cs arbitrary: n)
    case (Cons c cs)
    show ?case using Cons [of "if n \<le> fst c then fst c + 1 else n"] by (cases c; cases "n \<le> fst c") auto
  qed simp
  then show "(fd, func) \<in> set cs \<Longrightarrow> fd < nfds cs" by (simp add: nfds_def)
qed

text \<open>What the calls do not touch: the node and the callbacks.\<close>

definition core :: "boot \<Rightarrow> node \<times> (int \<times> callback) list" where
  "core b = (b_node b, b_callbacks b)"

lemma stays_looks [stays_rule]: "stays P (looks f)"
  by (simp add: stays_def)

lemma core_changes [stays_rule]: "(\<And>b. core (g b) = core b) \<Longrightarrow> stays (\<lambda>b. core b = c) (changes g)"
  by (simp add: stays_def)

lemma core_calls [stays_rule]: "stays (\<lambda>b. core b = c) (sys x)" "stays (\<lambda>b. core b = c) exits"
  by (simp_all add: stays_def core_def)

lemma core_files [stays_rule]: "stays (\<lambda>b. core b = c) (gets_fd x p)" "stays (\<lambda>b. core b = c) (sys_write fd v)"
  "stays (\<lambda>b. core b = c) (sys_close fd)" "stays (\<lambda>b. core b = c) (sys_ioctl fd v)"
  unfolding gets_fd_def sys_write_def sys_close_def sys_ioctl_def
  by (auto intro!: stays_rule) (auto simp: core_def split: option.split)

lemma core_options: "stays (\<lambda>b. core b = c) (put_options os)"
  by (induction os rule: put_options.induct) (auto intro!: stays_rule simp: sys_open_def)

lemma core_setsockopt: "stays (\<lambda>b. core b = c) (set_options fd os)" "stays (\<lambda>b. core b = c) (set_rcvbuf fd n)"
proof -
  show "stays (\<lambda>b. core b = c) (set_options fd os)" by (induction fd os rule: set_options.induct) (auto intro!: stays_rule)
  show "stays (\<lambda>b. core b = c) (set_rcvbuf fd n)" by (induction n) (auto intro!: stays_rule)
qed

lemma core_parts [stays_rule]:
  "stays (\<lambda>b. core b = c) (kernel_options a d e f)" "stays (\<lambda>b. core b = c) (get_if_info q)"
  "stays (\<lambda>b. core b = c) load_modules" "stays (\<lambda>b. core b = c) log_init"
  unfolding kernel_options_def get_if_info_def load_modules_def log_init_def sys_open_def sys_socket_def
  by (auto intro!: stays_rule core_options simp del: put_options.simps) (simp_all add: core_def)

lemma core_snd: "stays (\<lambda>b. core b = core b0) m \<Longrightarrow> core (snd (run_state m b0)) = core b0"
  by (simp add: stays_def)

lemma node_of_core: "core b = core b' \<longleftrightarrow> b_node b = b_node b' \<and> b_callbacks b = b_callbacks b'"
  by (simp add: core_def)

lemma take_address_alive:
  assumes "\<not> b_exit (snd (run_state (take_address q put) b))"
  shows "\<exists>a b1. snd (run_state (take_address q put) b) = put a b1 \<and> core b1 = core b"
proof -
  let ?r = "run_state (get_if_info q) b"
  have "core (snd ?r) = core b" by (rule core_snd) (rule stays_rule)
  then show ?thesis using assms by (cases "fst ?r") (auto simp: take_address_def case_prod_beta)
qed

lemma nl_open_alive:
  assumes "\<not> b_exit (snd (run_state (nl_open f put func) b))" and n: "length (b_callbacks b) < 3"
    and put: "\<And>fd b. core (put fd b) = core b"
  shows "\<exists>fd. core (snd (run_state (nl_open f put func) b)) = (b_node b, b_callbacks b @ [(fd, func)])"
proof -
  let ?r = "run_state (sys_socket f) b"
  have "core (snd ?r) = core b" by (rule core_snd) (auto intro!: stays_rule simp: sys_socket_def)
  then have "core (put (fst ?r) (snd ?r)) = core b" using put by simp
  then show ?thesis using assms(1) n
    by (auto simp: nl_open_def attach_callback_func_def core_def case_prod_beta split: if_splits)
qed

lemma load_alive:
  assumes "\<not> b_exit (snd (run_state (and_then load_modules (do { r \<leftarrow> set_kernel_options; if r < 0 then exits else give () })) b))"
  shows "\<exists>b1. core b1 = core b \<and> 0 \<le> fst (run_state set_kernel_options b1) \<and>
    snd (run_state (and_then load_modules (do { r \<leftarrow> set_kernel_options; if r < 0 then exits else give () })) b)
      = snd (run_state set_kernel_options b1)"
proof -
  let ?b1 = "snd (run_state load_modules b)"
  let ?k = "do { r \<leftarrow> set_kernel_options; if r < 0 then exits else give () }"
  have c: "core ?b1 = core b" by (rule core_snd) (rule stays_rule)
  have r: "snd (run_state (and_then load_modules ?k) b) = snd (run_state ?k ?b1)" using and_then_alive [OF assms] by blast
  then have "\<not> b_exit (snd (run_state ?k ?b1))" using assms by (simp only: simp_thms)
  then have "0 \<le> fst (run_state set_kernel_options ?b1) \<and> snd (run_state ?k ?b1) = snd (run_state set_kernel_options ?b1)"
    by (simp add: case_prod_beta split: if_splits)
  then show ?thesis using c r by metis
qed

lemma core_set_options: "core (snd (run_state set_kernel_options b)) = core b"
  by (rule core_snd) (simp add: set_kernel_options_def core_parts)

lemma host_init_alive:
  assumes alive: "\<not> b_exit (snd (run_state (host_init_named name) b))"
  shows "\<exists>ifindex ip bc b1. core (snd (run_state (host_init_named name) b)) =
      (snd (run_state (host_init ifindex ip bc) (b_node b)), b_callbacks b)
    \<and> dev_enabled (b_node b1) \<and> 0 \<le> fst (run_state set_kernel_options b1)
    \<and> snd (run_state (host_init_named name) b) = snd (run_state set_kernel_options b1)"
proof -
  define s where "s = (b_node b)\<lparr>last_forward_time := zero_time, dev_enabled := False, dev_ifindex := 0, dev_ipaddr := 0,
    dev_broadcast := 0, host_seqno := 0, host_rreq_id := 0,
    tick := Suc (tick (b_node b)), last_broadcast_time := env_time (b_node b) (tick (b_node b))\<rparr>"
  let ?b = "b\<lparr>b_ifname := [], b_netmask := 0, dev_sock := 0, b_node := s\<rparr>"
  define b0 where "b0 = snd (run_state (sys_ioctl (fst (run_state (sys_socket ''inet dgram'') ?b)) ''SIOCGIFINDEX'')
    (snd (run_state (sys_socket ''inet dgram'') ?b)))"
  have "core b0 = core (snd (run_state (sys_socket ''inet dgram'') ?b))"
    unfolding b0_def by (rule core_snd) (rule stays_rule)
  moreover have "core (snd (run_state (sys_socket ''inet dgram'') ?b)) = core ?b"
    by (rule core_snd) (simp add: sys_socket_def core_files)
  ultimately have c0: "b_node b0 = s" "b_callbacks b0 = b_callbacks b" by (simp_all add: core_def)
  define last where "last = do {
         on_node (modify (\<lambda>s. s\<lparr>dev_enabled := True\<rparr>));
         and_then load_modules (do {
           r \<leftarrow> set_kernel_options;
           if r < 0 then exits else give () }) }"
  define third where "third = and_then (take_address ''SIOCGIFBRDADDR'' (\<lambda>a b. b\<lparr>b_node := (b_node b)\<lparr>dev_broadcast := a\<rparr>\<rparr>)) last"
  define second where "second = and_then (take_address ''SIOCGIFNETMASK'' (\<lambda>a b. b\<lparr>b_netmask := a\<rparr>)) third"
  define first where "first = and_then (take_address ''SIOCGIFADDR'' (\<lambda>a b. b\<lparr>b_node := (b_node b)\<lparr>dev_ipaddr := a\<rparr>\<rparr>)) second"
  obtain i where r0: "snd (run_state (host_init_named name) b) =
      snd (run_state first (b0\<lparr>b_node := (b_node b0)\<lparr>dev_ifindex := i\<rparr>, b_ifname := name\<rparr>))"
    using alive by (auto simp: host_init_named_def host_clear_def host_attach_def case_prod_beta b0_def s_def first_def second_def third_def last_def split: if_splits)
  let ?b1 = "b0\<lparr>b_node := (b_node b0)\<lparr>dev_ifindex := i\<rparr>, b_ifname := name\<rparr>"
  note a1 = and_then_alive [OF alive [unfolded r0 first_def], folded first_def]
  from take_address_alive [OF conjunct1 [OF a1]] obtain ip b2 where b2: "core b2 = core ?b1"
    "snd (run_state first ?b1) = snd (run_state second (b2\<lparr>b_node := (b_node b2)\<lparr>dev_ipaddr := ip\<rparr>\<rparr>))"
    using a1 by auto
  let ?b2 = "b2\<lparr>b_node := (b_node b2)\<lparr>dev_ipaddr := ip\<rparr>\<rparr>"
  note a2 = and_then_alive [OF alive [unfolded r0 b2(2) second_def], folded second_def]
  from take_address_alive [OF conjunct1 [OF a2]] obtain nm b3 where b3: "core b3 = core ?b2"
    "snd (run_state second ?b2) = snd (run_state third (b3\<lparr>b_netmask := nm\<rparr>))"
    using a2 by auto
  let ?b3 = "b3\<lparr>b_netmask := nm\<rparr>"
  note a3 = and_then_alive [OF alive [unfolded r0 b2(2) b3(2) third_def], folded third_def]
  from take_address_alive [OF conjunct1 [OF a3]] obtain bc b4 where b4: "core b4 = core ?b3"
    "snd (run_state third ?b3) = snd (run_state last (b4\<lparr>b_node := (b_node b4)\<lparr>dev_broadcast := bc\<rparr>\<rparr>))"
    using a3 by auto
  let ?b4 = "b4\<lparr>b_node := (b_node b4)\<lparr>dev_broadcast := bc, dev_enabled := True\<rparr>\<rparr>"
  have r4: "snd (run_state (host_init_named name) b) = snd (run_state (and_then load_modules (do {
           r \<leftarrow> set_kernel_options;
           if r < 0 then exits else give () })) ?b4)"
    by (simp add: r0 b2(2) b3(2) b4(2) last_def)
  from load_alive [OF alive [unfolded r4]] obtain b5 where b5: "core b5 = core ?b4" "0 \<le> fst (run_state set_kernel_options b5)"
    "snd (run_state (host_init_named name) b) = snd (run_state set_kernel_options b5)" unfolding r4 by blast
  have "b_node b5 = snd (run_state (host_init i ip bc) (b_node b))" "b_callbacks b5 = b_callbacks b"
    using b5(1) b4(1) b3(1) b2(1) c0 by (simp_all add: core_def host_init_def s_def)
  moreover have "dev_enabled (b_node b5)" using b5(1) by (simp add: core_def)
  ultimately show ?thesis using b5(2,3) core_set_options [of b5] by (metis core_def)
qed

text \<open>A step whose failure ends the program.\<close>

lemma guard_alive:
  "\<not> b_exit (snd (run_state (do { x \<leftarrow> m; if bad x then exits else k x }) b)) \<Longrightarrow>
    snd (run_state (do { x \<leftarrow> m; if bad x then exits else k x }) b) = snd (run_state (k (fst (run_state m b))) (snd (run_state m b)))"
  by (simp add: case_prod_beta split: if_splits)

lemma attach_alive:
  assumes "\<not> b_exit (snd (run_state (do { r \<leftarrow> attach_callback_func fd Aodv_socket_read;
    if r < 0 then exits else on_node (modify (\<lambda>s. s\<lparr>num_rreq := 0, num_rerr := 0\<rparr>)) }) b))"
  shows "core (snd (run_state (do { r \<leftarrow> attach_callback_func fd Aodv_socket_read;
    if r < 0 then exits else on_node (modify (\<lambda>s. s\<lparr>num_rreq := 0, num_rerr := 0\<rparr>)) }) b))
    = ((b_node b)\<lparr>num_rreq := 0, num_rerr := 0\<rparr>, b_callbacks b @ [(fd, Aodv_socket_read)])"
  using assms by (cases "3 \<le> length (b_callbacks b)") (simp_all add: attach_callback_func_def core_def)

lemma socket_init_alive:
  assumes alive: "\<not> b_exit (snd (run_state aodv_socket_init b))"
  shows "\<exists>fd. core (snd (run_state aodv_socket_init b)) =
    ((b_node b)\<lparr>num_rreq := 0, num_rerr := 0\<rparr>, b_callbacks b @ [(fd, Aodv_socket_read)])"
proof -
  let ?r = "snd (run_state aodv_socket_init b)"
  define fd where "fd = fst (run_state (sys_socket ''inet udp'') b)"
  define b1 where "b1 = (snd (run_state (sys_socket ''inet udp'') b))\<lparr>dev_sock := fd\<rparr>"
  define last where "last = (\<lambda>fd. do { r \<leftarrow> attach_callback_func fd Aodv_socket_read;
    if r < 0 then exits else on_node (modify (\<lambda>s. s\<lparr>num_rreq := 0, num_rerr := 0\<rparr>)) })"
  define third where "third = (\<lambda>fd. do { ok \<leftarrow> set_rcvbuf fd 256; if \<not> ok then exits else last fd })"
  define second where "second = (\<lambda>fd. do { ok \<leftarrow> set_options fd [(''SO_BROADCAST'', 1), (''SO_BINDTODEVICE'', 0),
    (''SO_PRIORITY'', 16), (''IP_RECVTTL'', 1), (''IP_PKTINFO'', 1)]; if \<not> ok then exits else third fd })"
  define first where "first = (\<lambda>fd. do { r \<leftarrow> sys (Bind fd); if r < 0 then exits else second fd })"
  have init: "aodv_socket_init = do {
     en \<leftarrow> looks (\<lambda>b. dev_enabled (b_node b));
     if \<not> en then exits
     else do {
       sock \<leftarrow> sys_socket ''inet udp'';
       changes (\<lambda>b. b\<lparr>dev_sock := sock\<rparr>);
       if sock < 0 then exits else first sock } }"
    by (simp only: aodv_socket_init_def first_def second_def third_def last_def)
  have eq: "run_state aodv_socket_init b = (if \<not> dev_enabled (b_node b) then run_state exits b
      else if fd < 0 then run_state exits b1 else run_state (first fd) b1)"
    unfolding init by (simp add: case_prod_beta fd_def b1_def)
  have r1: "?r = snd (run_state (first fd) b1)" using alive unfolding eq by (auto split: if_splits)
  have "core (snd (run_state (sys_socket ''inet udp'') b)) = core b" by (rule core_snd) (simp add: sys_socket_def core_files)
  then have c1: "core b1 = core b" by (simp add: b1_def core_def)
  note alive1 = alive [unfolded r1]
  obtain b2 where r2: "snd (run_state (first fd) b1) = snd (run_state (second fd) b2)" and c2: "core b2 = core b1"
    unfolding first_def using guard_alive [OF alive1 [unfolded first_def]] core_snd [OF core_calls(1)] by blast
  obtain b3 where r3: "snd (run_state (second fd) b2) = snd (run_state (third fd) b3)" and c3: "core b3 = core b2"
    unfolding second_def using guard_alive [OF alive1 [unfolded r2 second_def]] core_snd [OF core_setsockopt(1)] by blast
  obtain b4 where r4: "snd (run_state (third fd) b3) = snd (run_state (last fd) b4)" and c4: "core b4 = core b3"
    unfolding third_def using guard_alive [OF alive1 [unfolded r2 r3 third_def]] core_snd [OF core_setsockopt(2)] by blast
  have r: "?r = snd (run_state (last fd) b4)" by (simp add: r1 r2 r3 r4)
  have "core (snd (run_state (last fd) b4)) = ((b_node b4)\<lparr>num_rreq := 0, num_rerr := 0\<rparr>, b_callbacks b4 @ [(fd, Aodv_socket_read)])"
    using attach_alive [of fd b4] alive [unfolded r] unfolding last_def by blast
  then show ?thesis unfolding r using c1 c2 c3 c4 by (auto simp: core_def)
qed

lemma nl_init_alive:
  assumes alive: "\<not> b_exit (snd (run_state nl_init b))" and start: "b_callbacks b = []"
  shows "\<exists>fd1 fd2. core (snd (run_state nl_init b)) =
    ((b_node b)\<lparr>aodvnl_seqno := 0, rtnl_seqno := 0\<rparr>, [(fd1, Nl_kaodv_callback), (fd2, Nl_rt_callback)])"
proof -
  let ?b1 = "b\<lparr>b_node := (b_node b)\<lparr>aodvnl_seqno := 0\<rparr>\<rparr>"
  let ?o1 = "nl_open ''netlink aodv'' (\<lambda>fd b. b\<lparr>aodvnl_sock := fd\<rparr>) Nl_kaodv_callback"
  let ?o2 = "nl_open ''netlink route'' (\<lambda>fd b. b\<lparr>rtnl_sock := fd\<rparr>) Nl_rt_callback"
  let ?k = "do { on_node (modify (\<lambda>s. s\<lparr>rtnl_seqno := 0\<rparr>)); ?o2 }"
  have r: "snd (run_state nl_init b) = snd (run_state (and_then ?o1 ?k) ?b1)" by (simp add: nl_init_def)
  note a = and_then_alive [OF alive [unfolded r]]
  obtain fd1 where f1: "core (snd (run_state ?o1 ?b1)) = (b_node ?b1, [(fd1, Nl_kaodv_callback)])"
    using nl_open_alive [OF conjunct1 [OF a]] start by (auto simp: core_def)
  let ?b2 = "(snd (run_state ?o1 ?b1))\<lparr>b_node := (b_node b)\<lparr>aodvnl_seqno := 0, rtnl_seqno := 0\<rparr>\<rparr>"
  have r2: "snd (run_state nl_init b) = snd (run_state ?o2 ?b2)" using a f1 by (simp add: r core_def)
  obtain fd2 where "core (snd (run_state ?o2 ?b2)) = (b_node ?b2, b_callbacks ?b2 @ [(fd2, Nl_rt_callback)])"
    using nl_open_alive [of "''netlink route''" "\<lambda>fd b. b\<lparr>rtnl_sock := fd\<rparr>" Nl_rt_callback ?b2] alive f1
    unfolding r2 by (auto simp: core_def)
  then show ?thesis using f1 unfolding r2 by (auto simp: core_def)
qed

lemma core_on_node: "core (snd (run_state (on_node m) b)) = (snd (run_state m (b_node b)), b_callbacks b)"
  by (simp add: core_def)



definition boot_ok :: boot where
  "boot_ok = \<lparr>b_ret = (\<lambda>_. 0), b_data = of_nat, b_calls = 0, b_trace = [], b_exit = False, b_files = Map.empty,
    b_settings = Map.empty, b_node = node0, b_ifname = [], b_netmask = 0, b_callbacks = [], dev_sock = 0, aodvnl_sock = 0,
    rtnl_sock = 0, log_file_fd = 0, log_rt_fd = 0\<rparr>"

lemma set_rcvbuf_first: "b_ret b (b_calls b) = 0 \<Longrightarrow> run_state (set_rcvbuf fd n) b =
    (True, b\<lparr>b_calls := Suc (b_calls b), b_trace := b_trace b @ [Setsockopt fd ''SO_RCVBUF'' (1024 * int n)]\<rparr>)"
  by (cases n) simp_all

lemma conf_enabled: "dev_enabled (snd (run_state nl_send_conf_msg s)) = dev_enabled s"
  by (simp add: nl_send_conf_msg_def nl_send_def case_prod_beta Let_def)

lemma boot_ok_alive: "\<not> b_exit (snd (run_state main_boot boot_ok))"
  by (simp add: main_boot_def and_then_def log_init_def sys_open_def gets_fd_def host_init_named_def host_clear_def host_attach_def sys_socket_def sys_ioctl_def
      take_address_def get_if_info_def sys_close_def load_modules_def set_kernel_options_def kernel_options_def sys_write_def
      nl_init_def nl_open_def attach_callback_func_def aodv_socket_init_def set_rcvbuf_first
      conf_enabled boot_ok_def)


section \<open>The settings of the kernel\<close>

lemma put_options_settings:
  "\<exists>k \<le> length os. b_settings (snd (run_state (put_options os) b)) = b_settings b ++ map_of (rev (take k os))
    \<and> fst (run_state (put_options os) b) = (if k = length os then 0 else - 1)"
proof (induction os arbitrary: b)
  case (Cons opt os)
  obtain path v where o: "opt = (path, v)" by (cases opt)
  let ?r = "run_state (sys_open path) b"
  have s1: "b_settings (snd ?r) = b_settings b" by (simp add: sys_open_def gets_fd_def case_prod_beta)
  show ?case
  proof (cases "fst ?r < 0")
    case True
    then show ?thesis using s1 by (intro exI [of _ 0]) (simp add: o case_prod_beta)
  next
    case False
    then have f1: "b_files (snd ?r) (fst ?r) = Some path" by (simp add: sys_open_def gets_fd_def case_prod_beta split: if_splits)
    let ?w = "run_state (sys_write (fst ?r) v) (snd ?r)"
    show ?thesis
    proof (cases "fst ?w < 0")
      case w: True
      then have "b_settings (snd ?w) = b_settings b" using s1 by (simp add: sys_write_def case_prod_beta split: if_splits)
      then show ?thesis using False w by (intro exI [of _ 0]) (simp add: o case_prod_beta)
    next
      case w: False
      then have s2: "b_settings (snd ?w) = (b_settings b)(path \<mapsto> v)" using f1 s1
        by (simp add: sys_write_def case_prod_beta split: if_splits)
      let ?c = "snd (run_state (sys_close (fst ?r)) (snd ?w))"
      have s3: "b_settings ?c = (b_settings b)(path \<mapsto> v)" using s2 by (simp add: sys_close_def)
      obtain k where "k \<le> length os" "b_settings (snd (run_state (put_options os) ?c)) = b_settings ?c ++ map_of (rev (take k os))"
        "fst (run_state (put_options os) ?c) = (if k = length os then 0 else - 1)" using Cons.IH [of ?c] by blast
      then show ?thesis using False w s3 by (intro exI [of _ "Suc k"]) (simp add: o case_prod_beta map_add_def fun_eq_iff split: option.split)
    qed
  qed
qed simp

text \<open>The five settings that \<^verbatim>\<open>set_kernel_options\<close> and \<^verbatim>\<open>reset_kernel_options\<close> write, in order.\<close>

definition settings_of :: "string \<Rightarrow> string \<Rightarrow> string \<Rightarrow> string \<Rightarrow> string \<Rightarrow> (string \<times> string) list" where
  "settings_of name dev_send dev_accept all_send all_accept = [(ip_forward, ''1''), (redirects name ''send'', dev_send),
     (redirects name ''accept'', dev_accept), (redirects ''all'' ''send'', all_send), (redirects ''all'' ''accept'', all_accept)]"

lemma put_options_ends:
  assumes r: "run_state (put_options os) b = (r, b')"
  shows "\<exists>k \<le> length os. b_settings b' = b_settings b ++ map_of (rev (take k os)) \<and> r = (if k = length os then 0 else - 1)"
  using put_options_settings [of os b] by (simp add: r)

lemma kernel_options_settings:
  assumes en: "dev_enabled (b_node b)"
  shows "\<exists>k \<le> 5. b_settings (snd (run_state (kernel_options ds da as aa) b))
      = b_settings b ++ map_of (rev (take k (settings_of (b_ifname b) ds da as aa)))
    \<and> fst (run_state (kernel_options ds da as aa) b) = (if k = 5 then 0 else - 1)"
proof -
  let ?rest = "tl (settings_of (b_ifname b) ds da as aa)"
  obtain r b1 where r: "run_state (put_options [(ip_forward, ''1'')]) b = (r, b1)" by fastforce
  obtain k where k: "k \<le> 1" "b_settings b1 = b_settings b ++ map_of (rev (take k [(ip_forward, ''1'')]))" "r = (if k = 1 then 0 else - 1)"
    using put_options_ends [OF r] by auto
  show ?thesis
  proof (cases "k = 1")
    case False
    then have "k = 0" using k(1) by simp
    then show ?thesis using k r by (intro exI [of _ 0]) (simp add: kernel_options_def del: put_options.simps)
  next
    case True
    have four: "length ?rest = 4" by (simp add: settings_of_def)
    obtain r2 b2 where r2: "run_state (put_options ?rest) b1 = (r2, b2)" by fastforce
    obtain j where j: "j \<le> 4" "b_settings b2 = b_settings b1 ++ map_of (rev (take j ?rest))" "r2 = (if j = 4 then 0 else - 1)"
      using put_options_ends [OF r2] four by metis
    have name: "dev_enabled (b_node b1) \<and> b_ifname b1 = b_ifname b" using r en
      by (auto simp: sys_open_def gets_fd_def sys_write_def sys_close_def case_prod_beta split: if_splits option.splits)
    have "run_state (kernel_options ds da as aa) b = (r2, b2)" using r r2 k(3) True name
      by (simp add: kernel_options_def settings_of_def del: put_options.simps)
    then show ?thesis using j k(2) True
      by (intro exI [of _ "Suc j"]) (simp add: settings_of_def)
  qed
qed



end
