(* ===== verification/Checksum.thy ===== *)
theory Checksum
  imports Kipenc
begin

text \<open>
  The checksum of \<^verbatim>\<open>kaodv_ipenc.c\<close> and the Internet checksum of RFC 1071: the code adds
  up in 32 bits and folds the carries in at the end, the reference adds word by word.
\<close>

section \<open>The reference\<close>

text \<open>
  The Internet checksum as RFC 1071 defines it: the complement of the sum in one's complement
  arithmetic, where a carry out of the 16 bits is added at the other end, word by word.
\<close>

definition ones_add :: "u16 \<Rightarrow> u16 \<Rightarrow> u16" where
  "ones_add a b = (if a \<le> a + b then a + b else a + b + 1)"

definition rfc1071 :: "u16 list \<Rightarrow> u16" where
  "rfc1071 ws = NOT (foldl ones_add 0 ws)"

text \<open>Both are the sum modulo 65535, with 65535 for the multiples other than 0.\<close>

definition residue :: "nat \<Rightarrow> nat" where
  "residue s = (if s = 0 then 0 else (s - 1) mod 65535 + 1)"

lemma residue_bounds: "residue s \<le> 65535" "residue s = 0 \<longleftrightarrow> s = 0" "\<exists>k. residue s + 65535 * k = s"
proof -
  show "residue s \<le> 65535" "residue s = 0 \<longleftrightarrow> s = 0"
    using mod_less_divisor [of 65535 "s - 1"] by (auto simp: residue_def simp del: mod_less_divisor)
  have "(s - 1) mod 65535 + 65535 * ((s - 1) div 65535) = s - 1" by (rule mod_mult_div_eq)
  then have "s \<noteq> 0 \<Longrightarrow> residue s + 65535 * ((s - 1) div 65535) = s" by (simp add: residue_def)
  moreover have "residue s + 65535 * 0 = s" if "s = 0" using that by (simp add: residue_def)
  ultimately show "\<exists>k. residue s + 65535 * k = s" by blast
qed

lemma unat16_less: "unat (w :: u16) < 65536"
  using unsigned_less [where ?'a = nat and w = w] by simp

lemma residue_unique:
  assumes "x + 65535 * k = s" and "x \<le> 65535" and "x = 0 \<longleftrightarrow> s = 0"
  shows "residue s = x"
proof (cases "s = 0")
  case False
  then have x: "x - 1 < 65535" "0 < x" using assms by auto
  have "(s - 1) mod 65535 = (x - 1 + 65535 * k) mod 65535" using x assms(1) by (intro arg_cong [where f = "\<lambda>n. n mod 65535"]) linarith
  also have "\<dots> = x - 1" using x by (simp only: mod_mult_self2 mod_less)
  finally show ?thesis using False x by (simp add: residue_def)
qed (use assms in \<open>simp add: residue_def\<close>)

lemma residue_add: "residue (residue x + y) = residue (x + y)"
proof -
  obtain k j where "residue x + 65535 * k = x" "residue (residue x + y) + 65535 * j = residue x + y"
    using residue_bounds(3) by metis
  then have "residue (residue x + y) + 65535 * (k + j) = x + y" by (simp add: algebra_simps)
  then have "residue (x + y) = residue (residue x + y)"
    by (rule residue_unique) (use residue_bounds(1,2) in auto)
  then show ?thesis by simp
qed

lemma fold16_residue:
  assumes "s < 2 ^ 31" shows "fold16 s = residue s"
proof -
  define q r where "q = s div 65536" and "r = s mod 65536"
  have s: "s = 65536 * q + r" "r < 65536" by (simp_all add: q_def r_def)
  have q: "q < 32768" unfolding q_def using assms by (intro less_mult_imp_div_less) simp
  have f: "fold16 s = (q + r + (q + r) div 65536) mod 65536" by (simp add: fold16_def Let_def q_def r_def)
  show ?thesis
  proof (cases "q + r < 65536")
    case True
    have "residue s = q + r" by (rule residue_unique [of _ q]) (use s True in auto)
    then show ?thesis using f True by simp
  next
    case False
    then have "(q + r) div 65536 = 1" using s q by (intro div_nat_eqI) simp_all
    then have "fold16 s = q + r + 1 - 65536" using f False s q by (simp add: mod_if)
    moreover have "residue s = q + r + 1 - 65536" by (rule residue_unique [of _ "q + 1"]) (use s q False in auto)
    ultimately show ?thesis by simp
  qed
qed

lemma unat_ones_add: "unat (ones_add a b) = residue (unat a + unat b)"
proof -
  have ab: "unat a < 65536" "unat b < 65536" by (rule unat16_less)+
  have p: "unat (a + b) = (unat a + unat b) mod 65536" by (simp add: unat_word_ariths)
  show ?thesis
  proof (cases "unat a + unat b < 65536")
    case True
    then have "residue (unat a + unat b) = unat a + unat b" by (intro residue_unique [of _ 0]) auto
    then show ?thesis using True p by (simp add: ones_add_def word_le_nat_alt)
  next
    case False
    then have s: "unat (a + b) = unat a + unat b - 65536" using p ab by (simp add: mod_if)
    then have "\<not> a \<le> a + b" using False ab by (simp add: word_le_nat_alt)
    moreover have "unat (a + b + 1) = unat a + unat b - 65536 + 1"
      using s False ab by (simp add: unat_word_ariths(1) [of "a + b"])
    moreover have "residue (unat a + unat b) = unat a + unat b - 65536 + 1"
      using False ab by (intro residue_unique [of _ 1]) auto
    ultimately show ?thesis by (simp add: ones_add_def)
  qed
qed

lemma foldl_ones: "unat (foldl ones_add a ws) = residue (unat a + sum_list (map unat ws))"
proof (induction ws arbitrary: a)
  case Nil
  have "residue (unat a) = unat a" using unat16_less [of a] by (intro residue_unique [of _ 0]) auto
  then show ?case by simp
next
  case (Cons w ws)
  show ?case by (simp add: Cons.IH unat_ones_add residue_add add.assoc)
qed

section \<open>Property\<close>

text \<open>
  C27: \<^verbatim>\<open>ip_csum\<close> is the Internet checksum: for up to 32768 words, the two foldings of
  the 32-bit sum give what adding in one's complement arithmetic word by word gives.
\<close>

theorem ip_csum_rfc1071:
  assumes "length ws \<le> 32768"
  shows "ip_csum ws = rfc1071 ws"
proof -
  have "sum_list (map unat us) \<le> 65535 * length us" for us :: "u16 list"
  proof (induction us)
    case (Cons u us)
    then show ?case using unat16_less [of u] by simp
  qed simp
  from this [of ws] have "sum_list (map unat ws) < 2 ^ 31" using assms by simp
  then have "unat (ip_csum ws) = unat (rfc1071 ws)"
    using foldl_ones [of 0 ws] by (simp add: unat_ip_csum fold16_residue rfc1071_def unat_not16)
  then show ?thesis by (simp add: word_unat_eq_iff)
qed

theorem ip_csum_rfc1071_witness:
  "ip_csum [0x4500, 0xfff0, 0xc0a8, 0x0001] = rfc1071 [0x4500, 0xfff0, 0xc0a8, 0x0001]
   \<and> rfc1071 [0x4500, 0xfff0, 0xc0a8, 0x0001] = 0xfa64"
  using ip_csum_rfc1071 [of "[0x4500, 0xfff0, 0xc0a8, 0x0001]"] by (simp add: rfc1071_def ones_add_def)

end
