(* ===== verification/Nl_Route.thy ===== *)
theory Nl_Route
  imports Knetlink Debug_Log
begin

text \<open>
  \<^verbatim>\<open>nl_rt_callback\<close> of \<^verbatim>\<open>nl.c\<close>, what the daemon does with a message of the
  kernel's routing socket: it only logs. The message is read into a buffer of 256 bytes on the stack, as
  a \<^verbatim>\<open>struct nlmsghdr\<close>, a \<^verbatim>\<open>struct ifaddrmsg\<close> of 8 bytes
  (\<^verbatim>\<open>ifa_index\<close> at 4) and attributes (\<^verbatim>\<open>rta_len\<close> at 0,
  \<^verbatim>\<open>rta_type\<close> at 2, the data at 4). \<open>None\<close> is an access outside the buffer or outside
  \<^verbatim>\<open>ifaddr\<close>. Also \<^verbatim>\<open>kaodv_msg_type_to_str\<close> of \<^verbatim>\<open>kaodv_netlink.h\<close>.
\<close>

section \<open>Operations\<close>

abbreviation (input) LOG_DEBUG :: int where "LOG_DEBUG \<equiv> 7"
abbreviation (input) BUFLEN :: nat where "BUFLEN \<equiv> 256"

definition RTA_ALIGN :: "nat \<Rightarrow> nat" where
  "RTA_ALIGN n = (n + 3) div 4 * 4"

text \<open>
  The loop over the attributes. An attribute of type \<^verbatim>\<open>IFA_ADDRESS\<close> is copied over
  \<^verbatim>\<open>ifaddr\<close>, whose four bytes are \<open>junk\<close> before.
\<close>

function rta_walk :: "u32 \<Rightarrow> buffer \<Rightarrow> buffer \<Rightarrow> nat \<Rightarrow> int \<Rightarrow> (int \<times> string) list option" where
  "rta_walk ifa_index junk buf pos attrlen =
     (if attrlen < 4 then Some []
      else if pos + 4 > length buf then None
      else
        let rta_len = unat (peek16 pos buf) in
        if rta_len < 4 \<or> int rta_len > attrlen then Some []
        else
          let rest = rta_walk ifa_index junk buf (pos + RTA_ALIGN rta_len) (attrlen - int (RTA_ALIGN rta_len)) in
          if peek16 (pos + 2) buf = 1 then
            if rta_len - 4 > 4 \<or> pos + rta_len > length buf then None
            else map_option (Cons (LOG_DEBUG, ''Interface index '' @ dec_int (sint ifa_index) @ '' changed address to ''
                @ dotted (peek32 0 (poke 0 (take (rta_len - 4) (drop (pos + 4) buf)) junk)))) rest
          else rest)"
  by pat_completeness auto
termination
proof (relation "measure (\<lambda>(i, j, b, pos, attrlen). nat attrlen)")
  show "((i, junk, buf, pos + RTA_ALIGN n, attrlen - int (RTA_ALIGN n)), i, junk, buf, pos, attrlen)
      \<in> measure (\<lambda>(i, j, b, pos, attrlen). nat attrlen)"
    if "\<not> attrlen < 4" "\<not> (n < 4 \<or> attrlen < int n)" for i :: u32 and junk buf :: buffer and pos n attrlen
    using that by (auto simp: RTA_ALIGN_def)
qed simp_all

declare rta_walk.simps [simp del]

definition nl_rt_callback :: "int \<Rightarrow> buffer \<Rightarrow> buffer \<Rightarrow> (int \<times> string) list option" where
  "nl_rt_callback len junk buf =
     (if len < 0 then Some []
      else if peek16 4 buf = 2 then
        Some [(LOG_WARNING, ''NLMSG_ERROR, error= '' @ dec_int (sint (peek32 16 buf)) @ '', type= '' @ dec (unat (peek16 24 buf)))]
      else if peek16 4 buf = 16 then Some [(LOG_DEBUG, ''RTM_NEWADDR'')]
      else if peek16 4 buf = 20 then rta_walk (peek32 20 buf) junk buf 20 (sint (peek32 0 buf - 16 - 8))
      else if peek16 4 buf = 24 then Some [(LOG_DEBUG, ''RTM_NEWROUTE'')]
      else Some [(LOG_DEBUG, ''Unkown type of kernel message'')])"

text \<open>
  The table has a place for each number below 111, of which ten are filled: the others hold the
  type 0 and no name.
\<close>

definition typenames :: "(int \<times> string option) list" where
  "typenames = [(KAODVM_ADDROUTE, Some ''Add route''), (KAODVM_DELROUTE, Some ''Delete route''), (KAODVM_TIMEOUT, Some ''Timeout''),
     (KAODVM_ROUTE_REQ, Some ''Route Request''), (KAODVM_REPAIR, Some ''Route repair''), (KAODVM_NOROUTE_FOUND, Some ''No route found''),
     (KAODVM_ROUTE_UPDATE, Some ''Route update''), (KAODVM_SEND_RERR, Some ''Send route error''),
     (KAODVM_CONFIG, Some ''Configuration''), (110, Some ''Debug'')] @ replicate 101 (0, None)"

definition kaodv_msg_type_to_str :: "int \<Rightarrow> string option" where
  "kaodv_msg_type_to_str type = (case find (\<lambda>(ty, name). type = ty) typenames of
       Some (ty, name) \<Rightarrow> name | None \<Rightarrow> Some ''Unknown message type'')"

section \<open>What goes wrong\<close>

text \<open>
  A message about a new address, as the kernel sends it, with any attributes. The loop starts at
  \<^verbatim>\<open>ifa_index\<close> instead of the first attribute.
\<close>

definition newaddr_msg :: "u32 \<Rightarrow> u32 \<Rightarrow> buffer \<Rightarrow> buffer" where
  "newaddr_msg len index attrs = nl_header_bytes len 20 0 0 0 @ [2, 24, 128, 0] @ le32 index @ attrs"

lemma newaddr_fields:
  "peek16 4 (newaddr_msg len index attrs) = 20" "peek32 0 (newaddr_msg len index attrs) = len"
  "peek32 20 (newaddr_msg len index attrs) = index" "length (newaddr_msg len index attrs) = 24 + length attrs"
  using nl_header_fields [of len 20 0 0 0] peek32_append [of 20 "nl_header_bytes len 20 0 0 0 @ [2, 24, 128, 0]" index attrs]
  by (simp_all add: newaddr_msg_def)

lemma peek16_low: "unat (peek32 i b) < 65536 \<Longrightarrow> unat (peek16 i b) = unat (peek32 i b)"
proof -
  have "peek16 i b = ucast (peek32 i b)"
    by (rule bit_word_eqI) (auto simp: peek16_def peek32_def bit_simps)
  then show "unat (peek32 i b) < 65536 \<Longrightarrow> ?thesis" by (simp add: unsigned_ucast_eq take_bit_nat_eq_self)
qed

text \<open>
  For the first three interfaces of a system nothing is ever logged, whatever the attributes are; for
  any other the index is taken for the length of an attribute.
\<close>

lemma newaddr_not_logged:
  assumes "unat index < 4" and "0 \<le> len"
  shows "nl_rt_callback len junk (newaddr_msg mlen index attrs) = Some []"
proof -
  have "unat (peek16 20 (newaddr_msg mlen index attrs)) < 4"
    using peek16_low [of 20 "newaddr_msg mlen index attrs"] assms(1) by (simp add: newaddr_fields)
  then show ?thesis using assms(2) by (simp add: nl_rt_callback_def newaddr_fields rta_walk.simps [of index] Let_def)
qed

lemma msg_type_zero: "kaodv_msg_type_to_str 0 = None"
  by (simp add: kaodv_msg_type_to_str_def typenames_def numeral_eq_Suc)

end
