(* ===== verification/Kproc.thy ===== *)
theory Kproc
  imports Kqueue Format
begin

text \<open>
  The text of the module's \<^verbatim>\<open>/proc\<close> entries: the sequence operations of
  \<^verbatim>\<open>kaodv_expl.c\<close> and \<^verbatim>\<open>kaodv_queue.c\<close>. The iterator over the routes is the
  place in the list. \<open>read_from\<close> is what \<^verbatim>\<open>seq_read\<close> of the kernel does with them when
  nothing changes while it runs; a reader whose buffer is full goes on at a later position.
  \<open>devname\<close> is the name \<^verbatim>\<open>dev_get_by_index\<close> finds.
\<close>

section \<open>Routes\<close>

definition expl_seq_start :: "kernel \<Rightarrow> nat \<Rightarrow> string \<times> nat option" where
  "expl_seq_start k pos =
     ((if pos = 0 then ''# '' @ ljust 15 ''Addr'' @ '' '' @ ljust 15 ''Nhop'' @ '' '' @ ljust 5 ''Flags'' @ '' ''
         @ ljust 5 ''Iface'' @ '' Expires'' @ newline else []),
      if pos < length (expl_list k) then Some pos else None)"

definition expl_seq_next :: "kernel \<Rightarrow> nat \<Rightarrow> nat \<Rightarrow> nat option \<times> nat" where
  "expl_seq_next k v pos = (if Suc v < length (expl_list k) then Some (Suc v) else None, Suc pos)"

definition flags_text :: "u16 \<Rightarrow> string" where
  "flags_text fl = (if fl AND 1 \<noteq> 0 then ''E'' else []) @ (if fl AND 2 \<noteq> 0 then ''R'' else [])"

definition entry_line :: "u32 \<Rightarrow> string \<Rightarrow> expl_entry \<Rightarrow> string" where
  "entry_line now name e = ''  '' @ ljust 15 (dotted (x_daddr e)) @ '' '' @ ljust 15 (dotted (x_nhop e)) @ '' ''
     @ ljust 5 (flags_text (x_flags e)) @ '' '' @ ljust 5 name @ '' ''
     @ dec (unat ((x_expires e - now) * 1000 div HZ)) @ newline"

definition expl_seq_show :: "(int \<Rightarrow> string option) \<Rightarrow> kernel \<Rightarrow> nat \<Rightarrow> string" where
  "expl_seq_show devname k v = (let e = expl_list k ! v in
     case devname (x_ifindex e) of None \<Rightarrow> [] | Some name \<Rightarrow> entry_line (jiffies k) name e)"

function expl_loop :: "(int \<Rightarrow> string option) \<Rightarrow> kernel \<Rightarrow> nat option \<Rightarrow> nat \<Rightarrow> string" where
  "expl_loop devname k None pos = []"
| "expl_loop devname k (Some v) pos = expl_seq_show devname k v @ (let (v', pos') = expl_seq_next k v pos in expl_loop devname k v' pos')"
  by pat_completeness auto
termination
  by (relation "measure (\<lambda>(d, k, v, pos). case v of None \<Rightarrow> 0 | Some i \<Rightarrow> Suc (length (expl_list k) - i))")
    (auto simp: expl_seq_next_def split: if_splits option.splits)

definition expl_read_from :: "(int \<Rightarrow> string option) \<Rightarrow> kernel \<Rightarrow> nat \<Rightarrow> string" where
  "expl_read_from devname k pos = (let (head, v) = expl_seq_start k pos in head @ expl_loop devname k v pos)"

section \<open>Packets\<close>

text \<open>The buffer \<^verbatim>\<open>queue_show_buf\<close>, its total and its limit, and the two lines.\<close>

definition queue_show_buf_update :: "kernel \<Rightarrow> u32 \<times> u32" where
  "queue_show_buf_update k = (queue_total k, queue_maxlen k)"

definition queue_seq_start :: "kernel \<Rightarrow> nat \<Rightarrow> (u32 \<times> u32) option" where
  "queue_seq_start k pos = (let buf = queue_show_buf_update k in if pos \<ge> 1 then None else Some buf)"

definition queue_seq_next :: "(u32 \<times> u32) \<Rightarrow> nat \<Rightarrow> (u32 \<times> u32) option \<times> nat" where
  "queue_seq_next v pos = (let pos = pos + 1 in (if pos \<ge> 1 then None else Some v, pos))"

definition queue_seq_show :: "u32 \<times> u32 \<Rightarrow> string" where
  "queue_seq_show v = ''Queue length      : '' @ dec (unat (fst v)) @ newline
     @ ''Queue max. length : '' @ dec (unat (snd v)) @ newline"

definition queue_read :: "kernel \<Rightarrow> string" where
  "queue_read k = (case queue_seq_start k 0 of None \<Rightarrow> []
     | Some v \<Rightarrow> queue_seq_show v @ (case fst (queue_seq_next v 0) of None \<Rightarrow> [] | Some v' \<Rightarrow> queue_seq_show v'))"

section \<open>Lemmas\<close>

lemma expl_loop_text:
  "v < length (expl_list k) \<Longrightarrow> expl_loop devname k (Some v) pos = concat (map (expl_seq_show devname k) [v..<length (expl_list k)])"
proof (induction "length (expl_list k) - v" arbitrary: v pos)
  case (Suc n)
  then show ?case
    by (cases "Suc v < length (expl_list k)") (simp_all add: expl_seq_next_def upt_conv_Cons)
qed simp

lemma expl_read_text:
  "expl_read_from devname k pos = fst (expl_seq_start k pos) @ concat (map (expl_seq_show devname k) [pos..<length (expl_list k)])"
  by (simp add: expl_read_from_def expl_seq_start_def expl_loop_text Let_def del: expl_loop.simps(2))

text \<open>
  What the entry of the routes shows: the header, then a line for each route whose interface still
  exists, in the order of the list. A reader that has had the first \<open>n\<close> routes and goes on at
  position \<open>n\<close> gets the rest.
\<close>

theorem expl_proc_shows_routes:
  "expl_read_from devname k 0 = fst (expl_seq_start k 0)
     @ concat (map (\<lambda>e. case devname (x_ifindex e) of None \<Rightarrow> [] | Some name \<Rightarrow> entry_line (jiffies k) name e) (expl_list k))"
  "n \<noteq> 0 \<Longrightarrow> n \<le> length (expl_list k) \<Longrightarrow> expl_read_from devname k 0 = fst (expl_seq_start k 0)
     @ concat (map (expl_seq_show devname k) [0..<n]) @ expl_read_from devname k n"
proof -
  have "map (expl_seq_show devname k) [0..<length (expl_list k)]
      = map (\<lambda>e. case devname (x_ifindex e) of None \<Rightarrow> [] | Some name \<Rightarrow> entry_line (jiffies k) name e) (expl_list k)"
    by (rule nth_equalityI) (simp_all add: expl_seq_show_def Let_def)
  then show "expl_read_from devname k 0 = fst (expl_seq_start k 0)
     @ concat (map (\<lambda>e. case devname (x_ifindex e) of None \<Rightarrow> [] | Some name \<Rightarrow> entry_line (jiffies k) name e) (expl_list k))"
    by (simp add: expl_read_text)
  assume n: "n \<noteq> 0" "n \<le> length (expl_list k)"
  then have "[0..<length (expl_list k)] = [0..<n] @ [n..<length (expl_list k)]" using upt_add_eq_append [of 0 n "length (expl_list k) - n"] by simp
  then show "expl_read_from devname k 0 = fst (expl_seq_start k 0)
     @ concat (map (expl_seq_show devname k) [0..<n]) @ expl_read_from devname k n"
    using n by (simp add: expl_read_text) (simp add: expl_seq_start_def)
qed

lemma queue_read_text: "queue_read k = ''Queue length      : '' @ dec (unat (queue_total k)) @ newline
    @ ''Queue max. length : '' @ dec (unat (queue_maxlen k)) @ newline"
  by (simp add: queue_read_def queue_seq_start_def queue_seq_next_def queue_seq_show_def queue_show_buf_update_def Let_def)

end
