(* ===== verification/Spec2Isabelle.thy ===== *)
theory Spec2Isabelle
  imports Link_List Flood Module_Msgs Debug_Log Boot Checksum Nl_Route Kproc
begin

text \<open>
  AODV ad hoc routing: a user-space daemon (\<^verbatim>\<open>src/*.c\<close>) that runs the protocol and a
  Linux kernel module (\<^verbatim>\<open>src/kaodv/src\<close>) that looks at every packet with a netfilter hook. This
  development models both, and the netlink socket between them.

  \<^bold>\<open>How the program works.\<close> The daemon is one thread. Each turn of its main loop runs the handlers
  of the timers that are due and then reads what \<^verbatim>\<open>select\<close> found: AODV messages (RREQ, RREP,
  RERR, HELLO, RREP-ACK) from the UDP socket and messages of the module. Its routes live in a hash
  table; it tells the module of a route when it becomes valid and when it is lost. The module keeps
  these routes in a list of its own. The hook lets a packet through if there is a route; otherwise
  it puts the packet in a queue and asks the daemon to discover one. The daemon answers with a
  route, which releases the waiting packets, or with the news that none was found, which drops them.

  \<^bold>\<open>The daemon.\<close>
    \<^item> \<open>Prelude\<close>: C arithmetic, byte buffers and byte order, a Hoare logic (\<open>spec\<close>) and frame rules over
      the state monad, the loops as combinators.
    \<^item> \<open>Link_List\<close>: \<^verbatim>\<open>list.c\<close> on \<^verbatim>\<open>prev\<close>/\<^verbatim>\<open>next\<close> pointers, refined to HOL lists.
    \<^item> \<open>Node\<close>: \<^verbatim>\<open>defs.h\<close>, \<^verbatim>\<open>parameters.h\<close>; the structs as records, all globals as one
      record \<open>node\<close>, the heap as one map per struct. \<open>fault\<close> marks undefined behaviour.
    \<^item> \<open>Daemon_Monad\<close>: reading and writing that state; \<open>Wellformed\<close>: the invariant \<open>wf\<close> and \<open>INV L n\<close>.
    \<^item> \<open>Timer_Queue\<close> (\<^verbatim>\<open>timer_queue.c\<close>), \<open>Nl\<close> (sending in \<^verbatim>\<open>nl.c\<close>), \<open>Aodv_Socket\<close>
      (\<^verbatim>\<open>aodv_socket.c\<close>), \<open>Seek_List\<close> (\<^verbatim>\<open>seek_list.c\<close> and the two lists of
      \<^verbatim>\<open>aodv_rreq.c\<close>), \<open>Routing_Table\<close> (\<^verbatim>\<open>routing_table.c\<close>), \<open>Rerr\<close>, \<open>Neighbor\<close>,
      \<open>Rrep\<close>, \<open>Rreq\<close>, \<open>Hello\<close>, \<open>Timeout\<close> (the \<^verbatim>\<open>aodv_*.c\<close> files of these names).
    \<^item> \<open>Dispatch\<close>: the table of handlers, \<^verbatim>\<open>aodv_socket_read\<close>, \<^verbatim>\<open>nl_kaodv_callback\<close>, start-up and
      main loop of \<^verbatim>\<open>main.c\<close>, and \<open>reachable\<close>, the states between its turns.
    \<^item> \<open>Boot\<close>: start-up and end in detail, over a record \<open>boot\<close> of what the daemon uses of the operating system:
      \<^verbatim>\<open>main.c\<close> with the kernel settings, and the functions of \<^verbatim>\<open>nl.c\<close>, \<^verbatim>\<open>aodv_socket.c\<close> and
      \<^verbatim>\<open>debug.c\<close> that open and close. It refines the start-up of \<open>Dispatch\<close>.
    \<^item> \<open>Nl_Route\<close>: the messages of the routing socket (\<^verbatim>\<open>nl_rt_callback\<close>), which are logged.
    \<^item> \<open>Format\<close>, \<open>Debug_Log\<close>: the conversions of \<^verbatim>\<open>sprintf\<close>, and the text that \<^verbatim>\<open>debug.c\<close> writes.
  Operations keep the names of the code and are programs of the state monad (\<open>daemon\<close>). Each theory
  ends its operations with the proof that they keep \<open>INV\<close> (the rules \<open>keeps_rule\<close>), then says what they do.

  \<^bold>\<open>The module.\<close>
    \<^item> \<open>Kernel\<close>: its types and constants and the record \<open>kernel\<close> of its globals; \<open>k_out\<close> is the trace of
      what it does to packets and sends, \<open>k_oks\<close> says which allocations and calls succeed.
    \<^item> \<open>Kexpl\<close>, \<open>Kipenc\<close>, \<open>Kqueue\<close>, \<open>Knetlink\<close>, \<open>Kmod\<close>: \<^verbatim>\<open>kaodv_expl.c\<close>, \<^verbatim>\<open>kaodv_ipenc.c\<close>,
      \<^verbatim>\<open>kaodv_queue.c\<close>, \<^verbatim>\<open>kaodv_netlink.c\<close>, \<^verbatim>\<open>kaodv_mod.c\<close>, as functions on \<open>kernel\<close>.
    \<^item> \<open>Checksum\<close>: the checksum of \<open>Kipenc\<close> against the Internet checksum; \<open>Kproc\<close>: the text of the proc entries.

  \<^bold>\<open>Both.\<close> \<open>Kernel_Link\<close> carries messages over the socket as bytes and composes the two sides.
  \<open>Mirror\<close> shows that the daemon's operations keep its valid routes equal to what it has told the module,
  all but one; \<open>Mirror_Runs\<close> carries this through runs of the daemon and into the module's table.
  \<open>Flood\<close> describes how a RREQ is passed on and how a RREP ends a search; \<open>Module_Msgs\<close>
  shows that the module accepts the form of all that the daemon ever sends it.

  \<^bold>\<open>What is shown.\<close> Whatever arrives, the daemon's state stays well-formed: no bad access, unique
  destinations in their buckets, an ordered queue of timers of live objects (\<open>reachable_wf\<close>). Each
  operation of the tables, queues and messages is described on every branch, and messages that are
  built read back as they were meant. The module's table refines a map, its queue is bounded and
  hands on packets in order, encapsulation can be undone. Along the socket, a packet without route
  starts a discovery, and its end releases or drops exactly the waiting packets. Starting the
  daemon ends, whatever the system calls answer, with an exit or in the state the runs start from. The interfaces are
  locales, interpreted on the definitions of the model: \<open>keyed_list\<close> (lists searched by a key),
  \<open>list_queue\<close> (a linked list as a queue), \<open>expiry\<close> (what the timer loop needs of its handlers),
  \<open>rate_window\<close> (the rate limits), \<open>route_map\<close> (the module's table as a map), \<open>packet_fifo\<close> (the loops of
  the packet queue), \<open>steady\<close> (what the timer loop keeps if the handlers do).

  \<^bold>\<open>Bounds and fuel.\<close> A turn of \<open>reachable\<close> starts with room for its events in a table of 126 routes:
  with 128 a RERR may outgrow its 1024-byte buffer (\<open>rerr_add_udest_overflow\<close>), and a datagram adds at
  most two. \<open>rerr_udests\<close> has fuel 255, the largest value of the byte that counts its turns.
  \<open>run_expired\<close> has as fuel the number of expired timers, which no handler increases
  (\<open>timer_timeout_drains\<close>). The other recursions end by a measure:
  the digits of a number, the attributes of a netlink message, each at least four bytes long, the
  packets of a queue, the routes of a proc entry, the low zeros of a netmask; or they are structural.

  \<^bold>\<open>Parameters.\<close> The clock, the results of system calls, the success of the module's allocations and what
  arrives are arbitrary. \<^verbatim>\<open>ip_send_check\<close> and \<^verbatim>\<open>ip_select_ident\<close> of the Linux kernel are
  arguments of the hook. The daemon is taken as built by its makefile, for a 32-bit little-endian MIPS.

  \<^bold>\<open>Not modelled.\<close> Which log lines the daemon's handlers write (the functions that write them are in \<open>Debug_Log\<close>);
  the addresses and the process number the sockets are bound to; failing allocation in the daemon, which
  exits; \<^verbatim>\<open>kaodv_netlink_send_debug_msg\<close>, which nothing calls; the code under \<^verbatim>\<open>EXPL_TIMER\<close>, which
  no build defines, and the operations that are commented out; locks: the module's operations are atomic here.
\<close>

section \<open>Runs of the daemon\<close>



text \<open>
  C16: \<^verbatim>\<open>wait_on_reboot\<close> is set when the daemon starts and never cleared, since its timer
  has no handler and is never armed. So the node never sends a RREP, neither as the destination
  of a RREQ nor for another node.
\<close>

theorem reachable_sends_no_rrep:
  assumes "reachable time ret s"
  shows "wait_on_reboot s \<and> [AODV_RREP] \<notin> set (map (\<lambda>pk. take 1 (pk_data pk)) (sent s))"
proof -
  have "wf_silent (wait_on_reboot s) (sent s)"
    using INV_wf [OF reachable_INV [OF assms]] by (simp add: wf_def)
  then show ?thesis by (auto simp: wf_silent_def)
qed

theorem reachable_sends_no_rrep_witness:
  "let s = snd (run_state (main_turn [Datagram (Received [1] 10 [Cm_ttl 3])]) (snd (run_state (main_init 1 10 255) node0)))
   in wait_on_reboot s \<and> [AODV_RREP] \<notin> set (map (\<lambda>pk. take 1 (pk_data pk)) (sent s))"
proof -
  let ?s = "snd (run_state (main_init 1 10 255) node0)"
  have "reachable (\<lambda>_. zero_time) (\<lambda>_. 0) ?s" unfolding node0_def by (rule reachable.start)
  moreover have "length (all_rts (tbl ?s)) = 0"
    using start_keeps [of 1 10 255 "\<lambda>_. zero_time" "\<lambda>_. 0" 1] by (simp add: node0_def INV_def)
  ultimately have "reachable (\<lambda>_. zero_time) (\<lambda>_. 0)
      (snd (run_state (main_turn [Datagram (Received [1] 10 [Cm_ttl 3])]) ?s))"
    by (intro reachable.turn) simp_all
  then show ?thesis using reachable_sends_no_rrep unfolding Let_def by blast
qed

text \<open>
  C15: the timer loop ends. In a reachable state it runs the handler of every timer that has
  expired, takes no other one, and leaves the daemon well-formed: no handler arms a timer onto
  the list of the expired ones, so as many turns as timers have expired are enough.
\<close>

theorem timer_timeout_drains:
  assumes "reachable time ret s" and "length (all_rts (tbl s)) \<le> 126"
  shows "let s' = snd (run_state (timer_timeout call now) s) in exptq s' = [] \<and> wf s'"
proof -
  have "INV {Waiting 0} 126 s" using reachable_INV [OF assms(1)] assms(2) by (auto simp: INV_def)
  then have "INV {Waiting 0} 126 (snd (run_state (timer_timeout call now) s))"
    by (rule timer_client.timer_timeout_empties)
  then show ?thesis unfolding Let_def using idle_exptq INV_wf by blast
qed

theorem timer_timeout_drains_witness:
  "let s' = snd (run_state (timer_timeout call \<lparr>tv_sec = 60, tv_usec = 0\<rparr>) (snd (run_state (main_init 1 10 255) node0)))
   in exptq s' = [] \<and> wf s'"
proof -
  let ?s = "snd (run_state (main_init 1 10 255) node0)"
  have "reachable (\<lambda>_. zero_time) (\<lambda>_. 0) ?s" unfolding node0_def by (rule reachable.start)
  moreover have "length (all_rts (tbl ?s)) \<le> 126"
    using start_keeps [of 1 10 255 "\<lambda>_. zero_time" "\<lambda>_. 0" 1] by (simp add: node0_def INV_def)
  ultimately show ?thesis by (rule timer_timeout_drains)
qed

end
